(* ===== verification/Prelude.thy ===== *)
theory Prelude
  imports Complex_Main "HOL-Library.Word" "HOL-Library.Sublist"
begin

text \<open>
  What the components share: bytes and Python strings, exceptions as values of a sum type,
  the little of the Python standard library the program uses (decimal formatting, substring
  search, slicing), decoded JSON values, and the lemmas about them.

  A Python \<open>bytes\<close> is a list of 8-bit words. A Python \<open>str\<close> is a HOL \<open>string\<close> that holds its
  UTF-8 bytes, so \<open>s.encode("utf-8")\<close> is \<open>str_encode s\<close>. A Python \<open>int\<close> is an \<open>int\<close>, or a \<open>nat\<close>
  where the code can only produce non-negative values (offsets, lengths, decoded varints).
\<close>

unbundle bit_operations_syntax

type_synonym byte = "8 word"
type_synonym bytes = "8 word list"

section \<open>Exceptions as values\<close>

text \<open>
  Python's exception classes the program raises or catches, each with the text \<open>str(error)\<close>
  gives. The class hierarchy the \<open>except\<close> clauses rely on is \<open>is_value_error\<close>,
  \<open>is_camera_error\<close>, and so on: \<open>PacketError\<close>, \<open>InvalidRequest\<close>, \<open>UnicodeDecodeError\<close> and
  \<open>JSONDecodeError\<close> are \<open>ValueError\<close>s, \<open>FileNotFoundError\<close> and \<open>TimeoutError\<close> are \<open>OSError\<close>s, and \<open>CameraUnavailable\<close> is a \<open>CameraError\<close>.
\<close>

datatype exn =
    PacketError string
  | ValueError string
  | UnicodeDecodeError string
  | JSONDecodeError string
  | InvalidRequest
  | TypeError string
  | CameraError string
  | CameraUnavailable string
  | TimeoutError string
  | LookupError string
  | OSError string
  | FileNotFoundError string
  | NameError string
  | GeneratorExit

type_synonym 'a result = "exn + 'a"

fun exn_message :: "exn \<Rightarrow> string" where
  "exn_message (PacketError m) = m"
| "exn_message (ValueError m) = m"
| "exn_message (UnicodeDecodeError m) = m"
| "exn_message (JSONDecodeError m) = m"
| "exn_message InvalidRequest = []"
| "exn_message (TypeError m) = m"
| "exn_message (CameraError m) = m"
| "exn_message (CameraUnavailable m) = m"
| "exn_message (TimeoutError m) = m"
| "exn_message (LookupError m) = m"
| "exn_message (OSError m) = m"
| "exn_message (FileNotFoundError m) = m"
| "exn_message (NameError m) = m"
| "exn_message GeneratorExit = []"

fun is_value_error :: "exn \<Rightarrow> bool" where
  "is_value_error (PacketError m) = True"
| "is_value_error (ValueError m) = True"
| "is_value_error (UnicodeDecodeError m) = True"
| "is_value_error (JSONDecodeError m) = True"
| "is_value_error InvalidRequest = True"
| "is_value_error _ = False"

fun is_type_error :: "exn \<Rightarrow> bool" where
  "is_type_error (TypeError m) = True"
| "is_type_error _ = False"

fun is_camera_error :: "exn \<Rightarrow> bool" where
  "is_camera_error (CameraError m) = True"
| "is_camera_error (CameraUnavailable m) = True"
| "is_camera_error _ = False"

fun is_timeout :: "exn \<Rightarrow> bool" where
  "is_timeout (TimeoutError m) = True"
| "is_timeout _ = False"

fun is_os_error :: "exn \<Rightarrow> bool" where
  "is_os_error (OSError m) = True"
| "is_os_error (FileNotFoundError m) = True"
| "is_os_error (TimeoutError m) = True"
| "is_os_error _ = False"

text \<open>Sequencing: the rest runs on the value, an exception leaves at once.\<close>

primrec bind :: "'e + 'a \<Rightarrow> ('a \<Rightarrow> 'e + 'b) \<Rightarrow> 'e + 'b" where
  "bind (Inl e) k = Inl e"
| "bind (Inr x) k = k x"

definition map_exn :: "('e \<Rightarrow> 'f) \<Rightarrow> 'e + 'a \<Rightarrow> 'f + 'a" where
  "map_exn g m = (case m of Inl e \<Rightarrow> Inl (g e) | Inr x \<Rightarrow> Inr x)"

fun ok :: "'e + 'a \<Rightarrow> bool" where
  "ok (Inl _) = False"
| "ok (Inr _) = True"

named_theorems result_iff \<open>when a sequence of fallible steps returns or raises\<close>

lemma map_exn_simps [simp]: "map_exn g (Inl e) = Inl (g e)" "map_exn g (Inr x) = Inr x"
  by (simp_all add: map_exn_def)

lemma bind_Inr_iff [result_iff]: "bind m f = Inr y \<longleftrightarrow> (\<exists>x. m = Inr x \<and> f x = Inr y)"
  by (cases m) auto

lemma bind_Inl_iff [result_iff]:
  "bind m f = Inl e \<longleftrightarrow> m = Inl e \<or> (\<exists>x. m = Inr x \<and> f x = Inl e)"
  by (cases m) auto

lemma map_exn_Inr_iff [result_iff]: "map_exn g m = Inr y \<longleftrightarrow> m = Inr y"
  by (cases m) auto

lemma ok_iff: "ok m \<longleftrightarrow> (\<exists>x. m = Inr x)"
  by (cases m) auto

lemma bind_same [fundef_cong]:
  "m = n \<Longrightarrow> (\<And>x. n = Inr x \<Longrightarrow> k x = l x) \<Longrightarrow> bind m k = bind n l"
  by (cases n) simp_all

text \<open>A comprehension or loop whose body may raise stops at the first exception.\<close>

fun map_result :: "('a \<Rightarrow> 'e + 'b) \<Rightarrow> 'a list \<Rightarrow> 'e + 'b list" where
  "map_result f [] = Inr []"
| "map_result f (x # xs) = bind (f x) (\<lambda>y. bind (map_result f xs) (\<lambda>ys. Inr (y # ys)))"

lemma map_result_Inr_iff:
  "map_result f xs = Inr ys \<longleftrightarrow> list_all2 (\<lambda>x y. f x = Inr y) xs ys"
  by (induction xs arbitrary: ys) (auto simp: result_iff list_all2_Cons1)

text \<open>
  Code that changes a state and may raise: the result and the state at the end, also when it
  raised. \<open>seq_state m k\<close> is \<open>m\<close> followed by \<open>k\<close>.
\<close>

type_synonym ('a, 's) op = "'s \<Rightarrow> 'a result \<times> 's"

definition seq_state :: "('a, 's) op \<Rightarrow> ('a \<Rightarrow> ('b, 's) op) \<Rightarrow> ('b, 's) op" where
  "seq_state m k s = (case m s of (r, s') \<Rightarrow> (case r of Inl e \<Rightarrow> (Inl e, s') | Inr x \<Rightarrow> k x s'))"

definition lift_result :: "'a result \<Rightarrow> ('a, 's) op" where
  "lift_result r s = (r, s)"

lemma lift_result_simps [simp]: "lift_result r s = (r, s)"
  "seq_state (lift_result (Inr x)) k = k x" "seq_state (lift_result (Inl e)) k = lift_result (Inl e)"
  by (simp_all add: lift_result_def seq_state_def fun_eq_iff)

lemma seq_state_same [fundef_cong]:
  "m s = n t \<Longrightarrow> (\<And>x s'. n t = (Inr x, s') \<Longrightarrow> k x s' = l x s') \<Longrightarrow> seq_state m k s = seq_state n l t"
  by (auto simp: seq_state_def split: prod.split sum.split)

lemma seq_state_Inr_iff:
  "seq_state m k s = (Inr y, s'') \<longleftrightarrow> (\<exists>x s'. m s = (Inr x, s') \<and> k x s' = (Inr y, s''))"
  by (auto simp: seq_state_def split: prod.split sum.split)

lemma seq_state_Inl_iff:
  "seq_state m k s = (Inl e, s'') \<longleftrightarrow>
     m s = (Inl e, s'') \<or> (\<exists>x s'. m s = (Inr x, s') \<and> k x s' = (Inl e, s''))"
  by (auto simp: seq_state_def split: prod.split sum.split)

text \<open>A relation between the states before and after that every part keeps, the whole keeps.\<close>

definition keeps :: "('s \<Rightarrow> 's \<Rightarrow> bool) \<Rightarrow> ('a, 's) op \<Rightarrow> bool" where
  "keeps R m \<longleftrightarrow> (\<forall>s. R s (snd (m s)))"

lemma keepsD: "keeps R m \<Longrightarrow> m s = (r, s') \<Longrightarrow> R s s'"
  unfolding keeps_def by (metis snd_conv)

lemma keeps_mono: "keeps R m \<Longrightarrow> (\<And>s s'. R s s' \<Longrightarrow> S s s') \<Longrightarrow> keeps S m"
  by (simp add: keeps_def)

lemma keeps_seq:
  assumes "transp R" and "keeps R m" and "\<And>x. keeps R (k x)"
  shows "keeps R (seq_state m k)"
  unfolding keeps_def
proof
  fix s
  obtain r s' where m: "m s = (r, s')" by fastforce
  with assms(2) have 1: "R s s'" by (rule keepsD)
  show "R s (snd (seq_state m k s))"
  proof (cases r)
    case (Inl e)
    with 1 m show ?thesis by (simp add: seq_state_def)
  next
    case (Inr x)
    with assms(3) have "R s' (snd (k x s'))" by (simp add: keeps_def)
    with 1 m Inr assms(1) show ?thesis by (simp add: seq_state_def) (meson transpD)
  qed
qed

lemma keeps_lift: "reflp R \<Longrightarrow> keeps R (lift_result r)"
  by (simp add: keeps_def reflpD)

text \<open>
  An operation that keeps a property of the state and raises only some exceptions: the contract a
  caller relies on.
\<close>

definition behaves :: "('s \<Rightarrow> bool) \<Rightarrow> (exn \<Rightarrow> bool) \<Rightarrow> ('a, 's) op \<Rightarrow> bool" where
  "behaves good raises m \<longleftrightarrow> (\<forall>s. good s \<longrightarrow> good (snd (m s)) \<and> (\<forall>e. fst (m s) = Inl e \<longrightarrow> raises e))"

lemma behavesI:
  "(\<And>s r s'. good s \<Longrightarrow> m s = (r, s') \<Longrightarrow> good s' \<and> (\<forall>e. r = Inl e \<longrightarrow> raises e)) \<Longrightarrow> behaves good raises m"
  unfolding behaves_def by (metis prod.collapse)

lemma behavesD:
  "behaves good raises m \<Longrightarrow> good s \<Longrightarrow> m s = (r, s') \<Longrightarrow> good s' \<and> (\<forall>e. r = Inl e \<longrightarrow> raises e)"
  unfolding behaves_def by (metis fst_conv snd_conv)

lemma behaves_lift: "(\<And>e. r = Inl e \<Longrightarrow> raises e) \<Longrightarrow> behaves good raises (lift_result r)"
  by (simp add: behaves_def)

lemma behaves_seq:
  assumes "behaves good raises m" and "\<And>x s s'. m s = (Inr x, s') \<Longrightarrow> behaves good raises (k x)"
  shows "behaves good raises (seq_state m k)"
proof (rule behavesI)
  fix s r s' assume s: "good s" and run: "seq_state m k s = (r, s')"
  obtain q t where m: "m s = (q, t)" by fastforce
  note first = behavesD [OF assms(1) s m]
  show "good s' \<and> (\<forall>e. r = Inl e \<longrightarrow> raises e)"
  proof (cases q)
    case (Inl e)
    with run m first show ?thesis by (auto simp: seq_state_def)
  next
    case (Inr x)
    with run m have "k x t = (r, s')" by (simp add: seq_state_def)
    with behavesD [OF assms(2) [of s x t]] m Inr first show ?thesis by blast
  qed
qed

section \<open>Strings and bytes\<close>

definition str_encode :: "string \<Rightarrow> bytes" where
  "str_encode s = map (\<lambda>c. of_nat (of_char c)) s"

lemma length_str_encode [simp]: "length (str_encode s) = length s"
  by (simp add: str_encode_def)

lemma str_encode_append [simp]: "str_encode (s @ t) = str_encode s @ str_encode t"
  by (simp add: str_encode_def)

lemma str_encode_Nil_iff [simp]: "str_encode s = [] \<longleftrightarrow> s = []"
  by (simp add: str_encode_def)

lemma char_byte_inj: "of_nat (of_char c) = (of_nat (of_char d) :: byte) \<Longrightarrow> c = d"
proof -
  assume eq: "of_nat (of_char c) = (of_nat (of_char d) :: byte)"
  have "of_char c < (256::nat)" "of_char d < (256::nat)"
    by simp_all
  with arg_cong [OF eq, of unat] have "of_char c = (of_char d :: nat)"
    by (simp add: unat_of_nat)
  then show "c = d"
    by simp
qed

lemma str_encode_inj: "str_encode s = str_encode t \<longleftrightarrow> s = t"
  unfolding str_encode_def
  by (rule inj_map_eq_map) (auto intro!: injI dest: char_byte_inj)

text \<open>\<open>sub in s\<close> for strings, and \<open>data.find(sub, start)\<close>, with \<open>None\<close> for Python's \<open>-1\<close>.\<close>

fun contains :: "'a list \<Rightarrow> 'a list \<Rightarrow> bool" where
  "contains sub [] = (sub = [])"
| "contains sub (x # xs) = (prefix sub (x # xs) \<or> contains sub xs)"

lemma contains_iff: "contains sub s \<longleftrightarrow> (\<exists>p q. s = p @ sub @ q)"
proof (induction s)
  case Nil
  then show ?case by auto
next
  case (Cons x s)
  show ?case
  proof
    assume "contains sub (x # s)"
    then consider "prefix sub (x # s)" | "contains sub s" by auto
    then show "\<exists>p q. x # s = p @ sub @ q"
    proof cases
      case 1
      then obtain q where "x # s = [] @ sub @ q" by (auto elim: prefixE)
      then show ?thesis by blast
    next
      case 2
      with Cons obtain p q where "x # s = (x # p) @ sub @ q" by auto
      then show ?thesis by blast
    qed
  next
    assume "\<exists>p q. x # s = p @ sub @ q"
    then obtain p q where eq: "x # s = p @ sub @ q" by blast
    show "contains sub (x # s)"
    proof (cases p)
      case Nil
      with eq have "prefix sub (x # s)" by (simp add: prefix_def)
      then show ?thesis by simp
    next
      case (Cons y p')
      with eq have "s = p' @ sub @ q" by simp
      with Cons.IH have "contains sub s" by blast
      then show ?thesis by simp
    qed
  qed
qed

fun find_sub :: "'a list \<Rightarrow> 'a list \<Rightarrow> nat option" where
  "find_sub sub [] = (if sub = [] then Some 0 else None)"
| "find_sub sub (x # xs) =
     (if prefix sub (x # xs) then Some 0 else map_option Suc (find_sub sub xs))"

definition find_from :: "'a list \<Rightarrow> 'a list \<Rightarrow> nat \<Rightarrow> nat option" where
  "find_from s sub start =
     (if length s < start then None else map_option (\<lambda>i. start + i) (find_sub sub (drop start s)))"

lemma find_sub_Some: "find_sub sub s = Some i \<Longrightarrow> i \<le> length s \<and> prefix sub (drop i s)"
  by (induction s arbitrary: i) (auto split: if_splits)

lemma find_sub_first: "find_sub sub s = Some i \<Longrightarrow> j < i \<Longrightarrow> \<not> prefix sub (drop j s)"
proof (induction s arbitrary: i j)
  case Nil
  then show ?case by (auto split: if_splits)
next
  case (Cons x s)
  then show ?case by (cases j) (auto split: if_splits)
qed

lemma find_from_Some:
  "find_from s sub start = Some i \<Longrightarrow> start \<le> i \<and> i \<le> length s \<and> prefix sub (drop i s)"
  by (auto simp: find_from_def add.commute split: if_splits dest!: find_sub_Some)

lemma find_sub_take:
  assumes "find_sub sub s = Some i"
  shows "find_sub sub (take (i + length sub) s) = Some i"
  using assms
proof (induction s arbitrary: i)
  case Nil
  then show ?case by (auto split: if_splits)
next
  case (Cons x s)
  show ?case
  proof (cases "prefix sub (x # s)")
    case True
    with Cons.prems have "i = 0" by simp
    moreover have "prefix sub (take (length sub) (x # s))"
      using True by (auto simp: prefix_def)
    ultimately show ?thesis by (cases sub) auto
  next
    case False
    with Cons.prems obtain j where j: "find_sub sub s = Some j" "i = Suc j" by auto
    have "\<not> prefix sub (x # take (j + length sub) s)"
      using False by (metis append_take_drop_id prefix_append take_Suc_Cons prefix_prefix)
    with Cons.IH [OF j(1)] show ?thesis by (simp add: j(2))
  qed
qed

lemma find_take_end:
  assumes "find_from s sub start = Some i"
  shows "find_from (take (i + length sub) s) sub start = Some i"
    and "length (take (i + length sub) s) = i + length sub"
    and "suffix sub (take (i + length sub) s)" and "start \<le> i"
proof -
  from assms obtain j where j: "find_sub sub (drop start s) = Some j" "i = start + j" "start \<le> length s"
    by (auto simp: find_from_def split: if_splits)
  from find_sub_Some [OF j(1)] have at: "prefix sub (drop i s)"
    by (simp add: j(2) add.commute)
  then show len: "length (take (i + length sub) s) = i + length sub"
    using prefix_length_le [OF at] j(2,3) find_sub_Some [OF j(1)] by auto
  have "drop start (take (i + length sub) s) = take (j + length sub) (drop start s)"
    by (simp add: j(2) drop_take add.assoc)
  with find_sub_take [OF j(1)] len show "find_from (take (i + length sub) s) sub start = Some i"
    by (simp add: find_from_def j(2))
  have "take (i + length sub) s = take i s @ take (length sub) (drop i s)"
    by (rule take_add)
  also have "take (length sub) (drop i s) = sub"
    using at by (auto simp: prefix_def)
  finally show "suffix sub (take (i + length sub) s)" by (simp add: suffix_def)
  show "start \<le> i" by (simp add: j(2))
qed

text \<open>\<open>str(n)\<close> for an integer.\<close>

definition digit :: "nat \<Rightarrow> char" where
  "digit d = char_of (48 + d)"

fun show_nat :: "nat \<Rightarrow> string" where
  "show_nat n = (if n < 10 then [digit n] else show_nat (n div 10) @ [digit (n mod 10)])"

declare show_nat.simps [simp del]

definition show_int :: "int \<Rightarrow> string" where
  "show_int i = (if i < 0 then ''-'' @ show_nat (nat (- i)) else show_nat (nat i))"

definition is_digit :: "char \<Rightarrow> bool" where
  "is_digit c \<longleftrightarrow> 48 \<le> (of_char c :: nat) \<and> (of_char c :: nat) \<le> 57"

definition digit_value :: "char \<Rightarrow> nat" where
  "digit_value c = of_char c - 48"

definition read_nat :: "string \<Rightarrow> nat" where
  "read_nat s = foldl (\<lambda>n c. 10 * n + digit_value c) 0 s"

lemma of_char_digit: "d < 10 \<Longrightarrow> of_char (digit d) = 48 + d"
  by (simp add: digit_def of_char_of)

lemma digit_digit: "d < 10 \<Longrightarrow> is_digit (digit d)"
  by (simp add: is_digit_def of_char_digit)

lemma digit_value_digit: "d < 10 \<Longrightarrow> digit_value (digit d) = d"
  by (simp add: digit_value_def of_char_digit)

lemma show_nat_digits: "\<forall>c \<in> set (show_nat n). is_digit c"
proof (induction n rule: show_nat.induct)
  case (1 n)
  then show ?case
    by (cases "n < 10") (auto simp: show_nat.simps [of n] digit_digit)
qed

lemma show_nat_nonempty [simp]: "show_nat n \<noteq> []"
  by (simp add: show_nat.simps [of n])

lemma read_show_nat [simp]: "read_nat (show_nat n) = n"
proof (induction n rule: show_nat.induct)
  case (1 n)
  then show ?case
    by (cases "n < 10") (auto simp: show_nat.simps [of n] read_nat_def digit_value_digit)
qed

lemma show_nat_inj: "show_nat m = show_nat n \<longleftrightarrow> m = n"
  by (metis read_show_nat)

text \<open>
  A decimal number is read back from the front of a longer text when a non-digit follows: this
  is what makes a text built of numbers and separators unambiguous.
\<close>

lemma digits_then_split:
  assumes "\<forall>c \<in> set ds. is_digit c" "\<forall>c \<in> set es. is_digit c"
    and "\<not> is_digit x" "\<not> is_digit y"
    and "ds @ x # s = es @ y # t"
  shows "ds = es \<and> x # s = y # t"
  using assms
proof (induction ds arbitrary: es)
  case Nil
  then show ?case by (cases es) auto
next
  case (Cons d ds)
  then show ?case by (cases es) auto
qed

lemma show_nat_split:
  assumes "show_nat m @ x # s = show_nat n @ y # t" and "\<not> is_digit x" and "\<not> is_digit y"
  shows "m = n \<and> x # s = y # t"
  using digits_then_split [OF show_nat_digits show_nat_digits assms(2,3,1)]
  by (simp add: show_nat_inj)

section \<open>Decoded JSON values\<close>

text \<open>
  A value as \<open>json.loads\<close> returns it. An object is the list of its items in insertion order;
  \<open>dict_get\<close> is \<open>d.get(key)\<close>, with \<open>JNull\<close> for \<open>None\<close>.
\<close>

datatype json =
    JNull
  | JBool bool
  | JInt int
  | JFloat rat
  | JStr string
  | JList "json list"
  | JObj "(string \<times> json) list"

type_synonym dict = "(string \<times> json) list"

definition dict_get :: "dict \<Rightarrow> string \<Rightarrow> json" where
  "dict_get d k = (case map_of d k of None \<Rightarrow> JNull | Some v \<Rightarrow> v)"

definition dict_get_default :: "dict \<Rightarrow> string \<Rightarrow> json \<Rightarrow> json" where
  "dict_get_default d k v = (case map_of d k of None \<Rightarrow> v | Some w \<Rightarrow> w)"

text \<open>\<open>d[key] = value\<close>: an existing key keeps its place, a new one is appended.\<close>

fun dict_set :: "('k \<times> 'v) list \<Rightarrow> 'k \<Rightarrow> 'v \<Rightarrow> ('k \<times> 'v) list" where
  "dict_set [] k v = [(k, v)]"
| "dict_set ((k', v') # d) k v = (if k' = k then (k', v) # d else (k', v') # dict_set d k v)"

lemma map_of_dict_set [simp]: "map_of (dict_set d k v) = (map_of d)(k \<mapsto> v)"
  by (induction d) (auto simp: fun_eq_iff)

lemma keys_dict_set: "map fst (dict_set d k v) =
    (if k \<in> fst ` set d then map fst d else map fst d @ [k])"
  by (induction d) force+

lemma distinct_dict_set: "distinct (map fst d) \<Longrightarrow> distinct (map fst (dict_set d k v))"
  by (simp add: keys_dict_set)

text \<open>\<open>d.pop(key, None)\<close> and \<open>del d[key]\<close> on the items of a dict.\<close>

definition dict_pop :: "('k \<times> 'v) list \<Rightarrow> 'k \<Rightarrow> ('k \<times> 'v) list" where
  "dict_pop d k = filter (\<lambda>(k', v). k' \<noteq> k) d"

lemma map_of_dict_pop [simp]: "map_of (dict_pop d k) = (map_of d)(k := None)"
  by (induction d) (auto simp: dict_pop_def fun_eq_iff)

lemma distinct_dict_pop: "distinct (map fst d) \<Longrightarrow> distinct (map fst (dict_pop d k))"
  by (induction d) (auto simp: dict_pop_def)

lemma distinct_snd_dict_pop: "distinct (map snd d) \<Longrightarrow> distinct (map snd (dict_pop d k))"
  by (induction d) (auto simp: dict_pop_def)

lemma dict_pop_subset: "set (dict_pop d k) \<subseteq> set d"
  by (auto simp: dict_pop_def)

lemma set_dict_set: "set (dict_set d k v) \<subseteq> insert (k, v) (set d)"
proof (induction d)
  case (Cons e d)
  then show ?case by (cases e) auto
qed simp

lemma set_snd_dict_set: "snd ` set (dict_set d k v) \<subseteq> insert v (snd ` set d)"
proof (induction d)
  case (Cons e d)
  then show ?case by (cases e; cases "fst e = k") auto
qed simp

lemma distinct_snd_dict_set:
  "distinct (map snd d) \<Longrightarrow> v \<notin> snd ` set d \<Longrightarrow> distinct (map snd (dict_set d k v))"
proof (induction d)
  case (Cons e d)
  then show ?case
    using set_snd_dict_set [of d k v] by (cases e) (auto simp: image_iff)
qed simp

end
