(* ===== verification/Varint.thy ===== *)
theory Varint
  imports Prelude
begin

text \<open>
  The varint codec of \<open>ino_a9_bridge/src/wificam_bridge/pprpc.py\<close> (\<open>decode_varint\<close>,
  \<open>encode_varint\<close>) and what every parser and builder of the program needs to know of it: the
  round trip inside any surrounding bytes, the range of a decoded value, and that decoding does
  not depend on the bytes after the varint.
\<close>

definition MAX_VARINT_BYTES :: nat where
  "MAX_VARINT_BYTES = 10"

section \<open>Varints\<close>

text \<open>
  The loop of \<open>decode_varint\<close>: \<open>index\<close> is the loop variable and the last argument is how many
  iterations of \<open>range(max_bytes)\<close> are left.
\<close>

fun decode_varint_loop :: "bytes \<Rightarrow> nat \<Rightarrow> nat \<Rightarrow> nat \<Rightarrow> nat \<Rightarrow> (nat \<times> nat) result" where
  "decode_varint_loop data offset value index 0 =
     Inl (PacketError ''varint exceeds supported size'')"
| "decode_varint_loop data offset value index (Suc left) =
     (if length data \<le> offset then Inl (PacketError ''truncated varint'')
      else
        let byte = data ! offset;
            value' = value OR push_bit (7 * index) (unat (byte AND 0x7F))
        in if byte < 0x80 then Inr (value', Suc offset)
           else decode_varint_loop data (Suc offset) value' (Suc index) left)"

definition decode_varint :: "bytes \<Rightarrow> nat \<Rightarrow> nat \<Rightarrow> (nat \<times> nat) result" where
  "decode_varint data offset max_bytes = decode_varint_loop data offset 0 0 max_bytes"

function encode_varint_loop :: "int \<Rightarrow> bytes" where
  "encode_varint_loop value =
     (if 0x80 \<le> value
      then word_of_int ((value AND 0x7F) OR 0x80) # encode_varint_loop (drop_bit 7 value)
      else [word_of_int value])"
  by pat_completeness auto
termination
  by (relation "measure nat") (auto simp: drop_bit_eq_div)

declare encode_varint_loop.simps [simp del]

definition encode_varint :: "int \<Rightarrow> bytes result" where
  "encode_varint value =
     (if value < 0 then Inl (ValueError ''varint value must be non-negative'')
      else Inr (encode_varint_loop value))"

section \<open>Encoding\<close>

abbreviation varint :: "nat \<Rightarrow> bytes" where
  "varint n \<equiv> encode_varint_loop (int n)"

lemma encode_varint_nonneg [simp]: "0 \<le> v \<Longrightarrow> encode_varint v = Inr (encode_varint_loop v)"
  by (simp add: encode_varint_def)

lemma encode_varint_neg [simp]: "v < 0 \<Longrightarrow> \<not> ok (encode_varint v)"
  by (simp add: encode_varint_def)

lemma and_mask_int_7: "(v :: int) AND 0x7F = v mod 128"
proof -
  have "(0x7F :: int) = mask 7"
    by (simp add: mask_eq_exp_minus_1)
  then have "v AND 0x7F = take_bit 7 v"
    by (simp only: take_bit_eq_mask)
  then show ?thesis
    by (simp add: take_bit_eq_mod)
qed

lemma varint_unfold:
  "varint n = (if n < 128 then [of_nat n]
               else of_nat (n mod 128 + 128) # varint (n div 128))"
proof (cases "n < 128")
  case True
  then show ?thesis by (simp add: encode_varint_loop.simps [of "int n"])
next
  case False
  have mask: "int n AND 0x7F = int (n mod 128)"
    by (simp add: zmod_int and_mask_int_7)
  have "int (n mod 128) OR 0x80 = int (n mod 128) + 0x80"
  proof -
    have "int (n mod 128) AND 0x80 = 0"
    proof (rule bit_eqI)
      fix k
      have "\<not> bit (n mod 128) 7"
        by (simp add: bit_iff_odd)
      then show "bit (int (n mod 128) AND 0x80) k \<longleftrightarrow> bit (0 :: int) k"
        using bit_exp_iff [of 7 k, where 'a = int]
        by (auto simp: bit_and_iff bit_of_nat_iff)
    qed
    then show ?thesis by (simp add: disjunctive_add_eq_or)
  qed
  with False show ?thesis
    by (simp add: encode_varint_loop.simps [of "int n"] mask drop_bit_eq_div zdiv_int)
qed

lemma varint_nonempty [simp]: "varint n \<noteq> []"
  by (simp add: varint_unfold [of n])

lemma varint_small: "n < 128 \<Longrightarrow> varint n = [of_nat n]"
  by (simp add: varint_unfold [of n])

lemma length_varint_le: "length (varint n) \<le> Suc m \<longleftrightarrow> n < 2 ^ (7 * Suc m)"
proof (induction m arbitrary: n)
  case 0
  then show ?case by (auto simp: varint_unfold [of n])
next
  case (Suc m)
  have "n div 128 < 2 ^ (7 * Suc m) \<longleftrightarrow> n < 2 ^ (7 * Suc (Suc m))"
    by (simp add: div_less_iff_less_mult power_add)
  moreover have "n < 128 \<Longrightarrow> n < 2 ^ (7 * Suc (Suc m))"
  proof -
    assume "n < 128"
    also have "(128 :: nat) = 2 ^ 7" by simp
    also have "\<dots> \<le> 2 ^ (7 * Suc (Suc m))" by (rule power_increasing) simp_all
    finally show "n < 2 ^ (7 * Suc (Suc m))" .
  qed
  ultimately show ?case
    using Suc [of "n div 128"] by (auto simp: varint_unfold [of n] simp del: mult_Suc_right power_Suc)
qed

section \<open>Decoding\<close>

lemma or_push_bit: "v < 2 ^ k \<Longrightarrow> v OR push_bit k x = v + 2 ^ k * (x :: nat)"
proof -
  assume v: "v < 2 ^ k"
  have "v AND push_bit k x = 0"
  proof (rule bit_eqI)
    fix i
    have "\<not> bit v i" if "k \<le> i"
    proof -
      have "v < 2 ^ i"
        using v that by (meson less_le_trans one_le_numeral power_increasing)
      then show ?thesis by (simp add: bit_iff_odd)
    qed
    then show "bit (v AND push_bit k x) i \<longleftrightarrow> bit (0 :: nat) i"
      by (auto simp: bit_and_iff bit_push_bit_iff not_le)
  qed
  then show ?thesis
    by (simp add: push_bit_eq_mult flip: disjunctive_add_eq_or)
qed

lemma unat_and_7F: "unat (b AND 0x7F :: byte) = unat b mod 128"
proof -
  have "(0x7F :: byte) = mask 7"
    by (simp add: mask_eq_exp_minus_1)
  then have "b AND 0x7F = take_bit 7 b"
    by (simp only: take_bit_eq_mask)
  then have "unat (b AND 0x7F) = take_bit 7 (unat b)"
    by (simp only: unsigned_take_bit_eq)
  then show ?thesis
    by (simp add: take_bit_eq_mod)
qed

lemma byte_less_80: "(b :: byte) < 0x80 \<longleftrightarrow> unat b < 128"
  by (simp add: word_less_nat_alt)

lemma decode_loop_step:
  assumes "val < 2 ^ (7 * index)"
  shows "decode_varint_loop data offset val index (Suc left) =
     (if length data \<le> offset then Inl (PacketError ''truncated varint'')
      else let v = val + 2 ^ (7 * index) * (unat (data ! offset) mod 128)
           in if unat (data ! offset) < 128 then Inr (v, Suc offset)
              else decode_varint_loop data (Suc offset) v (Suc index) left)"
  using assms
  by (simp add: Let_def or_push_bit unat_and_7F byte_less_80 del: push_bit_nat_eq)

lemma decode_loop_step_bound:
  assumes "val < 2 ^ (7 * index)"
  shows "val + 2 ^ (7 * index) * (b mod 128) < (2 :: nat) ^ (7 * Suc index)"
proof -
  have "val + 2 ^ (7 * index) * (b mod 128) < 2 ^ (7 * index) * Suc (b mod 128)"
    using assms by simp
  also have "\<dots> \<le> 2 ^ (7 * index) * 128"
    by (rule mult_le_mono2) (simp add: Suc_leI)
  finally show ?thesis by (simp add: power_add)
qed

declare decode_varint_loop.simps(2) [simp del]

lemma decode_loop_range:
  assumes "decode_varint_loop data offset val index left = Inr (v, offset')"
    and "val < 2 ^ (7 * index)"
  shows "v < 2 ^ (7 * (index + left)) \<and> offset < offset' \<and> offset' \<le> length data
           \<and> offset' \<le> offset + left"
  using assms
proof (induction left arbitrary: offset val index)
  case 0
  then show ?case by simp
next
  case (Suc left)
  let ?v = "val + 2 ^ (7 * index) * (unat (data ! offset) mod 128)"
  note step = decode_loop_step [OF Suc.prems(2), of data offset left]
  note bound = decode_loop_step_bound [OF Suc.prems(2), of "unat (data ! offset)"]
  show ?case
  proof (cases "unat (data ! offset) < 128")
    case True
    have "(2 :: nat) ^ (7 * Suc index) \<le> 2 ^ (7 * (index + Suc left))"
      by (rule power_increasing) simp_all
    with bound have "?v < 2 ^ (7 * (index + Suc left))"
      by (rule less_le_trans)
    with True step Suc.prems(1) show ?thesis
      by (auto simp: Let_def simp del: mult_Suc_right power_Suc split: if_splits)
  next
    case False
    with step Suc.prems(1)
    have "offset < length data" "decode_varint_loop data (Suc offset) ?v (Suc index) left = Inr (v, offset')"
      by (auto simp: Let_def not_le split: if_splits)
    with Suc.IH [OF this(2) bound] show ?thesis by simp
  qed
qed

lemma decode_loop_append:
  assumes "decode_varint_loop data offset val index left = r"
    and "r \<noteq> Inl (PacketError ''truncated varint'')"
  shows "decode_varint_loop (data @ more) offset val index left = r"
  using assms
proof (induction left arbitrary: offset val index)
  case 0
  then show ?case by simp
next
  case (Suc left)
  then show ?case
    by (auto simp: decode_varint_loop.simps(2) Let_def nth_append split: if_splits)
qed

lemma decode_loop_varint:
  assumes "length (varint n) \<le> left" and "val < 2 ^ (7 * index)"
  shows "decode_varint_loop (pre @ varint n @ post) (length pre) val index left =
           Inr (val + 2 ^ (7 * index) * n, length pre + length (varint n))"
  using assms
proof (induction left arbitrary: pre n val index)
  case 0
  then show ?case by simp
next
  case (Suc left)
  show ?case
  proof (cases "n < 128")
    case True
    with Suc.prems show ?thesis
      by (simp add: decode_loop_step varint_small Let_def nth_append unat_of_nat)
  next
    case False
    let ?b = "of_nat (n mod 128 + 128) :: byte"
    have b: "unat ?b = n mod 128 + 128"
    proof -
      have "n mod 128 + 128 < 256" by simp
      then show ?thesis by (simp add: unat_of_nat del: of_nat_add)
    qed
    have enc: "varint n = ?b # varint (n div 128)"
      using False by (simp add: varint_unfold [of n])
    let ?v = "val + 2 ^ (7 * index) * (n mod 128)"
    have bound: "?v < 2 ^ (7 * Suc index)"
      using decode_loop_step_bound [OF Suc.prems(2), of n] .
    have len: "length (varint (n div 128)) \<le> left"
      using Suc.prems(1) enc by simp
    have "decode_varint_loop ((pre @ [?b]) @ varint (n div 128) @ post) (length (pre @ [?b]))
            ?v (Suc index) left =
          Inr (?v + 2 ^ (7 * Suc index) * (n div 128),
               length (pre @ [?b]) + length (varint (n div 128)))"
      by (rule Suc.IH [OF len bound])
    moreover have "?v + 2 ^ (7 * Suc index) * (n div 128) = val + 2 ^ (7 * index) * n"
    proof -
      have p: "2 ^ (7 * Suc index) = 2 ^ (7 * index) * (128 :: nat)"
        by (simp add: power_add)
      have "2 ^ (7 * index) * (n mod 128) + 2 ^ (7 * Suc index) * (n div 128) =
            2 ^ (7 * index) * (n mod 128 + 128 * (n div 128))"
        by (simp only: p distrib_left mult.assoc)
      then show ?thesis
        by (simp only: mod_mult_div_eq add.assoc)
    qed
    ultimately show ?thesis
      using b by (simp add: decode_loop_step [OF Suc.prems(2)] enc Let_def nth_append
                       del: of_nat_add mult_Suc_right)
  qed
qed

subsection \<open>The laws the parsers use\<close>

lemma decode_varint_range:
  assumes "decode_varint data offset m = Inr (v, offset')"
  shows "v < 2 ^ (7 * m)" and "offset < offset'" and "offset' \<le> length data"
    and "offset' \<le> offset + m"
  using decode_loop_range [OF assms [unfolded decode_varint_def]] by simp_all

lemma decode_varint_append:
  assumes "decode_varint data offset m = r"
    and "r \<noteq> Inl (PacketError ''truncated varint'')"
  shows "decode_varint (data @ more) offset m = r"
  using assms by (simp add: decode_varint_def decode_loop_append)

lemma decode_varint_varint:
  assumes "n < 2 ^ (7 * m)" and "0 < m"
  shows "decode_varint (pre @ varint n @ post) (length pre) m = Inr (n, length pre + length (varint n))"
proof -
  from assms have "length (varint n) \<le> m"
    by (cases m) (simp_all add: length_varint_le)
  then show ?thesis
    by (simp add: decode_varint_def decode_loop_varint)
qed

lemma decode_varint_error:
  assumes "decode_varint data offset m = Inl e"
  shows "e = PacketError ''truncated varint'' \<or> e = PacketError ''varint exceeds supported size''"
proof -
  have "decode_varint_loop data offset val index m = Inl e \<Longrightarrow>
      e = PacketError ''truncated varint'' \<or> e = PacketError ''varint exceeds supported size''"
    for val index
  proof (induction m arbitrary: offset val index)
    case 0
    then show ?case by simp
  next
    case (Suc m)
    then show ?case
      by (auto simp: decode_varint_loop.simps(2) Let_def split: if_splits)
  qed
  with assms show ?thesis by (auto simp: decode_varint_def)
qed

section \<open>The codec interface\<close>

text \<open>
  What a parser of consecutive fields relies on: an encoded value decodes to itself wherever it
  stands, and the cursor stops right after it. Two consequences are used everywhere: decoding
  the next field at a cursor, and unique decodability of a concatenation.
\<close>

locale prefix_codec =
  fixes enc :: "'v \<Rightarrow> bytes"
    and dec :: "bytes \<Rightarrow> nat \<Rightarrow> ('v \<times> nat) result"
    and valid :: "'v \<Rightarrow> bool"
  assumes dec_enc: "valid v \<Longrightarrow> dec (pre @ enc v @ post) (length pre) = Inr (v, length pre + length (enc v))"
    and dec_progress: "dec d off = Inr (v, off') \<Longrightarrow> off < off' \<and> off' \<le> length d"
begin

lemma enc_nonempty: "valid v \<Longrightarrow> enc v \<noteq> []"
  using dec_enc [of v "[]" "[]"] dec_progress [of "enc v" 0 v] by force

lemma dec_at:
  assumes "valid v" and "drop off d = enc v @ post"
  shows "dec d off = Inr (v, off + length (enc v))"
proof -
  have "off \<le> length d"
    using assms enc_nonempty by (metis append_is_Nil_conv drop_all nle_le)
  moreover have "d = take off d @ enc v @ post"
    using assms(2) by (metis append_take_drop_id)
  ultimately show ?thesis
    using dec_enc [OF assms(1), of "take off d" post] by simp
qed

lemma drop_after:
  assumes "drop off d = enc v @ post"
  shows "drop (off + length (enc v)) d = post"
proof -
  have "drop (off + length (enc v)) d = drop (length (enc v)) (drop off d)"
    by (simp add: add.commute)
  then show ?thesis by (simp add: assms)
qed

lemma enc_split:
  assumes "valid v" and "valid w" and "enc v @ s = enc w @ t"
  shows "v = w \<and> s = t"
proof -
  have "dec (enc v @ s) 0 = Inr (v, length (enc v))"
    using dec_enc [OF assms(1), of "[]" s] by simp
  moreover have "dec (enc w @ t) 0 = Inr (w, length (enc w))"
    using dec_enc [OF assms(2), of "[]" t] by simp
  ultimately show ?thesis
    using assms(3) by simp
qed

end

text \<open>The module's codec, at the widths its parsers ask for.\<close>

interpretation v4: prefix_codec varint "\<lambda>d off. decode_varint d off 4" "\<lambda>n. n < 2 ^ 28"
  by unfold_locales (auto simp: decode_varint_varint dest: decode_varint_range)

interpretation v9: prefix_codec varint "\<lambda>d off. decode_varint d off 9" "\<lambda>n. n < 2 ^ 63"
  by unfold_locales (auto simp: decode_varint_varint dest: decode_varint_range)

interpretation v10: prefix_codec varint "\<lambda>d off. decode_varint d off MAX_VARINT_BYTES" "\<lambda>n. n < 2 ^ 70"
  by unfold_locales
    (auto simp: decode_varint_varint MAX_VARINT_BYTES_def dest: decode_varint_range)

lemma varint_inj: "varint m @ s = varint n @ t \<longleftrightarrow> m = n \<and> s = t"
proof
  assume eq: "varint m @ s = varint n @ t"
  define k where "k = Suc (max m n)"
  have "m < 2 ^ (7 * k)" "n < 2 ^ (7 * k)"
    unfolding k_def
    by (rule less_le_trans [OF less_exp], simp)+
  with eq decode_varint_varint [of m k "[]" s] decode_varint_varint [of n k "[]" t]
  show "m = n \<and> s = t"
    by (auto simp: k_def)
qed simp

end
