(* ===== verification/Protobuf.thy ===== *)
theory Protobuf
  imports Varint
begin

text \<open>
  The abstract form of the protobuf messages the program builds and reads: a message is a list
  of fields. This is the specification the field readers of \<open>commands.py\<close> and \<open>camera.py\<close> and
  the payload builders are checked against; it models no code of its own.
\<close>

datatype field =
    VarintF nat nat
  | Fixed64F nat bytes
  | BytesF nat bytes
  | Fixed32F nat bytes

fun wire_type :: "field \<Rightarrow> nat" where
  "wire_type (VarintF n v) = 0"
| "wire_type (Fixed64F n b) = 1"
| "wire_type (BytesF n b) = 2"
| "wire_type (Fixed32F n b) = 5"

fun field_no :: "field \<Rightarrow> nat" where
  "field_no (VarintF n v) = n"
| "field_no (Fixed64F n b) = n"
| "field_no (BytesF n b) = n"
| "field_no (Fixed32F n b) = n"

definition field_tag :: "field \<Rightarrow> nat" where
  "field_tag f = 8 * field_no f + wire_type f"

fun field_body :: "field \<Rightarrow> bytes" where
  "field_body (VarintF n v) = varint v"
| "field_body (Fixed64F n b) = b"
| "field_body (BytesF n b) = varint (length b) @ b"
| "field_body (Fixed32F n b) = b"

definition encode_field :: "field \<Rightarrow> bytes" where
  "encode_field f = varint (field_tag f) @ field_body f"

definition encode_message :: "field list \<Rightarrow> bytes" where
  "encode_message fs = concat (map encode_field fs)"

text \<open>Fields that fit the ten bytes the readers give a varint.\<close>

fun field_wf :: "field \<Rightarrow> bool" where
  "field_wf (VarintF n v) \<longleftrightarrow> 8 * n < 2 ^ 70 \<and> v < 2 ^ 70"
| "field_wf (Fixed64F n b) \<longleftrightarrow> 8 * n + 1 < 2 ^ 70 \<and> length b = 8"
| "field_wf (BytesF n b) \<longleftrightarrow> 8 * n + 2 < 2 ^ 70 \<and> length b < 2 ^ 70"
| "field_wf (Fixed32F n b) \<longleftrightarrow> 8 * n + 5 < 2 ^ 70 \<and> length b = 4"

lemma encode_message_simps [simp]:
  "encode_message [] = []"
  "encode_message (f # fs) = encode_field f @ encode_message fs"
  "encode_message (fs @ gs) = encode_message fs @ encode_message gs"
  by (simp_all add: encode_message_def)

lemma encode_field_nonempty [simp]: "encode_field f \<noteq> []"
  by (simp add: encode_field_def)

lemma field_wf_tag: "field_wf f \<Longrightarrow> field_tag f < 2 ^ 70"
  by (cases f) (simp_all add: field_tag_def)

lemma wire_type_less: "wire_type f < 8"
  by (cases f) simp_all

lemma nat_and_7: "(n :: nat) AND 7 = n mod 8"
proof -
  have "(7 :: nat) = mask 3"
    by (simp add: mask_eq_exp_minus_1)
  then have "n AND 7 = take_bit 3 n"
    by (simp only: take_bit_eq_mask)
  then show ?thesis by (simp add: take_bit_eq_mod)
qed

lemma tag_split [simp]:
  "drop_bit 3 (field_tag f) = field_no f" "field_tag f AND 7 = wire_type f"
  using wire_type_less [of f] by (simp_all add: drop_bit_eq_div nat_and_7 field_tag_def)

text \<open>Fields are uniquely decodable, so a message determines its fields.\<close>

lemma field_tag_inj: "field_tag f = field_tag g \<Longrightarrow> field_no f = field_no g \<and> wire_type f = wire_type g"
  by (metis tag_split)

lemma encode_field_split:
  assumes "field_wf f" "field_wf g" and eq: "encode_field f @ s = encode_field g @ t"
  shows "f = g \<and> s = t"
proof -
  from eq have tag: "field_tag f = field_tag g" and body: "field_body f @ s = field_body g @ t"
    by (simp_all add: encode_field_def varint_inj)
  from field_tag_inj [OF tag] body assms(1,2) show ?thesis
    by (cases f; cases g) (auto simp: varint_inj)
qed

lemma encode_message_inj:
  "\<forall>f \<in> set fs. field_wf f \<Longrightarrow> \<forall>g \<in> set gs. field_wf g \<Longrightarrow>
     encode_message fs = encode_message gs \<longleftrightarrow> fs = gs"
proof (induction fs arbitrary: gs)
  case Nil
  then show ?case by (cases gs) auto
next
  case (Cons f fs)
  show ?case
  proof (cases gs)
    case Nil
    then show ?thesis by simp
  next
    case (Cons g gs')
    with Cons.prems Cons.IH [of gs'] show ?thesis
      by (auto dest: encode_field_split)
  qed
qed

end
