(* ===== verification/Controls.thy ===== *)
theory Controls
  imports Prelude
begin

text \<open>
  \<open>ino_a9_bridge/src/wificam_bridge/controls.py\<close>: the validated intrusion schedule. A Python
  \<open>datetime.time\<close> is a \<open>clock\<close>; comparing two naive times is lexicographic, which is the order
  instance of \<open>clock\<close>. The constructor's arguments may be any object: \<open>time_value\<close>
  distinguishes naive times, aware times and everything else.
\<close>

datatype clock = Clock (hour: nat) (minute: nat) (second: nat) (microsecond: nat)

text \<open>The range the class \<open>datetime.time\<close> itself enforces.\<close>

definition clock_ok :: "clock \<Rightarrow> bool" where
  "clock_ok c \<longleftrightarrow> hour c < 24 \<and> minute c < 60 \<and> second c < 60 \<and> microsecond c < 1000000"

instantiation clock :: linorder
begin

fun less_eq_clock :: "clock \<Rightarrow> clock \<Rightarrow> bool" where
  "less_eq_clock (Clock h m s u) (Clock h' m' s' u') \<longleftrightarrow>
     h < h' \<or> h = h' \<and> (m < m' \<or> m = m' \<and> (s < s' \<or> s = s' \<and> u \<le> u'))"

definition less_clock :: "clock \<Rightarrow> clock \<Rightarrow> bool" where
  "less_clock c d \<longleftrightarrow> c \<le> d \<and> c \<noteq> d"

instance
proof
  fix x y z :: clock
  show "x < y \<longleftrightarrow> x \<le> y \<and> \<not> y \<le> x"
    by (cases x; cases y) (auto simp: less_clock_def)
  show "x \<le> x" by (cases x) simp
  show "x \<le> y \<Longrightarrow> y \<le> z \<Longrightarrow> x \<le> z"
    by (cases x; cases y; cases z) auto
  show "x \<le> y \<Longrightarrow> y \<le> x \<Longrightarrow> x = y"
    by (cases x; cases y) auto
  show "x \<le> y \<or> y \<le> x"
    by (cases x; cases y) auto
qed

end

datatype time_value = Naive clock | Aware clock | NotATime

record schedule =
  days :: "int list"
  start :: clock
  stop :: clock

text \<open>One pass of the loop over \<open>("start", ...)\<close> and \<open>("end", ...)\<close>.\<close>

definition check_time :: "string \<Rightarrow> time_value \<Rightarrow> clock result" where
  "check_time label v =
     (case v of
        NotATime \<Rightarrow> Inl (TypeError (concat [''schedule '', label, '' must be a time'']))
      | Aware c \<Rightarrow> Inl (ValueError (concat [''schedule '', label, '' must have minute precision'']))
      | Naive c \<Rightarrow>
          if second c \<noteq> 0 \<or> microsecond c \<noteq> 0
            then Inl (ValueError (concat [''schedule '', label, '' must have minute precision'']))
          else Inr c)"

fun is_day :: "json \<Rightarrow> bool" where
  "is_day (JInt i) \<longleftrightarrow> 0 \<le> i \<and> i \<le> 6"
| "is_day _ \<longleftrightarrow> False"

fun json_int :: "json \<Rightarrow> int" where
  "json_int (JInt i) = i"
| "json_int _ = 0"

text \<open>\<open>IntrusionSchedule(days, start, end)\<close>, that is \<open>__post_init__\<close>.\<close>

definition intrusion_schedule :: "json list \<Rightarrow> time_value \<Rightarrow> time_value \<Rightarrow> schedule result" where
  "intrusion_schedule raw_days raw_start raw_end =
     (if raw_days = [] then Inl (ValueError ''schedule days must not be empty'')
      else if list_ex (\<lambda>day. \<not> is_day day) raw_days
        then Inl (ValueError ''schedule days must contain unique values from 0 through 6'')
      else
        let ds = map json_int raw_days in
        if ds \<noteq> sorted_list_of_set (set ds)
          then Inl (ValueError ''schedule days must be unique and sorted'')
        else
          bind (check_time ''start'' raw_start) (\<lambda>s.
          bind (check_time ''end'' raw_end) (\<lambda>e.
            if e < s then Inl (ValueError ''schedule must not cross midnight'')
            else Inr \<lparr>days = ds, start = s, stop = e\<rparr>)))"

section \<open>What a schedule guarantees\<close>

definition minute_precision :: "clock \<Rightarrow> bool" where
  "minute_precision c \<longleftrightarrow> second c = 0 \<and> microsecond c = 0"

definition schedule_valid :: "schedule \<Rightarrow> bool" where
  "schedule_valid s \<longleftrightarrow>
     days s \<noteq> [] \<and> sorted_wrt (<) (days s) \<and> set (days s) \<subseteq> {0..6} \<and>
     minute_precision (start s) \<and> minute_precision (stop s) \<and> start s \<le> stop s"

lemma eq_sorted_list_of_set_iff:
  "(xs :: 'a :: linorder list) = sorted_list_of_set (set xs) \<longleftrightarrow> sorted_wrt (<) xs"
proof
  assume "xs = sorted_list_of_set (set xs)"
  then show "sorted_wrt (<) xs"
    by (metis strict_sorted_list_of_set)
next
  assume "sorted_wrt (<) xs"
  then show "xs = sorted_list_of_set (set xs)"
    by (simp add: sorted_list_of_set.idem_if_sorted_distinct strict_sorted_iff)
qed

lemma check_time_Inr_iff [result_iff]:
  "check_time label v = Inr c \<longleftrightarrow> v = Naive c \<and> minute_precision c"
  by (cases v) (auto simp: check_time_def minute_precision_def)

lemma map_json_int_JInt [simp]: "map json_int (map JInt xs) = xs"
  by (induction xs) simp_all

lemma map_JInt_inj: "map JInt xs = map JInt ys \<longleftrightarrow> xs = ys"
  by (simp add: inj_map_eq_map inj_def)

lemma all_days_iff:
  "\<not> list_ex (\<lambda>day. \<not> is_day day) ds \<longleftrightarrow> (\<exists>xs. ds = map JInt xs \<and> set xs \<subseteq> {0..6})"
proof (induction ds)
  case (Cons d ds)
  have "is_day d \<longleftrightarrow> (\<exists>i. d = JInt i \<and> 0 \<le> i \<and> i \<le> 6)"
    by (cases d) auto
  moreover have "(\<exists>xs. d # ds = map JInt xs \<and> set xs \<subseteq> {0..6}) \<longleftrightarrow>
      (\<exists>i xs. d = JInt i \<and> 0 \<le> i \<and> i \<le> 6 \<and> ds = map JInt xs \<and> set xs \<subseteq> {0..6})"
    by (auto simp: Cons_eq_map_conv map_JInt_inj)
  ultimately show ?case
    using Cons.IH by auto
qed simp

lemma intrusion_schedule_Inr_iff:
  "intrusion_schedule ds s e = Inr sched \<longleftrightarrow>
     ds = map JInt (days sched) \<and> s = Naive (start sched) \<and> e = Naive (stop sched) \<and>
     schedule_valid sched"
proof (cases "\<exists>xs. ds = map JInt xs \<and> set xs \<subseteq> {0..6}")
  case True
  then obtain xs where ds: "ds = map JInt xs" and xs: "set xs \<subseteq> {0..6}"
    by blast
  from True have "\<not> list_ex (\<lambda>day. \<not> is_day day) ds"
    by (simp add: all_days_iff)
  then have "intrusion_schedule ds s e = Inr sched \<longleftrightarrow>
      xs \<noteq> [] \<and> sorted_wrt (<) xs \<and>
      (\<exists>a b. s = Naive a \<and> minute_precision a \<and> e = Naive b \<and> minute_precision b \<and>
        a \<le> b \<and> sched = \<lparr>days = xs, start = a, stop = b\<rparr>)"
    unfolding intrusion_schedule_def Let_def ds map_json_int_JInt eq_sorted_list_of_set_iff
    by (auto simp: result_iff not_less)
  with xs show ?thesis
    by (cases sched) (auto simp: ds map_JInt_inj schedule_valid_def)
next
  case False
  then have "list_ex (\<lambda>day. \<not> is_day day) ds"
    using all_days_iff [of ds] by blast
  moreover have "\<not> (ds = map JInt (days sched) \<and> set (days sched) \<subseteq> {0..6})"
    using False by blast
  ultimately show ?thesis
    by (auto simp: intrusion_schedule_def schedule_valid_def)
qed

end
