(* ===== verification/Commands.thy ===== *)
theory Commands
  imports Protobuf Controls
begin

text \<open>
  \<open>ino_a9_bridge/src/wificam_bridge/commands.py\<close>: command numbers, the wire values of the
  controls, the payload builders and the reader of getter responses. The builders are checked
  against the abstract messages of \<open>Protobuf\<close>, and the reader against the abstract first field.
\<close>

section \<open>Numbers and wire values\<close>

definition STATUS_LED_COMMAND :: int where "STATUS_LED_COMMAND = 2633"
definition NIGHT_SET_COMMAND :: int where "NIGHT_SET_COMMAND = 2635"
definition NIGHT_GET_COMMAND :: int where "NIGHT_GET_COMMAND = 2636"
definition FLIP_SET_COMMAND :: int where "FLIP_SET_COMMAND = 2613"
definition FLIP_GET_COMMAND :: int where "FLIP_GET_COMMAND = 2649"
definition VIDEO_QUALITY_COMMAND :: int where "VIDEO_QUALITY_COMMAND = 2612"
definition INTRUSION_COMMAND :: int where "INTRUSION_COMMAND = 2639"
definition MOTION_COMMAND :: int where "MOTION_COMMAND = 2661"
definition REBOOT_COMMAND :: int where "REBOOT_COMMAND = 2647"

type_synonym enum_values = "(string \<times> int) list"

definition NIGHT_VALUES :: enum_values where
  "NIGHT_VALUES = [(''enabled'', 1), (''disabled'', 2), (''automatic'', 3)]"

definition FLIP_VALUES :: enum_values where
  "FLIP_VALUES = [(''upright'', 1), (''horizontal'', 2), (''vertical'', 3), (''rotate_180'', 4)]"

definition VIDEO_QUALITY_VALUES :: enum_values where
  "VIDEO_QUALITY_VALUES = [(''sd'', 5), (''hd'', 10), (''uhd'', 15)]"

definition MOTION_VALUES :: enum_values where
  "MOTION_VALUES = [(''low'', 1), (''medium'', 2), (''high'', 3), (''closed'', 0)]"

section \<open>Builders\<close>

definition value_payload :: "int \<Rightarrow> bytes result" where
  "value_payload v =
     bind (encode_varint (push_bit 3 2)) (\<lambda>tag. bind (encode_varint v) (\<lambda>body. Inr (tag @ body)))"

text \<open>\<open>isinstance(value, str) and value in values\<close>, giving \<open>values[value]\<close>.\<close>

fun enum_lookup :: "json \<Rightarrow> enum_values \<Rightarrow> int option" where
  "enum_lookup (JStr s) values = map_of values s"
| "enum_lookup _ values = None"

definition enum_payload :: "json \<Rightarrow> enum_values \<Rightarrow> string \<Rightarrow> bytes result" where
  "enum_payload v values label =
     (case enum_lookup v values of
        None \<Rightarrow> Inl (ValueError (''invalid '' @ label))
      | Some wire \<Rightarrow> value_payload wire)"

definition build_led_payload :: "json \<Rightarrow> bytes result" where
  "build_led_payload enabled =
     (case enabled of
        JBool b \<Rightarrow> value_payload (if b then 1 else 2)
      | _ \<Rightarrow> Inl (ValueError ''led value must be a boolean''))"

definition build_night_payload :: "json \<Rightarrow> bytes result" where
  "build_night_payload v = enum_payload v NIGHT_VALUES ''night vision mode''"

definition build_flip_payload :: "json \<Rightarrow> bytes result" where
  "build_flip_payload v = enum_payload v FLIP_VALUES ''flip mode''"

definition build_video_quality_payload :: "json \<Rightarrow> bytes result" where
  "build_video_quality_payload v = enum_payload v VIDEO_QUALITY_VALUES ''video quality''"

definition build_motion_payload :: "json \<Rightarrow> bytes result" where
  "build_motion_payload v =
     (case enum_lookup v MOTION_VALUES of
        None \<Rightarrow> Inl (ValueError ''invalid motion sensitivity'')
      | Some wire_value \<Rightarrow> if wire_value = 0 then Inr [] else value_payload wire_value)"

definition value_field :: "int \<Rightarrow> int \<Rightarrow> bytes result" where
  "value_field number v =
     bind (encode_varint (push_bit 3 number)) (\<lambda>tag. bind (encode_varint v) (\<lambda>body. Inr (tag @ body)))"

definition bytes_field :: "int \<Rightarrow> bytes \<Rightarrow> bytes result" where
  "bytes_field number v =
     bind (encode_varint (push_bit 3 number OR 2)) (\<lambda>tag.
     bind (encode_varint (int (length v))) (\<lambda>len. Inr (tag @ len @ v)))"

definition seconds :: "time_value \<Rightarrow> int result" where
  "seconds v =
     (case v of
        NotATime \<Rightarrow> Inl (TypeError ''schedule value must be a time'')
      | Naive c \<Rightarrow> Inr (int (hour c * 3600 + minute c * 60))
      | Aware c \<Rightarrow> Inr (int (hour c * 3600 + minute c * 60)))"

text \<open>\<open>bytes(ints)\<close>.\<close>

definition bytes_of_ints :: "int list \<Rightarrow> bytes result" where
  "bytes_of_ints is =
     (if list_all (\<lambda>i. 0 \<le> i \<and> i < 256) is then Inr (map word_of_int is)
      else Inl (ValueError ''bytes must be in range(0, 256)''))"

text \<open>The schedule argument is \<open>None\<close> for an object of another class.\<close>

definition build_intrusion_payload :: "json \<Rightarrow> schedule option \<Rightarrow> bytes result" where
  "build_intrusion_payload enabled sched =
     (case enabled of
        JBool on \<Rightarrow>
          (case sched of
             None \<Rightarrow> Inl (TypeError ''schedule must be an IntrusionSchedule'')
           | Some s \<Rightarrow>
               bind (seconds (Naive (start s))) (\<lambda>start_seconds.
               bind (seconds (Naive (stop s))) (\<lambda>stop_seconds.
               bind (value_field 2 stop_seconds) (\<lambda>time_range.
               bind (if start_seconds \<noteq> 0
                     then bind (value_field 1 start_seconds) (\<lambda>f. Inr (f @ time_range))
                     else Inr time_range) (\<lambda>time_range.
               bind (bytes_of_ints (days s)) (\<lambda>day_bytes.
               bind (bytes_field 2 day_bytes) (\<lambda>f2.
               bind (bytes_field 3 time_range) (\<lambda>f3.
               bind (value_field 4 1) (\<lambda>f4.
               bind (bytes_field 3 (f2 @ f3 @ f4)) (\<lambda>payload.
                 if on then bind (value_field 2 1) (\<lambda>f. Inr (f @ payload)) else Inr payload))))))))))
      | _ \<Rightarrow> Inl (ValueError ''intrusion enabled must be a boolean''))"

section \<open>Reading a getter response\<close>

text \<open>
  The loop of \<open>read_response_value\<close>. One field either gives the answer or moves the offset;
  the bounds check at the end of the body runs only when the loop goes on.
\<close>

function read_response_loop :: "bytes \<Rightarrow> nat \<Rightarrow> nat option result" where
  "read_response_loop payload offset =
     (if offset < length payload
      then
        bind (decode_varint payload offset MAX_VARINT_BYTES) (\<lambda>(tag, offset).
        let number = drop_bit 3 tag; wire = tag AND 7 in
        bind (if wire = 0 then
                bind (decode_varint payload offset MAX_VARINT_BYTES) (\<lambda>(v, offset).
                  Inr (if number = 1 then Some v else None, offset))
              else if wire = 1 then Inr (None, offset + 8)
              else if wire = 2 then
                bind (decode_varint payload offset MAX_VARINT_BYTES) (\<lambda>(len, offset).
                  Inr (None, offset + len))
              else if wire = 5 then Inr (None, offset + 4)
              else Inl (ValueError ''unsupported protobuf wire type''))
          (\<lambda>(found, offset).
            (case found of
               Some v \<Rightarrow> Inr (Some v)
             | None \<Rightarrow>
                 if length payload < offset then Inl (ValueError ''truncated protobuf field'')
                 else read_response_loop payload offset)))
      else Inr None)"
  by pat_completeness auto
termination
proof (relation "measure (\<lambda>(payload, offset). length payload - offset)", goal_cases)
  case 1
  show ?case by simp
next
  case (2 payload offset x tag offset1 number wire y found offset2)
  then have "offset < offset1"
    by (auto dest: decode_varint_range)
  moreover have "offset1 \<le> offset2"
    using 2 by (auto simp: result_iff split: if_splits dest: decode_varint_range)
  ultimately show ?case
    using 2 by (simp add: diff_less_mono2)
qed

declare read_response_loop.simps [simp del]

definition read_response_value :: "bytes \<Rightarrow> nat option result" where
  "read_response_value payload = read_response_loop payload 0"

end
