(* ===== verification/Commands_Correct.thy ===== *)
theory Commands_Correct
  imports Commands
begin

text \<open>
  What the payload builders of \<open>commands.py\<close> produce, as abstract messages, and what the response
  reader finds in one.
\<close>

section \<open>Set commands\<close>

text \<open>A set command carries its value in field 2.\<close>

definition value_message :: "int \<Rightarrow> bytes" where
  "value_message v = encode_message [VarintF 2 (nat v)]"

lemma value_payload_message: "0 \<le> v \<Longrightarrow> value_payload v = Inr (value_message v)"
  by (simp add: value_payload_def value_message_def encode_field_def field_tag_def)

lemma value_message_nonempty [simp]: "value_message v \<noteq> []"
  by (simp add: value_message_def)

lemmas value_message_nonempty' [simp] = value_message_nonempty [symmetric]

lemma value_message_inj:
  assumes "0 \<le> v" "v < 128" "0 \<le> w" "w < 128"
  shows "value_message v = value_message w \<longleftrightarrow> v = w"
  using assms unfolding value_message_def by (subst encode_message_inj) auto

text \<open>The wire values of a control: distinct names, distinct small values.\<close>

definition enum_ok :: "enum_values \<Rightarrow> bool" where
  "enum_ok vs \<longleftrightarrow> distinct (map fst vs) \<and> distinct (map snd vs) \<and> (\<forall>(s, v) \<in> set vs. 0 \<le> v \<and> v < 128)"

lemma enum_ok_values [simp]:
  "enum_ok NIGHT_VALUES" "enum_ok FLIP_VALUES" "enum_ok VIDEO_QUALITY_VALUES" "enum_ok MOTION_VALUES"
  by (simp_all add: enum_ok_def NIGHT_VALUES_def FLIP_VALUES_def VIDEO_QUALITY_VALUES_def
      MOTION_VALUES_def)

lemma enum_lookup_Some_iff:
  "enum_lookup v vs = Some w \<longleftrightarrow> (\<exists>s. v = JStr s \<and> map_of vs s = Some w)"
  by (cases v) auto

lemma enum_lookup_range: "enum_ok vs \<Longrightarrow> enum_lookup v vs = Some w \<Longrightarrow> 0 \<le> w \<and> w < 128"
  by (auto simp: enum_lookup_Some_iff enum_ok_def dest!: map_of_SomeD)

lemma enum_lookup_None_iff: "enum_lookup v vs = None \<longleftrightarrow> v \<notin> JStr ` fst ` set vs"
  by (cases v) (auto simp: map_of_eq_None_iff)

lemma enum_lookup_inj:
  assumes "enum_ok vs" "enum_lookup v vs = Some w" "enum_lookup v' vs = Some w"
  shows "v = v'"
proof -
  from assms(2,3) obtain s s' where v: "v = JStr s" "v' = JStr s'"
    and mem: "(s, w) \<in> set vs" "(s', w) \<in> set vs"
    by (auto simp: enum_lookup_Some_iff dest: map_of_SomeD)
  have "inj_on snd (set vs)"
    using assms(1) by (simp add: enum_ok_def distinct_map)
  from inj_onD [OF this _ mem] v show ?thesis by simp
qed

lemma enum_payload_Inr_iff:
  "enum_ok vs \<Longrightarrow> enum_payload v vs label = Inr p \<longleftrightarrow>
    (\<exists>w. enum_lookup v vs = Some w \<and> p = value_message w)"
  by (auto simp: enum_payload_def value_payload_message split: option.splits dest: enum_lookup_range)

lemma build_motion_Inr_iff:
  "build_motion_payload v = Inr p \<longleftrightarrow>
     (\<exists>w. enum_lookup v MOTION_VALUES = Some w \<and> p = (if w = 0 then [] else value_message w))"
  using enum_lookup_range [OF enum_ok_values(4), of v]
  by (auto simp: build_motion_payload_def value_payload_message split: option.splits)

text \<open>
  One builder of a set command: the values it accepts, and that an accepted value is determined
  by its payload.
\<close>

definition faithful_builder :: "(json \<Rightarrow> bytes result) \<Rightarrow> json set \<Rightarrow> bool" where
  "faithful_builder build accepted \<longleftrightarrow>
     (\<forall>v. ok (build v) \<longleftrightarrow> v \<in> accepted) \<and> (\<forall>v w. ok (build v) \<and> build v = build w \<longrightarrow> v = w)"

lemma faithful_led: "faithful_builder build_led_payload (range JBool)"
proof -
  have led: "build_led_payload v = Inr p \<longleftrightarrow> (\<exists>b. v = JBool b \<and> p = value_message (if b then 1 else 2))"
    for v p by (cases v) (auto simp: build_led_payload_def value_payload_message)
  show ?thesis
    unfolding faithful_builder_def
  proof (intro conjI allI impI)
    show "ok (build_led_payload v) \<longleftrightarrow> v \<in> range JBool" for v
      by (auto simp: ok_iff led)
  next
    fix v w
    assume "ok (build_led_payload v) \<and> build_led_payload v = build_led_payload w"
    then obtain p where "build_led_payload v = Inr p" "build_led_payload w = Inr p"
      by (metis ok_iff)
    then show "v = w"
      unfolding led by (auto simp: value_message_inj split: if_splits)
  qed
qed

lemma faithful_enum:
  assumes "enum_ok vs"
  shows "faithful_builder (\<lambda>v. enum_payload v vs label) (JStr ` fst ` set vs)"
  unfolding faithful_builder_def
proof (intro conjI allI impI)
  show "ok (enum_payload v vs label) \<longleftrightarrow> v \<in> JStr ` fst ` set vs" for v
    using enum_lookup_None_iff [of v vs] by (auto simp: ok_iff enum_payload_Inr_iff [OF assms])
next
  fix v w
  assume "ok (enum_payload v vs label) \<and> enum_payload v vs label = enum_payload w vs label"
  then obtain a b where ab: "enum_lookup v vs = Some a" "enum_lookup w vs = Some b"
    and "value_message a = value_message b"
    by (metis ok_iff enum_payload_Inr_iff [OF assms])
  moreover from ab have "0 \<le> a \<and> a < 128" "0 \<le> b \<and> b < 128"
    by (auto dest: enum_lookup_range [OF assms])
  ultimately have "a = b" by (simp add: value_message_inj)
  with ab assms show "v = w" by (auto intro: enum_lookup_inj)
qed

lemma faithful_motion: "faithful_builder build_motion_payload (JStr ` fst ` set MOTION_VALUES)"
  unfolding faithful_builder_def
proof (intro conjI allI impI)
  show "ok (build_motion_payload v) \<longleftrightarrow> v \<in> JStr ` fst ` set MOTION_VALUES" for v
    using enum_lookup_None_iff [of v MOTION_VALUES] by (auto simp: ok_iff build_motion_Inr_iff)
next
  fix v w
  assume "ok (build_motion_payload v) \<and> build_motion_payload v = build_motion_payload w"
  then obtain a b where ab: "enum_lookup v MOTION_VALUES = Some a" "enum_lookup w MOTION_VALUES = Some b"
    and p: "(if a = 0 then [] else value_message a) = (if b = 0 then [] else value_message b)"
    by (metis ok_iff build_motion_Inr_iff)
  from ab have "0 \<le> a \<and> a < 128" "0 \<le> b \<and> b < 128"
    by (auto dest: enum_lookup_range [OF enum_ok_values(4)])
  with p have "a = b" by (auto simp: value_message_inj split: if_splits)
  with ab show "v = w" by (auto intro: enum_lookup_inj [OF enum_ok_values(4)])
qed

text \<open>
  Each builder of a set command accepts exactly the values the control has, and two accepted
  values never have the same payload, so the camera can tell every setting from every other.
\<close>

theorem set_payloads_faithful:
  "faithful_builder build_led_payload (range JBool) \<and>
   faithful_builder build_night_payload (JStr ` {''enabled'', ''disabled'', ''automatic''}) \<and>
   faithful_builder build_flip_payload (JStr ` {''upright'', ''horizontal'', ''vertical'', ''rotate_180''}) \<and>
   faithful_builder build_video_quality_payload (JStr ` {''sd'', ''hd'', ''uhd''}) \<and>
   faithful_builder build_motion_payload (JStr ` {''low'', ''medium'', ''high'', ''closed''})"
  using faithful_led faithful_motion faithful_enum [OF enum_ok_values(1)]
    faithful_enum [OF enum_ok_values(2)] faithful_enum [OF enum_ok_values(3)]
  unfolding build_night_payload_def [abs_def] build_flip_payload_def [abs_def]
    build_video_quality_payload_def [abs_def] NIGHT_VALUES_def FLIP_VALUES_def
    VIDEO_QUALITY_VALUES_def MOTION_VALUES_def
  by simp

section \<open>The intrusion command\<close>

definition clock_seconds :: "clock \<Rightarrow> nat" where
  "clock_seconds c = hour c * 3600 + minute c * 60"

definition range_message :: "schedule \<Rightarrow> field list" where
  "range_message s =
     (if clock_seconds (start s) = 0 then [] else [VarintF 1 (clock_seconds (start s))]) @
     [VarintF 2 (clock_seconds (stop s))]"

definition day_bytes :: "schedule \<Rightarrow> bytes" where
  "day_bytes s = map word_of_int (days s)"

definition schedule_message :: "schedule \<Rightarrow> field list" where
  "schedule_message s =
     [BytesF 2 (day_bytes s), BytesF 3 (encode_message (range_message s)), VarintF 4 1]"

definition intrusion_message :: "bool \<Rightarrow> schedule \<Rightarrow> field list" where
  "intrusion_message on s =
     (if on then [VarintF 2 1] else []) @ [BytesF 3 (encode_message (schedule_message s))]"

lemma value_field_message:
  "0 \<le> n \<Longrightarrow> 0 \<le> v \<Longrightarrow> value_field n v = Inr (encode_field (VarintF (nat n) (nat v)))"
  by (simp add: value_field_def encode_field_def field_tag_def push_bit_eq_mult mult.commute)

lemma bytes_field_message:
  "bytes_field 2 b = Inr (encode_field (BytesF 2 b))" "bytes_field 3 b = Inr (encode_field (BytesF 3 b))"
  by (simp_all add: bytes_field_def encode_field_def field_tag_def)

lemma build_intrusion_message:
  assumes "schedule_valid s"
  shows "build_intrusion_payload (JBool on) (Some s) = Inr (encode_message (intrusion_message on s))"
proof -
  have "bytes_of_ints (days s) = Inr (day_bytes s)"
    using assms by (auto simp: bytes_of_ints_def day_bytes_def schedule_valid_def list_all_iff)
  moreover have "seconds (Naive c) = Inr (int (clock_seconds c))" for c
    by (simp add: seconds_def clock_seconds_def)
  ultimately show ?thesis
    by (simp add: build_intrusion_payload_def value_field_message bytes_field_message
        intrusion_message_def schedule_message_def range_message_def)
qed

text \<open>Reading the nested message back, level by level.\<close>

lemma clock_seconds_less: "clock_ok c \<Longrightarrow> clock_seconds c < 86400"
  by (simp add: clock_ok_def clock_seconds_def)

lemma clock_seconds_inj:
  assumes "clock_ok c" "clock_ok d" "minute_precision c" "minute_precision d"
    and "clock_seconds c = clock_seconds d"
  shows "c = d"
proof -
  have eq: "hour c * 60 + minute c = hour d * 60 + minute d"
    using assms(5) by (simp add: clock_seconds_def)
  have "(hour x * 60 + minute x) mod 60 = minute x" if "clock_ok x" for x
    using that by (simp add: clock_ok_def)
  with eq assms(1,2) have "minute c = minute d"
    by metis
  with eq have "hour c = hour d \<and> minute c = minute d"
    by simp
  with assms(3,4) show ?thesis
    by (cases c; cases d) (simp add: minute_precision_def)
qed

lemma length_varint_10: "n < 2 ^ 70 \<Longrightarrow> length (varint n) \<le> 10"
  using length_varint_le [of n 9] by simp

lemma length_encode_field:
  assumes "field_wf f"
  shows "length (encode_field f) \<le> 10 + (10 + (case f of BytesF n b \<Rightarrow> length b | _ \<Rightarrow> 0))"
proof -
  have "length (varint (field_tag f)) \<le> 10"
    by (rule length_varint_10 [OF field_wf_tag [OF assms]])
  moreover have "length (field_body f) \<le> 10 + (case f of BytesF n b \<Rightarrow> length b | _ \<Rightarrow> 0)"
    using assms by (cases f) (simp_all add: length_varint_10)
  ultimately show ?thesis
    unfolding encode_field_def length_append by (rule add_mono)
qed

lemma length_encode_message:
  "(\<And>f. f \<in> set fs \<Longrightarrow> length (encode_field f) \<le> k) \<Longrightarrow> length (encode_message fs) \<le> k * length fs"
proof (induction fs)
  case (Cons f fs)
  then have "length (encode_field f) \<le> k" "length (encode_message fs) \<le> k * length fs"
    by simp_all
  then show ?case by simp
qed simp

definition schedule_ok :: "schedule \<Rightarrow> bool" where
  "schedule_ok s \<longleftrightarrow> schedule_valid s \<and> clock_ok (start s) \<and> clock_ok (stop s)"

lemma length_days: "schedule_valid s \<Longrightarrow> length (days s) \<le> 7"
proof -
  assume valid: "schedule_valid s"
  then have "distinct (days s)" and "set (days s) \<subseteq> {0..6}"
    by (simp_all add: schedule_valid_def strict_sorted_iff)
  then have "length (days s) = card (set (days s))"
    by (simp add: distinct_card)
  also have "\<dots> \<le> card {0..6 :: int}"
    using \<open>set (days s) \<subseteq> {0..6}\<close> by (intro card_mono) simp_all
  finally show ?thesis by simp
qed

lemma range_message_wf: "schedule_ok s \<Longrightarrow> f \<in> set (range_message s) \<Longrightarrow> field_wf f"
  using clock_seconds_less [of "start s"] clock_seconds_less [of "stop s"]
  by (auto simp: range_message_def schedule_ok_def split: if_splits)

lemma length_range_message:
  assumes "schedule_ok s"
  shows "length (encode_message (range_message s)) \<le> 40"
proof -
  have "length (encode_field f) \<le> 20" if "f \<in> set (range_message s)" for f
    using length_encode_field [OF range_message_wf [OF assms that]] that
    by (auto simp: range_message_def split: if_splits)
  then have "length (encode_message (range_message s)) \<le> 20 * length (range_message s)"
    by (rule length_encode_message)
  also have "\<dots> \<le> 20 * 2"
    by (rule mult_le_mono2) (simp add: range_message_def)
  finally show ?thesis by simp
qed

lemma length_day_bytes: "schedule_ok s \<Longrightarrow> length (day_bytes s) \<le> 7"
  using length_days by (simp add: day_bytes_def schedule_ok_def)

lemma schedule_message_wf: "schedule_ok s \<Longrightarrow> f \<in> set (schedule_message s) \<Longrightarrow> field_wf f"
  using length_range_message [of s] length_day_bytes [of s] by (auto simp: schedule_message_def)

lemma length_schedule_message:
  assumes "schedule_ok s"
  shows "length (encode_message (schedule_message s)) \<le> 180"
proof -
  have "length (encode_field f) \<le> 60" if "f \<in> set (schedule_message s)" for f
    using length_encode_field [OF schedule_message_wf [OF assms that]] that
      length_range_message [OF assms] length_day_bytes [OF assms]
    by (auto simp: schedule_message_def)
  then have "length (encode_message (schedule_message s)) \<le> 60 * length (schedule_message s)"
    by (rule length_encode_message)
  then show ?thesis by (simp add: schedule_message_def)
qed

lemma intrusion_message_wf: "schedule_ok s \<Longrightarrow> f \<in> set (intrusion_message on s) \<Longrightarrow> field_wf f"
  using length_schedule_message [of s] by (auto simp: intrusion_message_def split: if_splits)

lemma day_bytes_inj:
  assumes "schedule_valid s" "schedule_valid t" "day_bytes s = day_bytes t"
  shows "days s = days t"
proof -
  have "uint (word_of_int x :: byte) = x" if "x \<in> {0..6}" for x :: int
    using that by (simp add: unsigned_of_int take_bit_eq_mod)
  then have "inj_on (word_of_int :: int \<Rightarrow> byte) {0..6}"
    by (metis inj_onI)
  with assms show ?thesis
    unfolding day_bytes_def schedule_valid_def
    by (metis inj_on_subset map_inj_on sup.bounded_iff)
qed

lemma range_message_inj:
  assumes "range_message s = range_message t"
  shows "clock_seconds (start s) = clock_seconds (start t) \<and> clock_seconds (stop s) = clock_seconds (stop t)"
  using assms by (auto simp: range_message_def split: if_splits)


text \<open>The repository's second example: Mondays from midnight to 00:01.\<close>

definition demo_schedule :: schedule where
  "demo_schedule = \<lparr>days = [0], start = Clock 0 0 0 0, stop = Clock 0 1 0 0\<rparr>"

lemma demo_schedule_ok: "schedule_ok demo_schedule"
  by (simp add: schedule_ok_def schedule_valid_def demo_schedule_def clock_ok_def minute_precision_def)


section \<open>Getter responses\<close>

text \<open>The first varint field with number 1, whatever fields come before it.\<close>

fun first_value :: "field list \<Rightarrow> nat option" where
  "first_value [] = None"
| "first_value (VarintF n v # fs) = (if n = 1 then Some v else first_value fs)"
| "first_value (f # fs) = first_value fs"

lemma read_response_loop_message:
  assumes "drop off payload = encode_message fs" and "\<forall>f \<in> set fs. field_wf f"
  shows "read_response_loop payload off = Inr (first_value fs)"
  using assms
proof (induction fs arbitrary: off)
  case Nil
  then show ?case by (simp add: read_response_loop.simps)
next
  case (Cons f fs)
  let ?rest = "field_body f @ encode_message fs"
  let ?off = "off + length (varint (field_tag f))"
  have d: "drop off payload = varint (field_tag f) @ ?rest"
    using Cons.prems(1) by (simp add: encode_field_def)
  then have "off < length payload"
    using varint_nonempty [of "field_tag f"] by (metis append_is_Nil_conv drop_eq_Nil not_le)
  moreover have "decode_varint payload off MAX_VARINT_BYTES = Inr (field_tag f, ?off)"
    using Cons.prems(2) by (intro v10.dec_at [OF _ d] field_wf_tag) simp
  ultimately have step: "read_response_loop payload off =
    bind (if wire_type f = 0 then
            bind (decode_varint payload ?off MAX_VARINT_BYTES) (\<lambda>(v, offset).
              Inr (if field_no f = 1 then Some v else None, offset))
          else if wire_type f = 1 then Inr (None, ?off + 8)
          else if wire_type f = 2 then
            bind (decode_varint payload ?off MAX_VARINT_BYTES) (\<lambda>(len, offset). Inr (None, offset + len))
          else if wire_type f = 5 then Inr (None, ?off + 4)
          else Inl (ValueError ''unsupported protobuf wire type''))
      (\<lambda>(found, offset).
        (case found of Some v \<Rightarrow> Inr (Some v)
         | None \<Rightarrow> if length payload < offset then Inl (ValueError ''truncated protobuf field'')
                   else read_response_loop payload offset))"
    by (simp add: read_response_loop.simps [of payload off] Let_def)
  have d': "drop ?off payload = ?rest"
    by (rule v10.drop_after [OF d])
  have "length payload - off = length (varint (field_tag f)) + length ?rest"
    using arg_cong [OF d, of length] by simp
  with \<open>off < length payload\<close> have fits: "\<not> length payload < ?off + length (field_body f)"
    by simp
  have "drop (?off + length (field_body f)) payload = drop (length (field_body f)) (drop ?off payload)"
    by (simp add: ac_simps)
  then have IH: "read_response_loop payload (?off + length (field_body f)) = Inr (first_value fs)"
    using Cons.prems(2) by (intro Cons.IH) (simp_all add: d')
  show ?case
  proof (cases f)
    case (VarintF n v)
    with d' Cons.prems(2) have "decode_varint payload ?off MAX_VARINT_BYTES = Inr (v, ?off + length (field_body f))"
      using v10.dec_at [of v ?off payload] by simp
    with VarintF show ?thesis
      using fits IH by (simp add: step)
  next
    case (Fixed64F n b)
    then show ?thesis
      using fits IH Cons.prems(2) by (simp add: step)
  next
    case (BytesF n b)
    with d' Cons.prems(2) have "decode_varint payload ?off MAX_VARINT_BYTES = Inr (length b, ?off + length (varint (length b)))"
      using v10.dec_at [of "length b" ?off payload] by simp
    with BytesF show ?thesis
      using fits IH by (simp add: step add.assoc)
  next
    case (Fixed32F n b)
    then show ?thesis
      using fits IH Cons.prems(2) by (simp add: step)
  qed
qed

text \<open>
  The reader of getter responses returns the value of the first varint field numbered 1 of any
  well-formed protobuf message, skipping fields of every wire type, and \<open>None\<close> when there is none.
\<close>

theorem read_response_first_value:
  assumes "\<forall>f \<in> set fs. field_wf f"
  shows "read_response_value (encode_message fs) = Inr (first_value fs)"
  using read_response_loop_message [of 0 "encode_message fs" fs] assms
  by (simp add: read_response_value_def)

theorem read_response_first_value_witness:
  "read_response_value (encode_message [BytesF 1 [7], Fixed32F 3 [1, 2, 3, 4], VarintF 1 300]) =
     Inr (Some 300)"
  using read_response_first_value [of "[BytesF 1 [7], Fixed32F 3 [1, 2, 3, 4], VarintF 1 300]"]
  by simp

end
