(* ===== verification/Pprpc.thy ===== *)
theory Pprpc
  imports Md5 Varint
begin

text \<open>
  \<open>ino_a9_bridge/src/wificam_bridge/pprpc.py\<close>: varints, the fixed header, the three packet
  kinds, the parser of one packet, the splitter of a TCP byte stream and the two key
  derivations. Every \<open>raise PacketError\<close> of the module is an \<open>Inl\<close> with the module's own
  message, because \<open>iter_tcp_packets\<close> decides on the text of the message.
\<close>

section \<open>Data\<close>

definition UDP_MAGIC :: bytes where
  "UDP_MAGIC = [0x51, 0x70]"

definition SUPPORTED_TYPES :: "nat list" where
  "SUPPORTED_TYPES = [3..<9]"

definition SUPPORTED_FLAGS :: "nat list" where
  "SUPPORTED_FLAGS = [8, 9, 10]"

record fixed_header =
  fh_message_type :: nat
  fh_flag :: nat
  fh_length :: nat
  fh_is_udp :: bool
  fh_size :: nat

record rpc_packet =
  rpc_header :: fixed_header
  rpc_sequence :: nat
  rpc_command_id :: nat
  rpc_encryption_type :: nat
  rpc_rpc_type :: nat
  rpc_response_code :: "nat option"
  rpc_payload :: bytes

record av_packet =
  av_header :: fixed_header
  av_is_key_frame :: bool
  av_media_format :: nat
  av_encryption_type :: nat
  av_channel :: nat
  av_sequence :: nat
  av_timestamp :: nat
  av_encrypted_length :: nat
  av_payload :: bytes

record raw_packet =
  raw_header :: fixed_header
  raw_payload :: bytes

datatype packet = RPC rpc_packet | AV av_packet | Raw raw_packet

fun packet_header :: "packet \<Rightarrow> fixed_header" where
  "packet_header (RPC p) = rpc_header p"
| "packet_header (AV p) = av_header p"
| "packet_header (Raw p) = raw_header p"

section \<open>Key derivation\<close>

datatype key_prefix = StrPrefix string | BytesPrefix bytes

fun prefix_bytes :: "key_prefix \<Rightarrow> bytes" where
  "prefix_bytes (StrPrefix s) = str_encode s"
| "prefix_bytes (BytesPrefix b) = b"

definition rpc_key_suffix :: "nat \<Rightarrow> nat \<Rightarrow> nat \<Rightarrow> bytes" where
  "rpc_key_suffix sequence command_id rpc_type =
     str_encode (concat ['',ID:'', show_nat command_id, ''-SEQ:'', show_nat sequence,
                         ''-RPC:'', show_nat rpc_type])"

definition derive_rpc_key :: "key_prefix \<Rightarrow> nat \<Rightarrow> nat \<Rightarrow> nat \<Rightarrow> bytes" where
  "derive_rpc_key pfx sequence command_id rpc_type =
     str_encode (md5_hexdigest (prefix_bytes pfx @ rpc_key_suffix sequence command_id rpc_type))"

definition av_key_suffix :: "nat \<Rightarrow> nat \<Rightarrow> nat \<Rightarrow> bytes" where
  "av_key_suffix sequence timestamp channel =
     str_encode (concat ['',AVSeq:'', show_nat sequence, ''-TT:'', show_nat timestamp,
                         ''-AVChannel:'', show_nat channel])"

definition derive_av_key :: "key_prefix \<Rightarrow> nat \<Rightarrow> nat \<Rightarrow> nat \<Rightarrow> bytes" where
  "derive_av_key pfx sequence timestamp channel =
     str_encode (md5_hexdigest (prefix_bytes pfx @ av_key_suffix sequence timestamp channel))"

section \<open>Parsing one packet\<close>

definition parse_fixed_header :: "bytes \<Rightarrow> bool option \<Rightarrow> (fixed_header \<times> nat) result" where
  "parse_fixed_header data udp =
     (let detected_udp = prefix UDP_MAGIC data;
          is_udp = (case udp of None \<Rightarrow> detected_udp | Some u \<Rightarrow> u);
          offset = (if is_udp then length UDP_MAGIC else 0)
      in
      if udp = Some True \<and> \<not> detected_udp
        then Inl (PacketError ''missing UDP magic 0x5170'')
      else if is_udp \<and> \<not> detected_udp
        then Inl (PacketError ''missing UDP magic 0x5170'')
      else if length data \<le> offset
        then Inl (PacketError ''missing type/flag byte'')
      else
        let type_and_flag = data ! offset;
            message_type = unat (drop_bit 4 type_and_flag);
            flag = unat (type_and_flag AND 0x0F)
        in
        if message_type \<notin> set SUPPORTED_TYPES
          then Inl (PacketError (''unsupported message type '' @ show_nat message_type))
        else if flag \<notin> set SUPPORTED_FLAGS
          then Inl (PacketError (''unsupported flag '' @ show_nat flag))
        else
          bind (decode_varint data (Suc offset) 4) (\<lambda>(len, offset).
            Inr (\<lparr>fh_message_type = message_type, fh_flag = flag, fh_length = len,
                  fh_is_udp = is_udp, fh_size = offset\<rparr>, offset)))"

definition parse_rpc :: "fixed_header \<Rightarrow> bytes \<Rightarrow> rpc_packet result" where
  "parse_rpc header body =
     bind (decode_varint body 0 4) (\<lambda>(sequence, cursor).
     bind (decode_varint body cursor 4) (\<lambda>(command_id, cursor).
       if length body \<le> cursor
         then Inl (PacketError ''RPC packet missing encryption/type byte'')
       else
         let flags = body ! cursor;
             cursor = Suc cursor;
             encryption_type = unat (drop_bit 2 flags);
             rpc_type = unat (flags AND 0x03)
         in
         if rpc_type \<noteq> 0 \<and> rpc_type \<noteq> 1
           then Inl (PacketError (''unsupported RPC type '' @ show_nat rpc_type))
         else
           bind (if rpc_type = 1
                 then bind (decode_varint body cursor 4) (\<lambda>(code, cursor). Inr (Some code, cursor))
                 else Inr (None, cursor))
             (\<lambda>(response_code, cursor).
               Inr \<lparr>rpc_header = header, rpc_sequence = sequence, rpc_command_id = command_id,
                    rpc_encryption_type = encryption_type, rpc_rpc_type = rpc_type,
                    rpc_response_code = response_code, rpc_payload = drop cursor body\<rparr>)))"

definition parse_av :: "fixed_header \<Rightarrow> bytes \<Rightarrow> av_packet result" where
  "parse_av header body =
     (if length body < 2
      then Inl (PacketError ''AV packet missing format/encryption bytes'')
      else
        let format_byte = body ! 0;
            encryption_type = unat (body ! 1)
        in
        bind (decode_varint body 2 4) (\<lambda>(channel, cursor).
        bind (decode_varint body cursor 4) (\<lambda>(sequence, cursor).
        bind (decode_varint body cursor 9) (\<lambda>(timestamp, cursor).
        bind (decode_varint body cursor 4) (\<lambda>(encrypted_length, cursor).
          Inr \<lparr>av_header = header, av_is_key_frame = (drop_bit 7 format_byte \<noteq> 0),
               av_media_format = unat (format_byte AND 0x7F),
               av_encryption_type = encryption_type, av_channel = channel,
               av_sequence = sequence, av_timestamp = timestamp,
               av_encrypted_length = encrypted_length, av_payload = drop cursor body\<rparr>)))))"

definition parse_packet :: "bytes \<Rightarrow> bool option \<Rightarrow> bool \<Rightarrow> packet result" where
  "parse_packet data udp exact =
     bind (parse_fixed_header data udp) (\<lambda>(header, offset).
       let end = offset + fh_length header in
       if length data < end
         then Inl (PacketError (concat [''truncated packet: declared '', show_nat (fh_length header),
                '' body bytes, have '', show_nat (length data - offset)]))
       else if exact \<and> end \<noteq> length data
         then Inl (PacketError (concat [''trailing data: '', show_nat (length data - end), '' bytes'']))
       else
         let body = take (end - offset) (drop offset data) in
         if fh_message_type header = 4 \<or> fh_message_type header = 5
           then bind (parse_rpc header body) (\<lambda>p. Inr (RPC p))
         else if fh_message_type header = 6
           then bind (parse_av header body) (\<lambda>p. Inr (AV p))
         else Inr (Raw \<lparr>raw_header = header, raw_payload = body\<rparr>))"

section \<open>Splitting a TCP byte stream\<close>

text \<open>
  \<open>"truncated" in str(error) or "missing" in str(error)\<close>: the test by which the splitter tells
  an incomplete packet from a malformed one.
\<close>

definition incomplete_error :: "exn \<Rightarrow> bool" where
  "incomplete_error e \<longleftrightarrow>
     contains ''truncated'' (exn_message e) \<or> contains ''missing'' (exn_message e)"

lemma set_SUPPORTED:
  "set SUPPORTED_TYPES = {3..<9}" "set SUPPORTED_FLAGS = {8, 9, 10}"
  unfolding SUPPORTED_TYPES_def SUPPORTED_FLAGS_def by (simp_all only: set_upt list.set)

lemma parse_fixed_header_InrE:
  assumes "parse_fixed_header data udp = Inr (h, offset)"
  obtains ty fl len start is_udp where "ty \<in> set SUPPORTED_TYPES" and "fl \<in> set SUPPORTED_FLAGS"
    and "decode_varint data (Suc start) 4 = Inr (len, offset)"
    and "start = (if is_udp then length UDP_MAGIC else 0)"
    and "is_udp = (case udp of None \<Rightarrow> prefix UDP_MAGIC data | Some u \<Rightarrow> u)"
    and "h = \<lparr>fh_message_type = ty, fh_flag = fl, fh_length = len, fh_is_udp = is_udp,
              fh_size = offset\<rparr>"
  using assms unfolding parse_fixed_header_def Let_def
  by (simp add: result_iff split: if_split_asm) blast+

lemma parse_fixed_header_Inr:
  assumes "parse_fixed_header data udp = Inr (h, offset)"
  shows "fh_size h = offset" and "0 < offset" and "offset \<le> length data"
    and "fh_length h < 2 ^ 28" and "fh_message_type h \<in> {3..<9}" and "fh_flag h \<in> {8, 9, 10}"
  using assms by (auto elim!: parse_fixed_header_InrE simp: set_SUPPORTED dest: decode_varint_range)

function iter_tcp_loop :: "bytes \<Rightarrow> nat \<Rightarrow> packet list \<Rightarrow> (packet list \<times> bytes) result" where
  "iter_tcp_loop data offset packets =
     (if offset < length data
      then
        (case parse_fixed_header (drop offset data) (Some False) of
           Inl error \<Rightarrow>
             if incomplete_error error then Inr (packets, drop offset data) else Inl error
         | Inr (header, body_offset) \<Rightarrow>
             let packet_size = body_offset + fh_length header in
             if length data - offset < packet_size then Inr (packets, drop offset data)
             else
               bind (parse_packet (take packet_size (drop offset data)) (Some False) True)
                 (\<lambda>p. iter_tcp_loop data (offset + packet_size) (packets @ [p])))
      else Inr (packets, drop offset data))"
  by pat_completeness auto
termination
  by (relation "measure (\<lambda>(data, offset, packets). length data - offset)")
    (auto dest: parse_fixed_header_Inr(2))

declare iter_tcp_loop.simps [simp del]

definition iter_tcp_packets :: "bytes \<Rightarrow> (packet list \<times> bytes) result" where
  "iter_tcp_packets data = iter_tcp_loop data 0 []"

end
