(* ===== verification/Framing.thy ===== *)
theory Framing
  imports Prelude
begin

text \<open>
  The interface between a receive buffer and a packet splitter. A splitter looks at the bytes
  received so far and either needs more, finds them malformed, or cuts one packet off the front;
  more bytes never change a decision it has made. Whatever is built on that interface does not
  depend on how the transport cuts the stream into pieces.
\<close>

datatype ('a, 'e) frame_step = Need_More | Bad 'e | Frame 'a nat

text \<open>
  The buffer handling of a receiver: every chunk is appended to what the last one left over and
  split again (\<open>CameraClient._receive\<close> of \<open>camera.py\<close>).
\<close>

fun feed_chunks :: "('b list \<Rightarrow> 'e + ('a list \<times> 'b list)) \<Rightarrow> 'b list \<Rightarrow> 'b list list
    \<Rightarrow> 'e + ('a list \<times> 'b list)" where
  "feed_chunks split buffer [] = Inr ([], buffer)"
| "feed_chunks split buffer (data # chunks) =
     bind (split (buffer @ data)) (\<lambda>(packets, buffer).
     bind (feed_chunks split buffer chunks) (\<lambda>(later, buffer). Inr (packets @ later, buffer)))"

locale frame_decoder =
  fixes next_frame :: "'b list \<Rightarrow> ('a, 'e) frame_step"
    and split :: "'b list \<Rightarrow> 'e + ('a list \<times> 'b list)"
  assumes split_unfold: "split d =
      (case next_frame d of
         Need_More \<Rightarrow> Inr ([], d)
       | Bad e \<Rightarrow> Inl e
       | Frame p n \<Rightarrow> bind (split (drop n d)) (\<lambda>(ps, r). Inr (p # ps, r)))"
    and frame_size: "next_frame d = Frame p n \<Longrightarrow> 0 < n \<and> n \<le> length d"
    and frame_stable: "next_frame d = Frame p n \<Longrightarrow> next_frame (d @ more) = Frame p n"
    and bad_stable: "next_frame d = Bad e \<Longrightarrow> next_frame (d @ more) = Bad e"
begin

lemma split_induct [case_names Need_More Bad Frame]:
  assumes "\<And>d. next_frame d = Need_More \<Longrightarrow> P d"
    and "\<And>d e. next_frame d = Bad e \<Longrightarrow> P d"
    and "\<And>d p n. next_frame d = Frame p n \<Longrightarrow> P (drop n d) \<Longrightarrow> P d"
  shows "P d"
proof (induction "length d" arbitrary: d rule: less_induct)
  case less
  show ?case
  proof (cases "next_frame d")
    case (Frame p n)
    with frame_size have "length (drop n d) < length d"
      by fastforce
    with less Frame assms(3) show ?thesis by blast
  qed (use assms in auto)
qed

lemma split_simps:
  "next_frame d = Need_More \<Longrightarrow> split d = Inr ([], d)"
  "next_frame d = Bad e \<Longrightarrow> split d = Inl e"
  "next_frame d = Frame p n \<Longrightarrow> split d = bind (split (drop n d)) (\<lambda>(ps, r). Inr (p # ps, r))"
  by (simp_all add: split_unfold [of d])

text \<open>What is left over is a suffix that holds no complete packet.\<close>

lemma split_remainder: "split d = Inr (ps, r) \<Longrightarrow> suffix r d \<and> split r = Inr ([], r)"
proof (induction d arbitrary: ps rule: split_induct)
  case (Frame d p n)
  from Frame.prems Frame.hyps obtain qs where "split (drop n d) = Inr (qs, r)"
    by (auto simp: split_simps result_iff)
  with Frame.IH have "suffix r (drop n d)" and "split r = Inr ([], r)"
    by auto
  then show ?case
    using suffix_drop suffix_order.trans by blast
qed (auto simp: split_simps)

text \<open>Splitting a longer stream continues from the left-over bytes.\<close>

lemma split_append:
  "split a = Inr (ps, r) \<Longrightarrow>
     split (a @ b) = bind (split (r @ b)) (\<lambda>(qs, r'). Inr (ps @ qs, r'))"
proof (induction a arbitrary: ps rule: split_induct)
  case (Need_More d)
  then show ?case by (cases "split (d @ b)") (auto simp: split_simps)
next
  case (Bad d e)
  then show ?case by (simp add: split_simps)
next
  case (Frame d p n)
  from Frame.prems Frame.hyps obtain qs
    where qs: "split (drop n d) = Inr (qs, r)" and ps: "ps = p # qs"
    by (auto simp: split_simps result_iff)
  have "drop n (d @ b) = drop n d @ b"
    using frame_size [OF Frame.hyps] by simp
  then have "split (d @ b) = bind (split (drop n d @ b)) (\<lambda>(ps, r). Inr (p # ps, r))"
    using split_simps(3) [OF frame_stable [OF Frame.hyps, of b]] by simp
  with Frame.IH [OF qs] show ?case
    by (cases "split (r @ b)") (auto simp: ps)
qed

lemma split_append_error: "split a = Inl e \<Longrightarrow> split (a @ b) = Inl e"
proof (induction a rule: split_induct)
  case (Bad d e')
  then show ?case by (simp add: split_simps split_simps(2) [OF bad_stable [OF Bad.hyps]])
next
  case (Frame d p n)
  then have "split (drop n d) = Inl e"
    by (auto simp: split_simps result_iff)
  with Frame.IH have "split (drop n d @ b) = Inl e" .
  moreover have "drop n (d @ b) = drop n d @ b"
    using frame_size [OF Frame.hyps] by simp
  ultimately show ?case
    using split_simps(3) [OF frame_stable [OF Frame.hyps, of b]] by simp
qed (simp add: split_simps)

text \<open>The pieces in which the transport delivers the stream make no difference.\<close>

lemma feed_chunks_split:
  "split buffer = Inr ([], buffer) \<Longrightarrow>
     feed_chunks split buffer chunks = split (buffer @ concat chunks)"
proof (induction chunks arbitrary: buffer)
  case Nil
  then show ?case by simp
next
  case (Cons data chunks)
  show ?case
  proof (cases "split (buffer @ data)")
    case (Inl e)
    with split_append_error [OF Inl, of "concat chunks"] show ?thesis by simp
  next
    case (Inr res)
    then obtain ps r where ps: "split (buffer @ data) = Inr (ps, r)"
      by (cases res) auto
    with split_remainder Cons.IH have "feed_chunks split r chunks = split (r @ concat chunks)"
      by blast
    with ps split_append [OF ps, of "concat chunks"] show ?thesis by simp
  qed
qed

end

end
