(* ===== verification/Pprpc_Stream.thy ===== *)
theory Pprpc_Stream
  imports Pprpc Framing
begin

text \<open>
  Correctness of the PPRPC parser of \<open>pprpc.py\<close>: the range of every parsed field, the TCP
  splitter as an instance of the framing interface (so that it does not depend on how the
  stream is cut into \<open>recv\<close> results), the accounting of the bytes it consumes, and the
  unambiguity of the key material.
\<close>

section \<open>The fixed header does not depend on what follows it\<close>

lemma incomplete_error_missing [simp]: "incomplete_error (PacketError ''missing type/flag byte'')"
  by (simp add: incomplete_error_def)

lemma incomplete_error_truncated [simp]: "incomplete_error (PacketError ''truncated varint'')"
  by (simp add: incomplete_error_def)

lemma parse_fixed_header_tcp:
  "parse_fixed_header data (Some False) =
     (if data = [] then Inl (PacketError ''missing type/flag byte'')
      else
        let message_type = unat (drop_bit 4 (data ! 0)); flag = unat (data ! 0 AND 0x0F) in
        if message_type \<notin> {3..<9}
          then Inl (PacketError (''unsupported message type '' @ show_nat message_type))
        else if flag \<notin> {8, 9, 10} then Inl (PacketError (''unsupported flag '' @ show_nat flag))
        else
          bind (decode_varint data 1 4) (\<lambda>(len, offset).
            Inr (\<lparr>fh_message_type = message_type, fh_flag = flag, fh_length = len,
                  fh_is_udp = False, fh_size = offset\<rparr>, offset)))"
  by (simp add: parse_fixed_header_def Let_def set_SUPPORTED)

lemma parse_fixed_header_append:
  assumes "parse_fixed_header data (Some False) = res"
    and "\<And>e. res = Inl e \<Longrightarrow> \<not> incomplete_error e"
  shows "parse_fixed_header (data @ rest) (Some False) = res"
proof (cases "data = []")
  case True
  then have "res = Inl (PacketError ''missing type/flag byte'')"
    using assms(1) by (simp add: parse_fixed_header_tcp)
  with assms(2) show ?thesis by simp
next
  case False
  have "decode_varint (data @ rest) 1 4 = decode_varint data 1 4"
    if "decode_varint data 1 4 \<noteq> Inl (PacketError ''truncated varint'')"
    using that by (rule decode_varint_append [OF refl])
  with False assms show ?thesis
    by (cases "decode_varint data 1 4 = Inl (PacketError ''truncated varint'')")
      (auto simp: parse_fixed_header_tcp Let_def nth_append split: if_splits)
qed

section \<open>The splitter as a frame decoder\<close>

text \<open>One iteration of the splitter's loop, on the bytes from the current offset on.\<close>

definition tcp_frame :: "bytes \<Rightarrow> (packet, exn) frame_step" where
  "tcp_frame data =
     (case parse_fixed_header data (Some False) of
        Inl error \<Rightarrow> if incomplete_error error then Need_More else Bad error
      | Inr (header, body_offset) \<Rightarrow>
          let packet_size = body_offset + fh_length header in
          if length data < packet_size then Need_More
          else
            (case parse_packet (take packet_size data) (Some False) True of
               Inl error \<Rightarrow> Bad error
             | Inr p \<Rightarrow> Frame p packet_size))"

lemma iter_tcp_loop_drop:
  "iter_tcp_loop data offset packets =
     bind (iter_tcp_loop (drop offset data) 0 []) (\<lambda>(ps, r). Inr (packets @ ps, r))"
proof (induction "length data - offset" arbitrary: data offset packets rule: less_induct)
  case less
  show ?case
  proof (cases "offset < length data")
    case False
    then show ?thesis by (simp add: iter_tcp_loop.simps)
  next
    case True
    note unfold = iter_tcp_loop.simps [of data offset] iter_tcp_loop.simps [of "drop offset data" 0]
    show ?thesis
    proof (cases "parse_fixed_header (drop offset data) (Some False)")
      case (Inl e)
      with True show ?thesis by (auto simp: unfold)
    next
      case (Inr res)
      then obtain h bo where h: "parse_fixed_header (drop offset data) (Some False) = Inr (h, bo)"
        by (cases res) auto
      let ?size = "bo + fh_length h"
      from h have pos: "0 < ?size"
        using parse_fixed_header_Inr(2) by force
      show ?thesis
      proof (cases "length data - offset < ?size")
        case True': True
        with True h show ?thesis by (auto simp: unfold Let_def)
      next
        case False
        have 1: "iter_tcp_loop data (offset + ?size) (packets @ [p]) =
            bind (iter_tcp_loop (drop (offset + ?size) data) 0 [])
              (\<lambda>(ps, r). Inr ((packets @ [p]) @ ps, r))" for p
          using pos True by (intro less) linarith
        have 2: "iter_tcp_loop (drop offset data) ?size [p] =
            bind (iter_tcp_loop (drop ?size (drop offset data)) 0 [])
              (\<lambda>(ps, r). Inr ([p] @ ps, r))" for p
          using pos True by (intro less) (simp, linarith)
        show ?thesis
          using True h False 1 2
          by (cases "parse_packet (take ?size (drop offset data)) (Some False) True";
              cases "iter_tcp_loop (drop (offset + ?size) data) 0 []")
            (auto simp: unfold Let_def add.commute)
      qed
    qed
  qed
qed

lemma iter_tcp_packets_unfold:
  "iter_tcp_packets data =
     (case tcp_frame data of
        Need_More \<Rightarrow> Inr ([], data)
      | Bad e \<Rightarrow> Inl e
      | Frame p n \<Rightarrow> bind (iter_tcp_packets (drop n data)) (\<lambda>(ps, r). Inr (p # ps, r)))"
proof (cases "data = []")
  case True
  then show ?thesis
    by (simp add: iter_tcp_packets_def iter_tcp_loop.simps tcp_frame_def parse_fixed_header_tcp)
next
  case False
  have next': "iter_tcp_loop data n [p] =
      bind (iter_tcp_loop (drop n data) 0 []) (\<lambda>(ps, r). Inr (p # ps, r))" for n p
    using iter_tcp_loop_drop [of data n "[p]"] by simp
  from False show ?thesis
    by (auto simp: iter_tcp_packets_def iter_tcp_loop.simps [of data 0] tcp_frame_def Let_def next'
        split: sum.splits)
qed

lemma tcp_frame_FrameE:
  assumes "tcp_frame data = Frame p n"
  obtains h bo where "parse_fixed_header data (Some False) = Inr (h, bo)"
    and "n = bo + fh_length h" and "n \<le> length data"
    and "parse_packet (take n data) (Some False) True = Inr p"
  using assms by (auto simp: tcp_frame_def Let_def split: sum.splits if_splits prod.splits)

lemma tcp_frame_size: "tcp_frame data = Frame p n \<Longrightarrow> 0 < n \<and> n \<le> length data"
  by (elim tcp_frame_FrameE) (auto dest: parse_fixed_header_Inr(2))

lemma tcp_frame_stable:
  assumes "tcp_frame data = Frame p n"
  shows "tcp_frame (data @ rest) = Frame p n"
proof -
  from assms obtain h bo where h: "parse_fixed_header data (Some False) = Inr (h, bo)"
    and n: "n = bo + fh_length h" "n \<le> length data"
    and p: "parse_packet (take n data) (Some False) True = Inr p"
    by (rule tcp_frame_FrameE)
  from h have "parse_fixed_header (data @ rest) (Some False) = Inr (h, bo)"
    by (rule parse_fixed_header_append) simp
  with n p show ?thesis by (simp add: tcp_frame_def Let_def)
qed

lemma tcp_frame_bad_stable:
  assumes "tcp_frame data = Bad e"
  shows "tcp_frame (data @ rest) = Bad e"
proof (cases "parse_fixed_header data (Some False)")
  case (Inl e')
  with assms have "e' = e" "\<not> incomplete_error e"
    by (auto simp: tcp_frame_def split: if_splits)
  with parse_fixed_header_append [OF Inl, of rest] show ?thesis
    by (simp add: tcp_frame_def)
next
  case (Inr res)
  then obtain h bo where h: "parse_fixed_header data (Some False) = Inr (h, bo)"
    by (cases res) auto
  then have "parse_fixed_header (data @ rest) (Some False) = Inr (h, bo)"
    by (rule parse_fixed_header_append) simp
  with h assms show ?thesis
    by (auto simp: tcp_frame_def Let_def split: if_splits sum.splits)
qed

interpretation tcp: frame_decoder tcp_frame iter_tcp_packets
  by unfold_locales
    (rule iter_tcp_packets_unfold, simp_all add: tcp_frame_size tcp_frame_stable tcp_frame_bad_stable)

text \<open>
  C4. However the transport cuts the byte stream into \<open>recv\<close> results, the buffer handling of the
  client delivers the packets, the left-over bytes or the exception that one call of
  \<open>iter_tcp_packets\<close> on the whole stream gives.
\<close>

theorem tcp_chunking:
  "feed_chunks iter_tcp_packets [] chunks = iter_tcp_packets (concat chunks)"
proof -
  have "iter_tcp_packets [] = Inr ([], [])"
    by (simp add: iter_tcp_packets_def iter_tcp_loop.simps)
  then show ?thesis
    using tcp.feed_chunks_split [of "[]" chunks] by simp
qed

section \<open>What a parsed packet looks like\<close>

definition wire_size :: "fixed_header \<Rightarrow> nat" where
  "wire_size h = fh_size h + fh_length h"

fun packet_wf :: "packet \<Rightarrow> bool" where
  "packet_wf (RPC p) \<longleftrightarrow>
     fh_message_type (rpc_header p) \<in> {4, 5} \<and> rpc_sequence p < 2 ^ 28 \<and> rpc_command_id p < 2 ^ 28 \<and>
     rpc_encryption_type p < 64 \<and>
     (rpc_rpc_type p = 0 \<and> rpc_response_code p = None \<or>
      rpc_rpc_type p = 1 \<and> (\<exists>code < 2 ^ 28. rpc_response_code p = Some code)) \<and>
     length (rpc_payload p) + 3 \<le> fh_length (rpc_header p)"
| "packet_wf (AV p) \<longleftrightarrow>
     fh_message_type (av_header p) = 6 \<and> av_media_format p < 128 \<and> av_encryption_type p < 256 \<and>
     av_channel p < 2 ^ 28 \<and> av_sequence p < 2 ^ 28 \<and> av_timestamp p < 2 ^ 63 \<and>
     av_encrypted_length p < 2 ^ 28 \<and> length (av_payload p) + 6 \<le> fh_length (av_header p)"
| "packet_wf (Raw p) \<longleftrightarrow>
     fh_message_type (raw_header p) \<in> {3, 7, 8} \<and> length (raw_payload p) = fh_length (raw_header p)"

lemma unat_byte_less: "unat (b :: byte) < 256"
proof -
  have "unat b < 2 ^ LENGTH(8)" by (rule unsigned_less)
  then show ?thesis by simp
qed

lemma unat_drop_bit_2: "unat (drop_bit 2 (b :: byte)) < 64"
proof -
  have "unat (drop_bit 2 b) = drop_bit 2 (take_bit LENGTH(8) (unat b))"
    by (simp only: unsigned_drop_bit_eq)
  moreover have "take_bit LENGTH(8) (unat b) < 256"
    by (simp add: take_bit_eq_mod)
  ultimately show ?thesis
    by (simp add: drop_bit_eq_div less_mult_imp_div_less)
qed

lemma parse_rpc_wf:
  assumes "parse_rpc h body = Inr p"
  shows "rpc_header p = h" and "length body = fh_length h \<Longrightarrow> fh_message_type h \<in> {4, 5} \<Longrightarrow> packet_wf (RPC p)"
proof -
  from assms obtain s c1 c c2 code c3
    where d1: "decode_varint body 0 4 = Inr (s, c1)"
    and d2: "decode_varint body c1 4 = Inr (c, c2)"
    and c2: "c2 < length body"
    and ty: "unat (body ! c2 AND 3) = 0 \<or> unat (body ! c2 AND 3) = 1"
    and d3: "if unat (body ! c2 AND 3) = 1
             then \<exists>v. decode_varint body (Suc c2) 4 = Inr (v, c3) \<and> code = Some v
             else c3 = Suc c2 \<and> code = None"
    and p: "p = \<lparr>rpc_header = h, rpc_sequence = s, rpc_command_id = c,
                rpc_encryption_type = unat (drop_bit 2 (body ! c2)),
                rpc_rpc_type = unat (body ! c2 AND 3), rpc_response_code = code,
                rpc_payload = drop c3 body\<rparr>"
    by (auto simp: parse_rpc_def Let_def result_iff split: if_splits)
  show "rpc_header p = h" by (simp add: p)
  have c3: "Suc c2 \<le> c3"
    using d3 by (auto split: if_splits dest: decode_varint_range)
  show "packet_wf (RPC p)" if "length body = fh_length h" "fh_message_type h \<in> {4, 5}"
    using that ty c2 c3 d3 decode_varint_range [OF d1] decode_varint_range [OF d2]
    by (auto simp: p unat_drop_bit_2 split: if_splits dest: decode_varint_range)
qed

lemma parse_av_wf:
  assumes "parse_av h body = Inr p"
  shows "av_header p = h" and "length body = fh_length h \<Longrightarrow> fh_message_type h = 6 \<Longrightarrow> packet_wf (AV p)"
proof -
  from assms obtain ch c1 s c2 t c3 e c4
    where len: "2 \<le> length body"
    and d1: "decode_varint body 2 4 = Inr (ch, c1)"
    and d2: "decode_varint body c1 4 = Inr (s, c2)"
    and d3: "decode_varint body c2 9 = Inr (t, c3)"
    and d4: "decode_varint body c3 4 = Inr (e, c4)"
    and p: "p = \<lparr>av_header = h, av_is_key_frame = (drop_bit 7 (body ! 0) \<noteq> 0),
               av_media_format = unat (body ! 0 AND 0x7F),
               av_encryption_type = unat (body ! 1), av_channel = ch,
               av_sequence = s, av_timestamp = t,
               av_encrypted_length = e, av_payload = drop c4 body\<rparr>"
    by (auto simp: parse_av_def Let_def result_iff split: if_splits)
  note r = decode_varint_range [OF d1] decode_varint_range [OF d2]
    decode_varint_range [OF d3] decode_varint_range [OF d4]
  show "av_header p = h" by (simp add: p)
  have "length body - c4 + 6 \<le> length body"
    using r by linarith
  moreover have "unat (body ! 1) < 256"
    by (rule unat_byte_less)
  ultimately show "packet_wf (AV p)" if "length body = fh_length h" "fh_message_type h = 6"
    using that r by (simp add: p unat_and_7F)
qed

lemma parse_packet_InrE:
  assumes "parse_packet data udp exact = Inr p"
  obtains h bo where "parse_fixed_header data udp = Inr (h, bo)"
    and "bo + fh_length h \<le> length data" and "exact \<Longrightarrow> bo + fh_length h = length data"
    and "packet_header p = h" and "packet_wf p"
proof -
  from assms obtain h bo where h: "parse_fixed_header data udp = Inr (h, bo)"
    and len: "bo + fh_length h \<le> length data" "exact \<Longrightarrow> bo + fh_length h = length data"
    by (auto simp: parse_packet_def Let_def result_iff split: if_splits)
  let ?body = "take (fh_length h) (drop bo data)"
  have body: "length ?body = fh_length h"
    using len by simp
  have types: "fh_message_type h \<in> {3..<9}"
    by (rule parse_fixed_header_Inr [OF h])
  have "packet_header p = h \<and> packet_wf p"
    using assms h len body types
    by (auto simp: parse_packet_def Let_def result_iff split: if_splits
        dest: parse_rpc_wf parse_av_wf)
  with h len that show thesis by blast
qed

text \<open>
  Every packet the parser returns has its fields in the range of their wire format: a
  supported type that fits the kind of packet, a supported flag, 28-bit varints (63-bit
  timestamps), a response code exactly on RPC responses, and a payload within the declared
  length; it lies within the input, and with \<open>exact\<close> it is the whole input.
\<close>

theorem parse_packet_fields:
  assumes "parse_packet data udp exact = Inr p"
  shows "packet_wf p \<and>
    fh_message_type (packet_header p) \<in> {3..<9} \<and> fh_flag (packet_header p) \<in> {8, 9, 10} \<and>
    fh_length (packet_header p) < 2 ^ 28 \<and> wire_size (packet_header p) \<le> length data \<and>
    (exact \<longrightarrow> wire_size (packet_header p) = length data)"
proof -
  from assms obtain h bo where h: "parse_fixed_header data udp = Inr (h, bo)"
    and "bo + fh_length h \<le> length data" "exact \<Longrightarrow> bo + fh_length h = length data"
    and "packet_header p = h" "packet_wf p"
    by (rule parse_packet_InrE) blast
  with parse_fixed_header_Inr [OF h] show ?thesis
    by (simp add: wire_size_def)
qed

text \<open>A two-byte heartbeat packet over UDP framing, to show that the hypothesis can hold.\<close>

definition udp_heartbeat :: bytes where
  "udp_heartbeat = [0x51, 0x70, 0x38, 0x00]"

lemma parse_udp_heartbeat:
  "parse_packet udp_heartbeat None True =
     Inr (Raw \<lparr>raw_header = \<lparr>fh_message_type = 3, fh_flag = 8, fh_length = 0, fh_is_udp = True,
                            fh_size = 4\<rparr>, raw_payload = []\<rparr>)"
  by code_simp

theorem parse_packet_fields_witness:
  "\<exists>p. parse_packet udp_heartbeat None True = Inr p \<and> packet_wf p \<and> wire_size (packet_header p) = 4"
  using parse_packet_fields [OF parse_udp_heartbeat] parse_udp_heartbeat
  by (auto simp: udp_heartbeat_def)

section \<open>Every byte of the stream is accounted for\<close>

lemma tcp_frame_wire_size:
  assumes "tcp_frame data = Frame p n"
  shows "n = wire_size (packet_header p)"
proof -
  from assms obtain h bo where h: "parse_fixed_header data (Some False) = Inr (h, bo)"
    and n: "n = bo + fh_length h" "n \<le> length data"
    and p: "parse_packet (take n data) (Some False) True = Inr p"
    by (rule tcp_frame_FrameE)
  from p obtain h' bo' where h': "parse_fixed_header (take n data) (Some False) = Inr (h', bo')"
    and hp: "packet_header p = h'"
    by (rule parse_packet_InrE)
  have "parse_fixed_header (take n data @ drop n data) (Some False) = Inr (h', bo')"
    by (rule parse_fixed_header_append [OF h']) simp
  with h have "h' = h" "bo' = bo" by simp_all
  with n hp parse_fixed_header_Inr(1) [OF h] show ?thesis
    by (simp add: wire_size_def)
qed

text \<open>
  Splitting a stream accounts for every byte: the packets' wire sizes and the remainder add
  up to the input, the remainder is a suffix of the input, and it holds no complete packet
  (splitting it again yields nothing and leaves it as it is).
\<close>

theorem iter_tcp_accounting:
  assumes "iter_tcp_packets data = Inr (ps, r)"
  shows "sum_list (map (\<lambda>p. wire_size (packet_header p)) ps) + length r = length data \<and>
    suffix r data \<and> iter_tcp_packets r = Inr ([], r)"
proof -
  have "iter_tcp_packets data = Inr (ps, r) \<Longrightarrow>
      sum_list (map (\<lambda>p. wire_size (packet_header p)) ps) + length r = length data"
  proof (induction data arbitrary: ps rule: tcp.split_induct)
    case (Frame d p n)
    then obtain qs where qs: "iter_tcp_packets (drop n d) = Inr (qs, r)" and ps: "ps = p # qs"
      by (auto simp: tcp.split_simps result_iff)
    from Frame.IH [OF qs] show ?case
      using tcp_frame_size [OF Frame.hyps] tcp_frame_wire_size [OF Frame.hyps]
      by (simp add: ps) linarith
  qed (auto simp: tcp.split_simps)
  with assms tcp.split_remainder [OF assms] show ?thesis
    by blast
qed

text \<open>A heartbeat followed by the first byte of the next packet.\<close>

lemma iter_tcp_example:
  "iter_tcp_packets [0x38, 0x00, 0x48] =
     Inr ([Raw \<lparr>raw_header = \<lparr>fh_message_type = 3, fh_flag = 8, fh_length = 0, fh_is_udp = False,
                             fh_size = 2\<rparr>, raw_payload = []\<rparr>], [0x48])"
  by code_simp

theorem iter_tcp_accounting_witness:
  "suffix [0x48] [0x38, 0x00, 0x48 :: byte] \<and> iter_tcp_packets [0x48] = Inr ([], [0x48])"
  using iter_tcp_accounting [OF iter_tcp_example] by simp

section \<open>Key material\<close>

lemma length_derive_key [simp]:
  "length (derive_rpc_key pfx s c t) = 32" "length (derive_av_key pfx s ts ch) = 32"
  by (simp_all add: derive_rpc_key_def derive_av_key_def)

lemma not_is_digit: "\<not> is_digit (CHR ''-'')"
  by (simp add: is_digit_def)

lemma rpc_key_suffix_inj:
  "rpc_key_suffix s c t = rpc_key_suffix s' c' t' \<longleftrightarrow> s = s' \<and> c = c' \<and> t = t'"
proof
  assume "rpc_key_suffix s c t = rpc_key_suffix s' c' t'"
  then have 1: "show_nat c @ CHR ''-'' # ''SEQ:'' @ show_nat s @ CHR ''-'' # ''RPC:'' @ show_nat t =
      show_nat c' @ CHR ''-'' # ''SEQ:'' @ show_nat s' @ CHR ''-'' # ''RPC:'' @ show_nat t'"
    by (simp add: rpc_key_suffix_def str_encode_inj)
  from show_nat_split [OF 1 not_is_digit not_is_digit]
  have "c = c'" and 2: "show_nat s @ CHR ''-'' # ''RPC:'' @ show_nat t =
      show_nat s' @ CHR ''-'' # ''RPC:'' @ show_nat t'"
    by simp_all
  with show_nat_split [OF 2 not_is_digit not_is_digit] show "s = s' \<and> c = c' \<and> t = t'"
    by (simp add: show_nat_inj)
qed simp

lemma av_key_suffix_inj:
  "av_key_suffix s ts ch = av_key_suffix s' ts' ch' \<longleftrightarrow> s = s' \<and> ts = ts' \<and> ch = ch'"
proof
  assume "av_key_suffix s ts ch = av_key_suffix s' ts' ch'"
  then have 1: "show_nat s @ CHR ''-'' # ''TT:'' @ show_nat ts @ CHR ''-'' # ''AVChannel:'' @ show_nat ch =
      show_nat s' @ CHR ''-'' # ''TT:'' @ show_nat ts' @ CHR ''-'' # ''AVChannel:'' @ show_nat ch'"
    by (simp add: av_key_suffix_def str_encode_inj)
  from show_nat_split [OF 1 not_is_digit not_is_digit]
  have "s = s'" and 2: "show_nat ts @ CHR ''-'' # ''AVChannel:'' @ show_nat ch =
      show_nat ts' @ CHR ''-'' # ''AVChannel:'' @ show_nat ch'"
    by simp_all
  with show_nat_split [OF 2 not_is_digit not_is_digit] show "s = s' \<and> ts = ts' \<and> ch = ch'"
    by (simp add: show_nat_inj)
qed simp

text \<open>
  The text hashed into a key determines the public header values: two RPC packets with the
  same prefix hash the same text only if sequence, command and RPC type agree, two AV packets
  only if sequence, timestamp and channel agree, and an RPC text is never an AV text. Key reuse
  across packets therefore needs a repeated header or an MD5 collision.
\<close>

theorem key_material_unambiguous:
  "(rpc_key_suffix s c t = rpc_key_suffix s' c' t' \<longleftrightarrow> (s, c, t) = (s', c', t')) \<and>
   (av_key_suffix s ts ch = av_key_suffix s' ts' ch' \<longleftrightarrow> (s, ts, ch) = (s', ts', ch')) \<and>
   rpc_key_suffix s c t \<noteq> av_key_suffix s' ts ch"
  by (simp add: rpc_key_suffix_inj av_key_suffix_inj)
    (simp add: rpc_key_suffix_def av_key_suffix_def str_encode_inj)

end
