(* ===== verification/Crypto.thy ===== *)
theory Crypto
  imports Prelude
begin

text \<open>
  \<open>ino_a9_bridge/src/wificam_bridge/crypto.py\<close>: the four AES-CBC helpers and their argument
  checks. The cipher and the PKCS#7 padding themselves are the third-party package
  \<open>cryptography\<close>; they are a parameter, a record of the operations the module calls, and what
  the package documents of them is the predicate \<open>cipher_laws\<close>.
\<close>

definition AES_BLOCK_SIZE :: nat where
  "AES_BLOCK_SIZE = 16"

text \<open>
  \<open>Cipher(AES(key), CBC(iv)).encryptor()\<close> and \<open>.decryptor()\<close> applied to a whole message, the
  padder and the unpadder of \<open>PKCS7(bits)\<close>; \<open>None\<close> is the unpadder's \<open>ValueError\<close>.
\<close>

record cipher_suite =
  cbc_encrypt :: "bytes \<Rightarrow> bytes \<Rightarrow> bytes \<Rightarrow> bytes"
  cbc_decrypt :: "bytes \<Rightarrow> bytes \<Rightarrow> bytes \<Rightarrow> bytes"
  pkcs7_pad :: "nat \<Rightarrow> bytes \<Rightarrow> bytes"
  pkcs7_unpad :: "nat \<Rightarrow> bytes \<Rightarrow> bytes option"

definition validate :: "bytes \<Rightarrow> bytes \<Rightarrow> unit result" where
  "validate key iv =
     (if length key \<notin> {16, 24, 32}
        then Inl (ValueError ''AES key must contain 16, 24, or 32 bytes'')
      else if length iv \<noteq> AES_BLOCK_SIZE
        then Inl (ValueError ''AES-CBC IV must contain 16 bytes'')
      else Inr ())"

definition aes_cbc_encrypt_padded :: "cipher_suite \<Rightarrow> bytes \<Rightarrow> bytes \<Rightarrow> bytes \<Rightarrow> bytes result" where
  "aes_cbc_encrypt_padded cs plaintext key iv =
     bind (validate key iv) (\<lambda>_.
       let padded = pkcs7_pad cs (AES_BLOCK_SIZE * 8) plaintext in
       Inr (cbc_encrypt cs key iv padded))"

definition aes_cbc_decrypt_padded :: "cipher_suite \<Rightarrow> bytes \<Rightarrow> bytes \<Rightarrow> bytes \<Rightarrow> bytes result" where
  "aes_cbc_decrypt_padded cs ciphertext key iv =
     bind (validate key iv) (\<lambda>_.
       if ciphertext = [] \<or> length ciphertext mod AES_BLOCK_SIZE \<noteq> 0
         then Inl (ValueError ''padded AES-CBC ciphertext must be non-empty and block-aligned'')
       else
         let padded = cbc_decrypt cs key iv ciphertext in
         (case pkcs7_unpad cs (AES_BLOCK_SIZE * 8) padded of
            None \<Rightarrow> Inl (ValueError ''Invalid padding bytes.'')
          | Some plaintext \<Rightarrow> Inr plaintext))"

definition aes_cbc_encrypt_unpadded :: "cipher_suite \<Rightarrow> bytes \<Rightarrow> bytes \<Rightarrow> bytes \<Rightarrow> bytes result" where
  "aes_cbc_encrypt_unpadded cs plaintext key iv =
     bind (validate key iv) (\<lambda>_.
       if length plaintext mod AES_BLOCK_SIZE \<noteq> 0
         then Inl (ValueError ''unpadded AES-CBC plaintext must be block-aligned'')
       else Inr (cbc_encrypt cs key iv plaintext))"

definition aes_cbc_decrypt_unpadded :: "cipher_suite \<Rightarrow> bytes \<Rightarrow> bytes \<Rightarrow> bytes \<Rightarrow> bytes result" where
  "aes_cbc_decrypt_unpadded cs ciphertext key iv =
     bind (validate key iv) (\<lambda>_.
       if length ciphertext mod AES_BLOCK_SIZE \<noteq> 0
         then Inl (ValueError ''unpadded AES-CBC ciphertext must be block-aligned'')
       else Inr (cbc_decrypt cs key iv ciphertext))"

section \<open>What the package documents\<close>

text \<open>
  CBC with a valid key and IV maps block-aligned messages to messages of the same length, and
  decryption inverts encryption; padding to 128-bit blocks makes the length a positive multiple
  of 16 and unpadding removes exactly it.
\<close>

definition cipher_laws :: "cipher_suite \<Rightarrow> bool" where
  "cipher_laws cs \<longleftrightarrow>
     (\<forall>key iv msg. validate key iv = Inr () \<and> 16 dvd length msg \<longrightarrow>
        length (cbc_encrypt cs key iv msg) = length msg \<and>
        length (cbc_decrypt cs key iv msg) = length msg \<and>
        cbc_decrypt cs key iv (cbc_encrypt cs key iv msg) = msg) \<and>
     (\<forall>msg. 16 dvd length (pkcs7_pad cs 128 msg) \<and> length msg < length (pkcs7_pad cs 128 msg) \<and>
        length (pkcs7_pad cs 128 msg) \<le> length msg + 16 \<and>
        pkcs7_unpad cs 128 (pkcs7_pad cs 128 msg) = Some msg)"

lemma cipher_lawsD:
  assumes "cipher_laws cs"
  shows "validate key iv = Inr () \<Longrightarrow> 16 dvd length msg \<Longrightarrow> length (cbc_encrypt cs key iv msg) = length msg"
    and "validate key iv = Inr () \<Longrightarrow> 16 dvd length msg \<Longrightarrow> length (cbc_decrypt cs key iv msg) = length msg"
    and "validate key iv = Inr () \<Longrightarrow> 16 dvd length msg \<Longrightarrow>
      cbc_decrypt cs key iv (cbc_encrypt cs key iv msg) = msg"
    and "16 dvd length (pkcs7_pad cs 128 msg)"
    and "length msg < length (pkcs7_pad cs 128 msg)"
    and "length (pkcs7_pad cs 128 msg) \<le> length msg + 16"
    and "pkcs7_unpad cs 128 (pkcs7_pad cs 128 msg) = Some msg"
  using assms unfolding cipher_laws_def by blast+

lemma validate_32 [simp]: "length key = 32 \<Longrightarrow> length iv = 16 \<Longrightarrow> validate key iv = Inr ()"
  by (simp add: validate_def AES_BLOCK_SIZE_def)

lemma encrypt_padded_ok:
  assumes "cipher_laws cs" and "validate key iv = Inr ()"
  obtains c where "aes_cbc_encrypt_padded cs msg key iv = Inr c"
    and "aes_cbc_decrypt_padded cs c key iv = Inr msg"
    and "16 dvd length c" and "length msg < length c" and "length c \<le> length msg + 16"
proof -
  note laws = cipher_lawsD [OF assms(1)]
  let ?c = "cbc_encrypt cs key iv (pkcs7_pad cs 128 msg)"
  have len: "length ?c = length (pkcs7_pad cs 128 msg)"
    by (rule laws(1) [OF assms(2) laws(4)])
  then have ne: "?c \<noteq> []"
    using laws(5) [of msg] by (metis list.size(3) not_less_zero)
  show thesis
  proof (rule that [of ?c])
    show "aes_cbc_encrypt_padded cs msg key iv = Inr ?c"
      by (simp add: aes_cbc_encrypt_padded_def assms(2) AES_BLOCK_SIZE_def)
    have "length ?c mod 16 = 0"
      using len laws(4) [of msg] by (simp add: mod_eq_0_iff_dvd)
    with ne show "aes_cbc_decrypt_padded cs ?c key iv = Inr msg"
      by (simp add: aes_cbc_decrypt_padded_def assms(2) AES_BLOCK_SIZE_def
          laws(3) [OF assms(2) laws(4)] laws(7))
  qed (use len laws(4-6) in simp_all)
qed

lemma decrypt_unpadded_ok:
  assumes "cipher_laws cs" and "validate key iv = Inr ()" and "16 dvd length msg"
  shows "aes_cbc_decrypt_unpadded cs (cbc_encrypt cs key iv msg) key iv = Inr msg"
  using assms(2) cipher_lawsD(1,3) [OF assms]
  by (simp add: aes_cbc_decrypt_unpadded_def AES_BLOCK_SIZE_def mod_eq_0_iff_dvd assms(3))

text \<open>The helpers raise only \<open>ValueError\<close>, and exactly on bad sizes or bad padding.\<close>

lemma decrypt_padded_error:
  "aes_cbc_decrypt_padded cs c key iv = Inl e \<Longrightarrow> \<exists>m. e = ValueError m"
  by (auto simp: aes_cbc_decrypt_padded_def validate_def Let_def split: if_splits option.splits)

section \<open>An instance of the parameter\<close>

text \<open>
  A concrete suite that satisfies the laws, for the witnesses: real PKCS#7 padding, and a stream
  of key bytes in place of AES.
\<close>

definition demo_pad :: "bytes \<Rightarrow> bytes" where
  "demo_pad msg = (let n = 16 - length msg mod 16 in msg @ replicate n (of_nat n))"

definition demo_unpad :: "bytes \<Rightarrow> bytes option" where
  "demo_unpad padded =
     (if padded = [] then None
      else
        let n = unat (last padded); msg = take (length padded - n) padded in
        if 0 < n \<and> n \<le> 16 \<and> demo_pad msg = padded then Some msg else None)"

definition demo_suite :: cipher_suite where
  "demo_suite =
     \<lparr>cbc_encrypt = (\<lambda>key iv. map (\<lambda>b. b XOR hd key)),
      cbc_decrypt = (\<lambda>key iv. map (\<lambda>b. b XOR hd key)),
      pkcs7_pad = (\<lambda>bits. demo_pad), pkcs7_unpad = (\<lambda>bits. demo_unpad)\<rparr>"

lemma demo_pad_laws:
  "16 dvd length (demo_pad msg)" "length msg < length (demo_pad msg)"
  "length (demo_pad msg) \<le> length msg + 16" "demo_unpad (demo_pad msg) = Some msg"
proof -
  define n where "n = 16 - length msg mod 16"
  have n: "0 < n" "n \<le> 16"
    using mod_less_divisor [of 16 "length msg"] by (simp_all add: n_def)
  have pad: "demo_pad msg = msg @ replicate n (of_nat n)"
    by (simp add: demo_pad_def n_def Let_def)
  have "length msg + n = 16 * (length msg div 16 + 1)"
    unfolding n_def by presburger
  then have "16 dvd length msg + n"
    by (metis dvd_triv_left)
  then show "16 dvd length (demo_pad msg)" by (simp add: pad)
  show "length msg < length (demo_pad msg)" "length (demo_pad msg) \<le> length msg + 16"
    using n by (simp_all add: pad)
  have "unat (of_nat n :: byte) = n"
    using n by (simp add: unat_of_nat)
  with n have "last (demo_pad msg) = of_nat n" "unat (last (demo_pad msg)) = n"
    by (simp_all add: pad)
  with n show "demo_unpad (demo_pad msg) = Some msg"
    by (simp add: demo_unpad_def Let_def) (simp add: pad)
qed

lemma demo_suite_laws: "cipher_laws demo_suite"
proof -
  have "(b XOR k) XOR k = b" for b k :: byte
    by (simp add: xor.assoc)
  then show ?thesis
    by (simp add: cipher_laws_def demo_suite_def demo_pad_laws comp_def)
qed

end
