(* ===== verification/Camera_Proto.thy ===== *)
theory Camera_Proto
  imports Pprpc_Stream Crypto Protobuf
begin

text \<open>
  The pure half of \<open>ino_a9_bridge/src/wificam_bridge/camera.py\<close>: protobuf field encoders and
  readers, the request and response payloads, packing and decrypting RPCs and the audio payload
  extractor. The reassembler and the client are in their own theories.
\<close>

section \<open>Constants\<close>

definition LAN_AUTH_COMMAND :: nat where "LAN_AUTH_COMMAND = 2650"
definition SYNC_COMMAND :: nat where "SYNC_COMMAND = 106"
definition TIME_SYNC_COMMAND :: nat where "TIME_SYNC_COMMAND = 107"
definition VIDEO_START_COMMAND :: nat where "VIDEO_START_COMMAND = 2610"
definition AUDIO_START_COMMAND :: nat where "AUDIO_START_COMMAND = 2614"
definition VIDEO_MAX_QOS :: int where "VIDEO_MAX_QOS = 30"
definition AES_256_CBC :: nat where "AES_256_CBC = 3"
definition RPC_REQUEST :: nat where "RPC_REQUEST = 0"
definition RPC_RESPONSE :: nat where "RPC_RESPONSE = 1"
definition MJPEG_FORMAT :: nat where "MJPEG_FORMAT = 4"
definition G711_ALAW_FORMAT :: nat where "G711_ALAW_FORMAT = 21"
definition G711_ALAW_SAMPLE_RATE :: nat where "G711_ALAW_SAMPLE_RATE = 8000"
definition G711_ALAW_TRANSPORT_PREFIX :: bytes where "G711_ALAW_TRANSPORT_PREFIX = [1, 0]"

section \<open>Credentials\<close>

record credentials =
  bootstrap_prefix :: bytes
  user :: string
  lan_password :: string

definition camera_credentials :: "bytes \<Rightarrow> string \<Rightarrow> string \<Rightarrow> credentials result" where
  "camera_credentials pfx usr pwd =
     (if pfx = [] then Inl (ValueError ''bootstrap_prefix must not be empty'')
      else if usr = [] then Inl (ValueError ''user must not be empty'')
      else if pwd = [] then Inl (ValueError ''lan_password must not be empty'')
      else Inr \<lparr>bootstrap_prefix = pfx, user = usr, lan_password = pwd\<rparr>)"

section \<open>Protobuf fields\<close>

definition encode_protobuf_varint :: "int \<Rightarrow> int \<Rightarrow> bytes result" where
  "encode_protobuf_varint field_number v =
     (if field_number \<le> 0 then Inl (ValueError ''protobuf field number must be positive'')
      else
        bind (encode_varint (push_bit 3 field_number)) (\<lambda>tag.
        bind (encode_varint (v AND (push_bit 64 1 - 1))) (\<lambda>body. Inr (tag @ body))))"

definition encode_protobuf_bytes :: "int \<Rightarrow> bytes \<Rightarrow> bytes result" where
  "encode_protobuf_bytes field_number v =
     (if field_number \<le> 0 then Inl (ValueError ''protobuf field number must be positive'')
      else
        bind (encode_varint (push_bit 3 field_number OR 2)) (\<lambda>tag.
        bind (encode_varint (int (length v))) (\<lambda>len. Inr (tag @ len @ v))))"

text \<open>\<open>camera._decode_varint\<close>: the loop over \<open>range(0, 70, 7)\<close>, with its own exception class.\<close>

fun camera_varint_loop :: "bytes \<Rightarrow> nat \<Rightarrow> nat \<Rightarrow> nat list \<Rightarrow> (nat \<times> nat) result" where
  "camera_varint_loop data offset value [] = Inl (CameraError ''oversized protobuf varint'')"
| "camera_varint_loop data offset value (shift # shifts) =
     (if length data \<le> offset then Inl (CameraError ''truncated protobuf varint'')
      else
        let byte = data ! offset;
            value' = value OR push_bit shift (unat (byte AND 0x7F))
        in if byte < 0x80 then Inr (value', Suc offset)
           else camera_varint_loop data (Suc offset) value' shifts)"

definition camera_decode_varint :: "bytes \<Rightarrow> nat \<Rightarrow> (nat \<times> nat) result" where
  "camera_decode_varint data offset =
     camera_varint_loop data offset 0 (map (\<lambda>i. 7 * i) [0..<10])"

text \<open>It is the decoder of \<open>pprpc.py\<close> with ten bytes, under another exception class.\<close>

fun camera_varint_error :: "exn \<Rightarrow> exn" where
  "camera_varint_error e =
     (if e = PacketError ''truncated varint'' then CameraError ''truncated protobuf varint''
      else CameraError ''oversized protobuf varint'')"

lemma camera_varint_loop_eq:
  "camera_varint_loop data offset v (map (\<lambda>i. 7 * i) [index..<index + left]) =
     map_exn camera_varint_error (decode_varint_loop data offset v index left)"
proof (induction left arbitrary: offset v index)
  case 0
  then show ?case by simp
next
  case (Suc left)
  have "[index..<index + Suc left] = index # [Suc index..<Suc index + left]"
    by (simp add: upt_rec)
  with Suc [of "Suc offset" _ "Suc index"] show ?case
    by (simp add: decode_varint_loop.simps(2) Let_def del: upt_Suc)
qed

lemma camera_decode_varint_conv:
  "camera_decode_varint data offset =
     map_exn camera_varint_error (decode_varint data offset MAX_VARINT_BYTES)"
  using camera_varint_loop_eq [of data offset 0 0 10]
  by (simp add: camera_decode_varint_def decode_varint_def MAX_VARINT_BYTES_def)

text \<open>
  The two varint decoders of the program agree: at every offset of every input the one of
  \<open>camera.py\<close> returns exactly what the one of \<open>pprpc.py\<close> returns with its default of ten bytes,
  and it raises \<open>CameraError\<close> exactly where the other raises \<open>PacketError\<close>, for the same reason.
\<close>

theorem camera_decode_varint_equivalent:
  "(camera_decode_varint data offset = Inr r \<longleftrightarrow> decode_varint data offset MAX_VARINT_BYTES = Inr r) \<and>
   (camera_decode_varint data offset = Inl (CameraError ''truncated protobuf varint'') \<longleftrightarrow>
      decode_varint data offset MAX_VARINT_BYTES = Inl (PacketError ''truncated varint'')) \<and>
   (camera_decode_varint data offset = Inl (CameraError ''oversized protobuf varint'') \<longleftrightarrow>
      decode_varint data offset MAX_VARINT_BYTES =
        Inl (PacketError ''varint exceeds supported size''))"
  unfolding camera_decode_varint_conv
  using decode_varint_error [of data offset MAX_VARINT_BYTES]
  by (cases "decode_varint data offset MAX_VARINT_BYTES") auto

text \<open>\<open>_first_varint_field\<close> and \<open>_first_bytes_field\<close>.\<close>

lemma camera_decode_varint_progress:
  "camera_decode_varint data offset = Inr (v, offset') \<Longrightarrow> offset < offset' \<and> offset' \<le> length data"
  unfolding camera_decode_varint_conv map_exn_Inr_iff
  by (auto dest: decode_varint_range)

text \<open>Hence it is an instance of the codec interface too.\<close>

interpretation cam: prefix_codec varint camera_decode_varint "\<lambda>n. n < 2 ^ 70"
proof unfold_locales
  fix v pre post
  assume "v < (2 :: nat) ^ 70"
  then show "camera_decode_varint (pre @ varint v @ post) (length pre) =
      Inr (v, length pre + length (varint v))"
    unfolding camera_decode_varint_conv map_exn_Inr_iff by (rule v10.dec_enc)
qed (rule camera_decode_varint_progress)

function first_varint_loop :: "bytes \<Rightarrow> nat \<Rightarrow> nat \<Rightarrow> nat result" where
  "first_varint_loop payload field_number offset =
     (if offset < length payload
      then
        bind (camera_decode_varint payload offset) (\<lambda>(tag, offset).
        let number = drop_bit 3 tag; wire = tag AND 7 in
        if wire \<noteq> 0 then Inl (CameraError ''unexpected protobuf wire type'')
        else
          bind (camera_decode_varint payload offset) (\<lambda>(v, offset).
            if number = field_number then Inr v else first_varint_loop payload field_number offset))
      else Inl (CameraError (concat [''protobuf field '', show_nat field_number, '' is missing''])))"
  by pat_completeness auto
termination
  by (relation "measure (\<lambda>(payload, field_number, offset). length payload - offset)")
    (auto dest!: camera_decode_varint_progress)

declare first_varint_loop.simps [simp del]

definition first_varint_field :: "bytes \<Rightarrow> nat \<Rightarrow> nat result" where
  "first_varint_field payload field_number = first_varint_loop payload field_number 0"

function first_bytes_loop :: "bytes \<Rightarrow> nat \<Rightarrow> nat \<Rightarrow> bytes result" where
  "first_bytes_loop payload field_number offset =
     (if offset < length payload
      then
        bind (camera_decode_varint payload offset) (\<lambda>(tag, offset).
        let number = drop_bit 3 tag; wire = tag AND 7 in
        if wire \<noteq> 2 then Inl (CameraError ''unexpected protobuf wire type'')
        else
          bind (camera_decode_varint payload offset) (\<lambda>(len, offset).
          let end = offset + len in
            if length payload < end then Inl (CameraError ''truncated protobuf field'')
            else if number = field_number then Inr (take (end - offset) (drop offset payload))
            else first_bytes_loop payload field_number end))
      else Inl (CameraError (concat [''protobuf field '', show_nat field_number, '' is missing''])))"
  by pat_completeness auto
termination
  by (relation "measure (\<lambda>(payload, field_number, offset). length payload - offset)")
    (auto dest!: camera_decode_varint_progress)

declare first_bytes_loop.simps [simp del]

definition first_bytes_field :: "bytes \<Rightarrow> nat \<Rightarrow> bytes result" where
  "first_bytes_field payload field_number = first_bytes_loop payload field_number 0"

section \<open>Payloads\<close>

definition build_lan_auth_request :: "credentials \<Rightarrow> bytes result" where
  "build_lan_auth_request c =
     bind (encode_protobuf_bytes 2 (str_encode (user c))) (\<lambda>f2.
     bind (encode_protobuf_bytes 3 (str_encode (lan_password c))) (\<lambda>f3. Inr (f2 @ f3)))"

text \<open>\<open>wall_ms\<close> is \<open>int(time.time() * 1000)\<close>, read when no \<open>now_ms\<close> is given.\<close>

definition build_time_sync_response :: "bytes \<Rightarrow> int option \<Rightarrow> int \<Rightarrow> bytes result" where
  "build_time_sync_response request_payload now_ms wall_ms =
     bind (first_varint_field request_payload 1) (\<lambda>request_timestamp.
     let current = (case now_ms of None \<Rightarrow> wall_ms | Some n \<Rightarrow> n) in
     bind (encode_protobuf_varint 1 (int request_timestamp)) (\<lambda>f1.
     bind (encode_protobuf_varint 2 (- 30)) (\<lambda>f2.
     bind (encode_protobuf_varint 3 current) (\<lambda>f3. Inr (f1 @ f2 @ f3)))))"

text \<open>Both arguments may be any object; \<open>JNull\<close> is \<open>None\<close>.\<close>

fun is_nonneg_int :: "json \<Rightarrow> bool" where
  "is_nonneg_int (JInt i) \<longleftrightarrow> 0 \<le> i"
| "is_nonneg_int _ \<longleftrightarrow> False"

fun the_int :: "json \<Rightarrow> int" where
  "the_int (JInt i) = i"
| "the_int _ = 0"

definition build_time_request_payload :: "json \<Rightarrow> json \<Rightarrow> bytes result" where
  "build_time_request_payload now_ms ans_seq =
     (if \<not> is_nonneg_int now_ms
        then Inl (ValueError ''now_ms must be a non-negative integer'')
      else if ans_seq \<noteq> JNull \<and> \<not> is_nonneg_int ans_seq
        then Inl (ValueError ''ans_seq must be a non-negative integer'')
      else
        bind (encode_protobuf_varint 1 (the_int now_ms)) (\<lambda>payload.
          if ans_seq \<noteq> JNull
            then bind (encode_protobuf_varint 4 (the_int ans_seq)) (\<lambda>f4. Inr (payload @ f4))
          else Inr payload))"

section \<open>Encrypted RPCs\<close>

definition pack_rpc :: "cipher_suite \<Rightarrow> nat \<Rightarrow> nat \<Rightarrow> bytes \<Rightarrow> bytes \<Rightarrow> nat \<Rightarrow> nat \<Rightarrow> bytes result" where
  "pack_rpc cs sequence command_id plaintext pfx rpc_type response_code =
     (if rpc_type \<noteq> RPC_REQUEST \<and> rpc_type \<noteq> RPC_RESPONSE
        then Inl (ValueError ''rpc_type must be request (0) or response (1)'')
      else
        bind (if plaintext \<noteq> []
              then let key = derive_rpc_key (BytesPrefix pfx) sequence command_id rpc_type
                   in aes_cbc_encrypt_padded cs plaintext key (take 16 key)
              else Inr []) (\<lambda>payload.
        bind (encode_varint (int sequence)) (\<lambda>seq_bytes.
        bind (encode_varint (int command_id)) (\<lambda>command_bytes.
        let body = seq_bytes @ command_bytes @ [of_nat (push_bit 2 AES_256_CBC OR rpc_type)] in
        bind (if rpc_type = RPC_RESPONSE
              then bind (encode_varint (int response_code)) (\<lambda>code. Inr (body @ code))
              else Inr body) (\<lambda>body.
        let body = body @ payload in
        bind (encode_varint (int (length body))) (\<lambda>len. Inr ([0x48] @ len @ body)))))))"

definition decrypt_rpc_payload :: "cipher_suite \<Rightarrow> rpc_packet \<Rightarrow> bytes \<Rightarrow> bytes result" where
  "decrypt_rpc_payload cs p pfx =
     (if rpc_payload p = [] then Inr []
      else if rpc_encryption_type p \<noteq> AES_256_CBC
        then Inl (CameraError (''unsupported RPC encryption type '' @ show_nat (rpc_encryption_type p)))
      else
        let key = derive_rpc_key (BytesPrefix pfx) (rpc_sequence p) (rpc_command_id p) (rpc_rpc_type p)
        in aes_cbc_decrypt_padded cs (rpc_payload p) key (take 16 key))"

section \<open>Audio\<close>

definition extract_g711_alaw_payload :: "av_packet \<Rightarrow> bytes option" where
  "extract_g711_alaw_payload p =
     (if av_media_format p \<noteq> G711_ALAW_FORMAT \<or> av_channel p \<noteq> 0 \<or> av_encryption_type p \<noteq> 0 \<or>
         \<not> prefix G711_ALAW_TRANSPORT_PREFIX (av_payload p)
      then None
      else
        let payload = drop (length G711_ALAW_TRANSPORT_PREFIX) (av_payload p) in
        if payload = [] then None else Some payload)"

end
