(* ===== verification/Camera_Proto_Correct.thy ===== *)
theory Camera_Proto_Correct
  imports Camera_Proto
begin

text \<open>
  Correctness of the payload builders, readers and RPC packing of \<open>camera.py\<close>: what each builder
  writes, as an abstract message, and that the program's own readers and packet parser get it back.
\<close>

section \<open>Field encoders\<close>

lemma and_mask_64: "(v :: int) AND (push_bit 64 1 - 1) = v mod 2 ^ 64"
proof -
  have "(push_bit 64 1 - 1 :: int) = mask 64"
    by (simp add: mask_eq_exp_minus_1)
  then have "v AND (push_bit 64 1 - 1) = take_bit 64 v"
    by (simp only: take_bit_eq_mask)
  then show ?thesis by (simp only: take_bit_eq_mod)
qed

lemmas and_mask_64_numeral = and_mask_64 [simplified]

lemma encode_protobuf_varint_field:
  assumes "0 < n"
  shows "encode_protobuf_varint n v = Inr (encode_field (VarintF (nat n) (nat (v mod 2 ^ 64))))"
  using assms
  by (simp add: encode_protobuf_varint_def and_mask_64_numeral encode_field_def field_tag_def
      push_bit_eq_mult mult.commute)

lemma encode_protobuf_bytes_field:
  "encode_protobuf_bytes 2 b = Inr (encode_field (BytesF 2 b))"
  "encode_protobuf_bytes 3 b = Inr (encode_field (BytesF 3 b))"
  by (simp_all add: encode_protobuf_bytes_def encode_field_def field_tag_def)

section \<open>Field readers\<close>

text \<open>Messages of varint fields only, and of length-delimited fields only.\<close>

definition varint_message :: "(nat \<times> nat) list \<Rightarrow> bytes" where
  "varint_message kvs = encode_message (map (\<lambda>(n, v). VarintF n v) kvs)"

definition bytes_message :: "(nat \<times> bytes) list \<Rightarrow> bytes" where
  "bytes_message kvs = encode_message (map (\<lambda>(n, b). BytesF n b) kvs)"

definition field_missing :: "nat \<Rightarrow> exn" where
  "field_missing k = CameraError (concat [''protobuf field '', show_nat k, '' is missing''])"

definition lookup_result :: "(nat \<times> 'v) list \<Rightarrow> nat \<Rightarrow> 'v result" where
  "lookup_result kvs k = (case map_of kvs k of None \<Rightarrow> Inl (field_missing k) | Some v \<Rightarrow> Inr v)"

lemma first_varint_loop_message:
  assumes "drop off payload = varint_message kvs"
    and "\<forall>(n, v) \<in> set kvs. field_wf (VarintF n v)"
  shows "first_varint_loop payload k off = lookup_result kvs k"
  using assms
proof (induction kvs arbitrary: off)
  case Nil
  then show ?case
    by (simp add: first_varint_loop.simps varint_message_def lookup_result_def field_missing_def)
next
  case (Cons kv kvs)
  obtain n v where kv: "kv = (n, v)" by (cases kv)
  let ?tag = "field_tag (VarintF n v)"
  have d: "drop off payload = varint ?tag @ varint v @ varint_message kvs"
    using Cons.prems(1) by (simp add: kv varint_message_def encode_field_def)
  have wf: "field_wf (VarintF n v)"
    using Cons.prems(2) kv by auto
  have "off < length payload"
    using d varint_nonempty [of ?tag] by (metis append_is_Nil_conv drop_eq_Nil not_le)
  moreover have "camera_decode_varint payload off = Inr (?tag, off + length (varint ?tag))"
    by (rule cam.dec_at [OF field_wf_tag [OF wf] d])
  moreover note d' = cam.drop_after [OF d]
  then have "camera_decode_varint payload (off + length (varint ?tag)) =
      Inr (v, off + length (varint ?tag) + length (varint v))"
    using wf by (intro cam.dec_at) auto
  moreover have "first_varint_loop payload k (off + length (varint ?tag) + length (varint v)) =
      lookup_result kvs k"
    using Cons.prems(2) by (intro Cons.IH cam.drop_after [OF d']) simp
  ultimately show ?case
    by (simp add: first_varint_loop.simps [of payload k off] kv lookup_result_def Let_def)
qed

lemma first_varint_field_message:
  "\<forall>(n, v) \<in> set kvs. field_wf (VarintF n v) \<Longrightarrow>
     first_varint_field (varint_message kvs) k = lookup_result kvs k"
  by (simp add: first_varint_field_def first_varint_loop_message)

lemma first_bytes_loop_message:
  assumes "drop off payload = bytes_message kvs"
    and "\<forall>(n, b) \<in> set kvs. field_wf (BytesF n b)"
  shows "first_bytes_loop payload k off = lookup_result kvs k"
  using assms
proof (induction kvs arbitrary: off)
  case Nil
  then show ?case
    by (simp add: first_bytes_loop.simps bytes_message_def lookup_result_def field_missing_def)
next
  case (Cons kv kvs)
  obtain n b where kv: "kv = (n, b)" by (cases kv)
  let ?tag = "field_tag (BytesF n b)" and ?len = "varint (length b)"
  let ?o1 = "off + length (varint ?tag)"
  let ?o2 = "?o1 + length ?len"
  have d: "drop off payload = varint ?tag @ ?len @ b @ bytes_message kvs"
    using Cons.prems(1) by (simp add: kv bytes_message_def encode_field_def)
  have wf: "field_wf (BytesF n b)"
    using Cons.prems(2) kv by auto
  have off: "off < length payload"
    using d varint_nonempty [of ?tag] by (metis append_is_Nil_conv drop_eq_Nil not_le)
  have tag: "camera_decode_varint payload off = Inr (?tag, ?o1)"
    by (rule cam.dec_at [OF field_wf_tag [OF wf] d])
  note d1 = cam.drop_after [OF d]
  have len: "camera_decode_varint payload ?o1 = Inr (length b, ?o2)"
    using wf d1 by (intro cam.dec_at) auto
  note d2 = cam.drop_after [OF d1]
  have "length payload - off = length (varint ?tag) + length ?len + length b + length (bytes_message kvs)"
    using arg_cong [OF d, of length] by simp
  with off have fits: "\<not> length payload < ?o2 + length b" by simp
  have "drop (?o2 + length b) payload = drop (length b) (drop ?o2 payload)"
    by (simp add: ac_simps)
  then have rest: "drop (?o2 + length b) payload = bytes_message kvs"
    by (simp add: d2)
  have "first_bytes_loop payload k (?o2 + length b) = lookup_result kvs k"
    using Cons.prems(2) by (intro Cons.IH rest) simp
  with off tag len fits d2 show ?case
    by (cases "n = k") (simp_all add: first_bytes_loop.simps [of payload k off] kv lookup_result_def Let_def)
qed

lemma first_bytes_field_message:
  "\<forall>(n, b) \<in> set kvs. field_wf (BytesF n b) \<Longrightarrow>
     first_bytes_field (bytes_message kvs) k = lookup_result kvs k"
  by (simp add: first_bytes_field_def first_bytes_loop_message)

section \<open>Authentication and time synchronisation\<close>

text \<open>
  The authentication request carries the user in field 2 and the LAN password in field 3,
  unchanged, as the program's own field reader finds them.
\<close>

theorem lan_auth_request_fields:
  assumes "length (user c) < 2 ^ 70" and "length (lan_password c) < 2 ^ 70"
  shows "\<exists>req. build_lan_auth_request c = Inr req \<and>
    first_bytes_field req 2 = Inr (str_encode (user c)) \<and>
    first_bytes_field req 3 = Inr (str_encode (lan_password c))"
proof -
  let ?kvs = "[(2, str_encode (user c)), (3, str_encode (lan_password c))]"
  have "build_lan_auth_request c = Inr (bytes_message ?kvs)"
    by (simp add: build_lan_auth_request_def encode_protobuf_bytes_field bytes_message_def)
  moreover have "first_bytes_field (bytes_message ?kvs) k = lookup_result ?kvs k" for k
    using assms by (intro first_bytes_field_message) simp
  ultimately show ?thesis
    by (simp add: lookup_result_def)
qed

definition demo_credentials :: credentials where
  "demo_credentials = \<lparr>bootstrap_prefix = [1], user = ''user'', lan_password = ''$LS$token''\<rparr>"

theorem lan_auth_request_fields_witness:
  "\<exists>req. build_lan_auth_request demo_credentials = Inr req \<and>
     first_bytes_field req 2 = Inr (str_encode ''user'')"
  using lan_auth_request_fields [of demo_credentials] by (auto simp: demo_credentials_def)

lemma nat_mod_64: "nat (v mod 2 ^ 64) < 2 ^ 64"
  by (simp add: nat_less_iff)

text \<open>
  The answer to a time-sync request echoes the request's field 1 (as a 64-bit pattern), sends
  -30 in two's complement in field 2 and the current time in field 3; a request without field 1, or
  with another wire type before it, is refused with the reader's \<open>CameraError\<close>.
\<close>

theorem time_sync_response_fields:
  "build_time_sync_response request now_ms wall_ms =
     bind (first_varint_field request 1) (\<lambda>ts.
       Inr (varint_message [(1, ts mod 2 ^ 64), (2, 2 ^ 64 - 30),
             (3, nat ((case now_ms of None \<Rightarrow> wall_ms | Some n \<Rightarrow> n) mod 2 ^ 64))])) \<and>
   (\<forall>response. build_time_sync_response request now_ms wall_ms = Inr response \<longrightarrow>
      map (first_varint_field response) [2, 3] =
        [Inr (2 ^ 64 - 30), Inr (nat ((case now_ms of None \<Rightarrow> wall_ms | Some n \<Rightarrow> n) mod 2 ^ 64))] \<and>
      first_varint_field response 1 = bind (first_varint_field request 1) (\<lambda>ts. Inr (ts mod 2 ^ 64)))"
proof -
  let ?now = "case now_ms of None \<Rightarrow> wall_ms | Some n \<Rightarrow> n"
  let ?kvs = "\<lambda>ts. [(1, ts mod 2 ^ 64), (2, 2 ^ 64 - 30), (3, nat (?now mod 2 ^ 64))]"
  have ts: "nat (int ts mod 2 ^ 64) = ts mod 2 ^ 64" for ts
    by (simp add: nat_mod_distrib)
  have resp: "build_time_sync_response request now_ms wall_ms =
      bind (first_varint_field request 1) (\<lambda>ts. Inr (varint_message (?kvs ts)))"
    by (simp add: build_time_sync_response_def encode_protobuf_varint_field varint_message_def
        ts [simplified])
  have fields: "first_varint_field (varint_message (?kvs ts)) k = lookup_result (?kvs ts) k" for ts k
  proof (rule first_varint_field_message)
    have "nat (?now mod 2 ^ 64) < 2 ^ 70" "ts mod 2 ^ 64 < 2 ^ 70"
      by (rule less_le_trans [OF nat_mod_64], simp) (rule less_le_trans [OF mod_less_divisor], simp_all)
    then show "\<forall>(n, v) \<in> set (?kvs ts). field_wf (VarintF n v)"
      by simp
  qed
  show ?thesis
  proof (cases "first_varint_field request 1")
    case (Inl e)
    then show ?thesis by (simp add: resp)
  next
    case (Inr ts)
    then show ?thesis
      using fields [of ts 1] fields [of ts 2] fields [of ts 3]
      by (simp add: resp lookup_result_def)
  qed
qed

lemma time_sync_response_fields_witness:
  "\<exists>response. build_time_sync_response (varint_message [(1, 5)]) (Some 1000) 0 = Inr response \<and>
     map (first_varint_field response) [2, 3] = [Inr (2 ^ 64 - 30), Inr 1000] \<and>
     first_varint_field response 1 = Inr 5"
proof -
  have "first_varint_field (varint_message [(1, 5)]) 1 = lookup_result [(1, 5)] 1"
    by (rule first_varint_field_message) simp
  then have "first_varint_field (varint_message [(1, 5)]) 1 = Inr 5"
    by (simp add: lookup_result_def)
  then show ?thesis
    using time_sync_response_fields [of "varint_message [(1, 5)]" "Some 1000" 0] by simp
qed

section \<open>Packing and unpacking RPCs\<close>

definition rpc_body :: "nat \<Rightarrow> nat \<Rightarrow> nat \<Rightarrow> nat \<Rightarrow> bytes \<Rightarrow> bytes" where
  "rpc_body sequence command_id rpc_type code payload =
     varint sequence @ varint command_id @ [of_nat (push_bit 2 3 OR rpc_type)] @
     (if rpc_type = 1 then varint code else []) @ payload"

definition rpc_frame :: "bytes \<Rightarrow> bytes" where
  "rpc_frame body = 0x48 # varint (length body) @ body"

lemma pack_rpc_frame:
  assumes "t = 0 \<or> t = 1"
  shows "pack_rpc cs s c plaintext pfx t code =
    bind (if plaintext \<noteq> []
          then let key = derive_rpc_key (BytesPrefix pfx) s c t
               in aes_cbc_encrypt_padded cs plaintext key (take 16 key)
          else Inr []) (\<lambda>payload. Inr (rpc_frame (rpc_body s c t code payload)))"
  using assms
  by (auto simp: pack_rpc_def RPC_REQUEST_def RPC_RESPONSE_def AES_256_CBC_def Let_def
      rpc_frame_def rpc_body_def ac_simps)

lemma rpc_flags:
  assumes "t = 0 \<or> t = 1"
  shows "unat (drop_bit 2 (of_nat (push_bit 2 3 OR t) :: byte)) = 3"
    and "unat (of_nat (push_bit 2 3 OR t) AND 0x03 :: byte) = t"
  using assms by auto

lemma parse_rpc_body:
  assumes s: "s < 2 ^ 28" and c: "c < 2 ^ 28" and code: "code < 2 ^ 28" and t: "t = 0 \<or> t = 1"
  shows "parse_rpc h (rpc_body s c t code payload) =
    Inr \<lparr>rpc_header = h, rpc_sequence = s, rpc_command_id = c, rpc_encryption_type = 3,
         rpc_rpc_type = t, rpc_response_code = (if t = 1 then Some code else None),
         rpc_payload = payload\<rparr>"
proof -
  let ?flag = "of_nat (push_bit 2 3 OR t) :: byte"
  let ?body = "rpc_body s c t code payload"
  let ?tail = "(if t = 1 then varint code else []) @ payload"
  let ?o1 = "length (varint s)" and ?o2 = "length (varint s) + length (varint c)"
  have b: "?body = varint s @ varint c @ ?flag # ?tail"
    by (simp add: rpc_body_def)
  have 1: "decode_varint ?body 0 4 = Inr (s, ?o1)"
    using v4.dec_enc [OF s, of "[]"] by (simp add: b)
  have 2: "decode_varint ?body ?o1 4 = Inr (c, ?o2)"
    using v4.dec_enc [OF c, of "varint s"] by (simp add: b)
  have flag: "?body ! ?o2 = ?flag" "?o2 < length ?body"
    by (simp_all add: b nth_append)
  have tail: "drop (Suc ?o2) ?body = ?tail"
    by (simp add: b)
  show ?thesis
  proof (cases "t = 1")
    case False
    with t have "t = 0" by simp
    with 1 2 flag tail rpc_flags [OF t] show ?thesis
      by (simp add: parse_rpc_def Let_def del: of_nat_add)
  next
    case True
    have "decode_varint ?body (Suc ?o2) 4 = Inr (code, Suc ?o2 + length (varint code))"
      using tail True by (intro v4.dec_at [OF code]) simp
    moreover have "drop (Suc ?o2 + length (varint code)) ?body = payload"
      using tail True by (intro v4.drop_after) simp
    ultimately show ?thesis
      using True 1 2 flag rpc_flags [OF t] by (simp add: parse_rpc_def Let_def)
  qed
qed

lemma parse_fixed_header_frame:
  assumes "length body < 2 ^ 28"
  shows "parse_fixed_header (rpc_frame body @ rest) (Some False) =
    Inr (\<lparr>fh_message_type = 4, fh_flag = 8, fh_length = length body, fh_is_udp = False,
          fh_size = 1 + length (varint (length body))\<rparr>, 1 + length (varint (length body)))"
proof -
  have "decode_varint (rpc_frame body @ rest) 1 4 = Inr (length body, 1 + length (varint (length body)))"
    using v4.dec_enc [OF assms, of "[0x48]" "body @ rest"] by (simp add: rpc_frame_def)
  moreover have "(rpc_frame body @ rest) ! 0 = 0x48" "rpc_frame body @ rest \<noteq> []"
    by (simp_all add: rpc_frame_def)
  ultimately show ?thesis
    by (simp add: parse_fixed_header_tcp Let_def)
qed

lemma length_rpc_frame: "length (rpc_frame body) = 1 + length (varint (length body)) + length body"
  by (simp add: rpc_frame_def)

lemma parse_packet_frame:
  assumes "length body < 2 ^ 28"
    and "parse_rpc \<lparr>fh_message_type = 4, fh_flag = 8, fh_length = length body, fh_is_udp = False,
          fh_size = 1 + length (varint (length body))\<rparr> body = Inr p"
  shows "parse_packet (rpc_frame body) (Some False) True = Inr (RPC p)"
    and "tcp_frame (rpc_frame body @ rest) = Frame (RPC p) (length (rpc_frame body))"
proof -
  have "drop (1 + length (varint (length body))) (rpc_frame body) = body"
    by (simp add: rpc_frame_def)
  with assms(2) show p: "parse_packet (rpc_frame body) (Some False) True = Inr (RPC p)"
    using parse_fixed_header_frame [OF assms(1), of "[]"]
    by (simp add: parse_packet_def length_rpc_frame Let_def)
  have "length (rpc_frame body @ rest) \<ge> 1 + length (varint (length body)) + length body"
    by (simp add: length_rpc_frame)
  with p show "tcp_frame (rpc_frame body @ rest) = Frame (RPC p) (length (rpc_frame body))"
    using parse_fixed_header_frame [OF assms(1), of rest]
    by (simp add: tcp_frame_def Let_def length_rpc_frame)
qed

lemma length_varint_4: "n < 2 ^ 28 \<Longrightarrow> length (varint n) \<le> 4"
  using length_varint_le [of n 3] by simp

text \<open>
  C29. What \<open>pack_rpc\<close> writes, the TCP splitter reads: the bytes are cut off the front of any stream
  as one RPC packet with the sequence, command, type and response code given, and decrypting its
  payload with the same prefix returns the plaintext (an empty plaintext travels unencrypted).
\<close>

theorem rpc_round_trip:
  assumes "cipher_laws cs" and "s < 2 ^ 28" and "c < 2 ^ 28" and "code < 2 ^ 28"
    and "t = 0 \<or> t = 1" and "length plaintext < 2 ^ 27"
  shows "\<exists>raw p. pack_rpc cs s c plaintext pfx t code = Inr raw \<and>
    (\<forall>rest. iter_tcp_packets (raw @ rest) =
       bind (iter_tcp_packets rest) (\<lambda>(ps, r). Inr (RPC p # ps, r))) \<and>
    (rpc_sequence p, rpc_command_id p, rpc_rpc_type p) = (s, c, t) \<and>
    rpc_response_code p = (if t = 1 then Some code else None) \<and>
    decrypt_rpc_payload cs p pfx = Inr plaintext"
proof -
  let ?key = "derive_rpc_key (BytesPrefix pfx) s c t"
  have valid: "validate ?key (take 16 ?key) = Inr ()" by simp
  from encrypt_padded_ok [OF assms(1) valid, of plaintext] obtain e where
    enc: "aes_cbc_encrypt_padded cs plaintext ?key (take 16 ?key) = Inr e"
    and dec: "aes_cbc_decrypt_padded cs e ?key (take 16 ?key) = Inr plaintext"
    and len: "length plaintext < length e" "length e \<le> length plaintext + 16"
    by blast
  define payload where "payload = (if plaintext \<noteq> [] then e else [])"
  define body where "body = rpc_body s c t code payload"
  have pack: "pack_rpc cs s c plaintext pfx t code = Inr (rpc_frame body)"
    using enc by (simp add: pack_rpc_frame [OF assms(5)] payload_def body_def Let_def)
  have "length payload \<le> 2 ^ 27 + 16"
    using len assms(6) by (simp add: payload_def)
  then have "length body < 2 ^ 28"
    using length_varint_4 [OF assms(2)] length_varint_4 [OF assms(3)] length_varint_4 [OF assms(4)]
    by (simp add: body_def rpc_body_def)
  note frame = parse_packet_frame [OF this parse_rpc_body
      [OF assms(2,3,4,5), of _ payload, folded body_def]]
  let ?p = "\<lparr>rpc_header = \<lparr>fh_message_type = 4, fh_flag = 8, fh_length = length body,
      fh_is_udp = False, fh_size = 1 + length (varint (length body))\<rparr>,
      rpc_sequence = s, rpc_command_id = c, rpc_encryption_type = 3, rpc_rpc_type = t,
      rpc_response_code = (if t = 1 then Some code else None), rpc_payload = payload\<rparr>"
  have "decrypt_rpc_payload cs ?p pfx = Inr plaintext"
    using dec len by (auto simp: decrypt_rpc_payload_def payload_def AES_256_CBC_def Let_def)
  moreover have "iter_tcp_packets (rpc_frame body @ rest) =
      bind (iter_tcp_packets rest) (\<lambda>(ps, r). Inr (RPC ?p # ps, r))" for rest
    using tcp.split_simps(3) [OF frame(2), of rest] by simp
  ultimately show ?thesis
    using pack by (intro exI [of _ "rpc_frame body"] exI [of _ ?p]) simp
qed

theorem rpc_round_trip_witness:
  "\<exists>raw p. pack_rpc demo_suite 4 106 [8, 1] [1, 2] 0 0 = Inr raw \<and>
     decrypt_rpc_payload demo_suite p [1, 2] = Inr [8, 1]"
  using rpc_round_trip [OF demo_suite_laws, of 4 106 0 0 "[8, 1]" "[1, 2]"] by auto

end
