(* ===== verification/Interleaving.thy ===== *)
theory Interleaving
  imports Prelude
begin

text \<open>
  The interface of a component that serves many independent flows through one state: each input
  belongs to one key, a step reads and writes only what the state holds for that key, and what it
  does there is a local machine. Whatever order the flows are interleaved in, each of them behaves
  as if it were alone.
\<close>

text \<open>The outputs of a run, each with its key, and the state it ends in.\<close>

fun run_keyed :: "('s \<Rightarrow> 'p \<Rightarrow> 'o \<times> 's) \<Rightarrow> ('p \<Rightarrow> 'k) \<Rightarrow> 's \<Rightarrow> 'p list \<Rightarrow> ('k \<times> 'o) list \<times> 's" where
  "run_keyed step key s [] = ([], s)"
| "run_keyed step key s (p # ps) =
     (case step s p of (out, s') \<Rightarrow>
        (case run_keyed step key s' ps of (outs, s'') \<Rightarrow> ((key p, out) # outs, s'')))"

fun run_local :: "('v \<Rightarrow> 'p \<Rightarrow> 'o \<times> 'v) \<Rightarrow> 'v \<Rightarrow> 'p list \<Rightarrow> 'o list \<times> 'v" where
  "run_local step v [] = ([], v)"
| "run_local step v (p # ps) =
     (case step v p of (out, v') \<Rightarrow>
        (case run_local step v' ps of (outs, v'') \<Rightarrow> (out # outs, v'')))"

locale keyed_machine =
  fixes step :: "'s \<Rightarrow> 'p \<Rightarrow> 'o \<times> 's"
    and key :: "'p \<Rightarrow> 'k"
    and view :: "'s \<Rightarrow> 'k \<Rightarrow> 'v"
    and inv :: "'s \<Rightarrow> bool"
    and local_step :: "'v \<Rightarrow> 'p \<Rightarrow> 'o \<times> 'v"
  assumes step_inv: "inv s \<Longrightarrow> inv (snd (step s p))"
    and step_out: "inv s \<Longrightarrow> fst (step s p) = fst (local_step (view s (key p)) p)"
    and step_own: "inv s \<Longrightarrow> view (snd (step s p)) (key p) = snd (local_step (view s (key p)) p)"
    and step_other: "inv s \<Longrightarrow> key p \<noteq> k \<Longrightarrow> view (snd (step s p)) k = view s k"
begin

lemma run_inv: "inv s \<Longrightarrow> inv (snd (run_keyed step key s ps))"
proof (induction ps arbitrary: s)
  case (Cons p ps)
  from Cons.IH [OF step_inv [OF Cons.prems, of p]] show ?case
    by (simp add: case_prod_unfold)
qed simp

lemma run_view:
  "inv s \<Longrightarrow> (map snd (filter (\<lambda>(k', out). k' = k) (fst (run_keyed step key s ps))),
              view (snd (run_keyed step key s ps)) k) =
     run_local local_step (view s k) (filter (\<lambda>p. key p = k) ps)"
proof (induction ps arbitrary: s)
  case Nil
  then show ?case by simp
next
  case (Cons p ps)
  note IH = Cons.IH [OF step_inv [OF Cons.prems, of p]]
  show ?case
  proof (cases "key p = k")
    case True
    with IH step_out [OF Cons.prems, of p] step_own [OF Cons.prems, of p] show ?thesis
      by (auto simp: case_prod_unfold prod_eq_iff)
  next
    case False
    with IH step_other [OF Cons.prems False] show ?thesis
      by (auto simp: case_prod_unfold prod_eq_iff)
  qed
qed

end

end
