(* ===== verification/Reassembler.thy ===== *)
theory Reassembler
  imports Camera_Proto Interleaving
begin

text \<open>
  \<open>MJPEGReassembler\<close> of \<open>ino_a9_bridge/src/wificam_bridge/camera.py\<close>: the state is the four
  dictionaries of the class, keyed by AV sequence number; \<open>push\<close> takes one AV packet and returns a
  complete JPEG, or nothing, or the exception of the cipher, with the new state.
\<close>

record reassembler =
  session_prefix :: bytes
  max_frame_bytes :: nat
  fragments :: "nat \<rightharpoonup> bytes list"
  sizes :: "nat \<rightharpoonup> nat"
  metadata :: "nat \<rightharpoonup> av_packet"
  expected_index :: "nat \<rightharpoonup> nat"

definition mjpeg_reassembler :: "bytes \<Rightarrow> nat \<Rightarrow> reassembler result" where
  "mjpeg_reassembler pfx max_bytes =
     (if length pfx \<noteq> 32 then Inl (ValueError ''AV session prefix must contain 32 bytes'')
      else Inr \<lparr>session_prefix = pfx, max_frame_bytes = max_bytes, fragments = Map.empty,
                sizes = Map.empty, metadata = Map.empty, expected_index = Map.empty\<rparr>)"

text \<open>\<open>_drop\<close>: forget everything about one sequence.\<close>

definition drop_sequence :: "reassembler \<Rightarrow> nat \<Rightarrow> reassembler" where
  "drop_sequence r sequence =
     r\<lparr>fragments := (fragments r)(sequence := None), sizes := (sizes r)(sequence := None),
       metadata := (metadata r)(sequence := None),
       expected_index := (expected_index r)(sequence := None)\<rparr>"

definition SOI :: bytes where "SOI = [0xff, 0xd8]"
definition EOI :: bytes where "EOI = [0xff, 0xd9]"

text \<open>The end of \<open>push\<close>: decrypt the head of the assembled frame and cut the JPEG out of it.\<close>

definition finish_frame :: "cipher_suite \<Rightarrow> bytes \<Rightarrow> av_packet \<Rightarrow> bytes \<Rightarrow> bytes option result" where
  "finish_frame cs pfx meta assembled =
     (let encrypted_length = av_encrypted_length meta in
      if encrypted_length \<le> 0 \<or> length assembled < encrypted_length \<or> encrypted_length mod 16 \<noteq> 0
        then Inr None
      else
        let key = derive_av_key (BytesPrefix pfx) (av_sequence meta) (av_timestamp meta) (av_channel meta) in
        bind (aes_cbc_decrypt_unpadded cs (take encrypted_length assembled) key (drop (length key - 16) key))
          (\<lambda>head.
            let frame = head @ drop encrypted_length assembled in
            if \<not> prefix SOI frame then Inr None
            else
              (case find_from frame EOI 2 of
                 None \<Rightarrow> Inr None
               | Some eoi \<Rightarrow> Inr (Some (take (eoi + 2) frame)))))"

definition push :: "cipher_suite \<Rightarrow> reassembler \<Rightarrow> av_packet \<Rightarrow> bytes option result \<times> reassembler" where
  "push cs r p =
     (if av_media_format p \<noteq> MJPEG_FORMAT \<or> length (av_payload p) < 3 then (Inr None, r)
      else
        let marker = unat (av_payload p ! 0);
            fragment_index = unat (av_payload p ! 1);
            reserved = unat (av_payload p ! 2) in
        if marker \<noteq> 1 \<or> reserved \<noteq> 0 then (Inr None, drop_sequence r (av_sequence p))
        else
          let sequence = av_sequence p;
              r = (if fragment_index = 1
                   then (drop_sequence r sequence)
                          \<lparr>expected_index := (expected_index (drop_sequence r sequence))(sequence \<mapsto> 1)\<rparr>
                   else r)
          in
          (case expected_index r sequence of
             None \<Rightarrow> (Inr None, r)
           | Some expected \<Rightarrow>
               if fragment_index \<noteq> 0xFF \<and> fragment_index \<noteq> expected
                 then (Inr None, drop_sequence r sequence)
               else
                 let fragment = drop 3 (av_payload p);
                     collected = (case fragments r sequence of None \<Rightarrow> [] | Some fs \<Rightarrow> fs) @ [fragment];
                     total = (case sizes r sequence of None \<Rightarrow> 0 | Some n \<Rightarrow> n) + length fragment;
                     r = r\<lparr>fragments := (fragments r)(sequence \<mapsto> collected),
                           sizes := (sizes r)(sequence \<mapsto> total)\<rparr>
                 in
                 if max_frame_bytes r < total then (Inr None, drop_sequence r sequence)
                 else
                   let r = (if av_encrypted_length p \<noteq> 0 \<and> metadata r sequence = None
                            then r\<lparr>metadata := (metadata r)(sequence \<mapsto> p)\<rparr> else r)
                   in
                   if fragment_index \<noteq> 0xFF
                     then (Inr None, r\<lparr>expected_index := (expected_index r)(sequence \<mapsto> expected + 1)\<rparr>)
                   else
                     let meta = metadata r sequence;
                         r = drop_sequence r sequence
                     in
                     (case meta of
                        None \<Rightarrow> (Inr None, r)
                      | Some m \<Rightarrow> (finish_frame cs (session_prefix r) m (concat collected), r))))"

section \<open>Specification: one collection per sequence\<close>

text \<open>
  The contract of the four dictionaries: for each sequence either nothing, or the fragments
  collected so far with the packet that carried the metadata. The index expected next and the
  total size are functions of the fragments.
\<close>

type_synonym collection = "(bytes list \<times> av_packet option) option"

definition total_length :: "bytes list \<Rightarrow> nat" where
  "total_length fs = length (concat fs)"

fun collect :: "cipher_suite \<Rightarrow> bytes \<Rightarrow> nat \<Rightarrow> collection \<Rightarrow> av_packet \<Rightarrow> bytes option result \<times> collection" where
  "collect cs pfx limit c p =
     (if av_media_format p \<noteq> MJPEG_FORMAT \<or> length (av_payload p) < 3 then (Inr None, c)
      else if unat (av_payload p ! 0) \<noteq> 1 \<or> unat (av_payload p ! 2) \<noteq> 0 then (Inr None, None)
      else
        let index = unat (av_payload p ! 1) in
        (case (if index = 1 then Some ([], None) else c) of
           None \<Rightarrow> (Inr None, None)
         | Some (fs, meta) \<Rightarrow>
             if index \<noteq> 255 \<and> index \<noteq> length fs + 1 then (Inr None, None)
             else
               let fs = fs @ [drop 3 (av_payload p)];
                   meta = (if meta = None \<and> av_encrypted_length p \<noteq> 0 then Some p else meta) in
               if limit < total_length fs then (Inr None, None)
               else if index \<noteq> 255 then (Inr None, Some (fs, meta))
               else
                 (case meta of
                    None \<Rightarrow> Inr None
                  | Some m \<Rightarrow> finish_frame cs pfx m (concat fs), None)))"

definition view :: "reassembler \<Rightarrow> nat \<Rightarrow> collection" where
  "view r sequence = map_option (\<lambda>fs. (fs, metadata r sequence)) (fragments r sequence)"

text \<open>How the four dictionaries agree between calls.\<close>

definition slot_inv :: "reassembler \<Rightarrow> nat \<Rightarrow> bool" where
  "slot_inv r sequence \<longleftrightarrow>
     (case fragments r sequence of
        None \<Rightarrow> sizes r sequence = None \<and> metadata r sequence = None \<and> expected_index r sequence = None
      | Some fs \<Rightarrow>
          fs \<noteq> [] \<and> sizes r sequence = Some (total_length fs) \<and> total_length fs \<le> max_frame_bytes r \<and>
          expected_index r sequence = Some (length fs + 1) \<and> length fs < 255 \<and>
          (\<forall>m. metadata r sequence = Some m \<longrightarrow> av_sequence m = sequence \<and> av_encrypted_length m \<noteq> 0))"

definition reassembler_inv :: "reassembler \<Rightarrow> bool" where
  "reassembler_inv r \<longleftrightarrow> (\<forall>sequence. slot_inv r sequence)"

end
