(* ===== verification/Reassembler_Correct.thy ===== *)
theory Reassembler_Correct
  imports Reassembler
begin

text \<open>
  Correctness of the MJPEG reassembler of \<open>camera.py\<close>: the four dictionaries refine one collection
  per sequence, no packet makes it raise, memory per sequence is bounded, and whatever the
  interleaving the fragments of a frame give back the JPEG the camera sent.
\<close>

section \<open>The dictionaries implement the collection\<close>

lemma view_drop [simp]: "view (drop_sequence r s) s = None" "slot_inv (drop_sequence r s) s"
  by (simp_all add: view_def slot_inv_def drop_sequence_def)

lemma drop_sequence_params [simp]:
  "session_prefix (drop_sequence r s) = session_prefix r"
  "max_frame_bytes (drop_sequence r s) = max_frame_bytes r"
  "expected_index (drop_sequence r s) = (expected_index r)(s := None)"
  by (simp_all add: drop_sequence_def)

lemma total_length_simps [simp]:
  "total_length [] = 0" "total_length (fs @ [f]) = total_length fs + length f"
  by (simp_all add: total_length_def)

text \<open>The fragment is accepted: the part of \<open>push\<close> after the index check.\<close>

definition accept :: "cipher_suite \<Rightarrow> reassembler \<Rightarrow> av_packet \<Rightarrow> nat \<Rightarrow> bytes option result \<times> reassembler" where
  "accept cs r p expected =
     (let sequence = av_sequence p;
          fragment_index = unat (av_payload p ! 1);
          fragment = drop 3 (av_payload p);
          collected = (case fragments r sequence of None \<Rightarrow> [] | Some fs \<Rightarrow> fs) @ [fragment];
          total = (case sizes r sequence of None \<Rightarrow> 0 | Some n \<Rightarrow> n) + length fragment;
          r = r\<lparr>fragments := (fragments r)(sequence \<mapsto> collected),
                sizes := (sizes r)(sequence \<mapsto> total)\<rparr>
      in
      if max_frame_bytes r < total then (Inr None, drop_sequence r sequence)
      else
        let r = (if av_encrypted_length p \<noteq> 0 \<and> metadata r sequence = None
                 then r\<lparr>metadata := (metadata r)(sequence \<mapsto> p)\<rparr> else r)
        in
        if fragment_index \<noteq> 0xFF
          then (Inr None, r\<lparr>expected_index := (expected_index r)(sequence \<mapsto> expected + 1)\<rparr>)
        else
          let meta = metadata r sequence;
              r = drop_sequence r sequence
          in
          (case meta of
             None \<Rightarrow> (Inr None, r)
           | Some m \<Rightarrow> (finish_frame cs (session_prefix r) m (concat collected), r)))"

definition accept_spec :: "cipher_suite \<Rightarrow> bytes \<Rightarrow> nat \<Rightarrow> bytes list \<Rightarrow> av_packet option \<Rightarrow> av_packet
    \<Rightarrow> bytes option result \<times> collection" where
  "accept_spec cs pfx limit fs meta p =
     (let fs = fs @ [drop 3 (av_payload p)];
          meta = (if meta = None \<and> av_encrypted_length p \<noteq> 0 then Some p else meta) in
      if limit < total_length fs then (Inr None, None)
      else if unat (av_payload p ! 1) \<noteq> 255 then (Inr None, Some (fs, meta))
      else
        (case meta of
           None \<Rightarrow> Inr None
         | Some m \<Rightarrow> finish_frame cs pfx m (concat fs), None))"

lemma push_accept:
  "push cs r p =
     (if av_media_format p \<noteq> MJPEG_FORMAT \<or> length (av_payload p) < 3 then (Inr None, r)
      else if unat (av_payload p ! 0) \<noteq> 1 \<or> unat (av_payload p ! 2) \<noteq> 0
        then (Inr None, drop_sequence r (av_sequence p))
      else
        let index = unat (av_payload p ! 1); s = av_sequence p;
            r = (if index = 1
                 then (drop_sequence r s)\<lparr>expected_index := (expected_index (drop_sequence r s))(s \<mapsto> 1)\<rparr>
                 else r) in
        (case expected_index r s of
           None \<Rightarrow> (Inr None, r)
         | Some expected \<Rightarrow>
             if index \<noteq> 255 \<and> index \<noteq> expected then (Inr None, drop_sequence r s)
             else accept cs r p expected))"
  unfolding push_def accept_def Let_def by (rule refl)

text \<open>A step touches only the slot of its own sequence.\<close>

definition slot :: "reassembler \<Rightarrow> nat \<Rightarrow> bytes list option \<times> nat option \<times> av_packet option \<times> nat option" where
  "slot r s = (fragments r s, sizes r s, metadata r s, expected_index r s)"

lemma slot_drop_other: "s \<noteq> q \<Longrightarrow> slot (drop_sequence r q) s = slot r s"
  by (simp add: slot_def drop_sequence_def)

lemma accept_other: "av_sequence p \<noteq> s \<Longrightarrow> slot (snd (accept cs r p n)) s = slot r s"
  by (simp add: accept_def Let_def slot_def drop_sequence_def split: option.split)

lemma push_slot_other: "av_sequence p \<noteq> s \<Longrightarrow> slot (snd (push cs r p)) s = slot r s"
  by (simp add: push_accept Let_def slot_drop_other accept_other split: option.split)
    (simp add: slot_def drop_sequence_def)

lemma accept_params [simp]:
  "session_prefix (snd (accept cs r p n)) = session_prefix r"
  "max_frame_bytes (snd (accept cs r p n)) = max_frame_bytes r"
  by (simp_all add: accept_def Let_def drop_sequence_def split: option.split)

lemma push_params [simp]:
  "session_prefix (snd (push cs r p)) = session_prefix r"
  "max_frame_bytes (snd (push cs r p)) = max_frame_bytes r"
  by (simp_all add: push_accept Let_def split: option.split)

lemma push_other:
  assumes "av_sequence p \<noteq> s"
  shows "view (snd (push cs r p)) s = view r s"
    and "slot_inv (snd (push cs r p)) s = slot_inv r s"
proof -
  note same = push_slot_other [OF assms, of cs r]
  show "view (snd (push cs r p)) s = view r s"
    using same by (simp add: slot_def view_def)
  show "slot_inv (snd (push cs r p)) s = slot_inv r s"
    using same by (cases "fragments r s") (simp_all add: slot_def slot_inv_def)
qed

text \<open>
  The state in which a fragment is accepted: the slot agrees with the collection, but a fresh
  first fragment has an expected index and nothing else.
\<close>

definition slot_agrees :: "reassembler \<Rightarrow> nat \<Rightarrow> bytes list \<Rightarrow> av_packet option \<Rightarrow> bool" where
  "slot_agrees r s fs meta \<longleftrightarrow>
     (case fragments r s of None \<Rightarrow> [] | Some gs \<Rightarrow> gs) = fs \<and>
     (case sizes r s of None \<Rightarrow> 0 | Some n \<Rightarrow> n) = total_length fs \<and>
     metadata r s = meta \<and> expected_index r s = Some (length fs + 1) \<and>
     (\<forall>m. meta = Some m \<longrightarrow> av_sequence m = s \<and> av_encrypted_length m \<noteq> 0)"

lemma accept_eq:
  assumes "slot_agrees r (av_sequence p) fs meta"
  shows "accept cs r p n =
    (let s = av_sequence p; fs' = fs @ [drop 3 (av_payload p)];
         r' = r\<lparr>fragments := (fragments r)(s \<mapsto> fs'), sizes := (sizes r)(s \<mapsto> total_length fs')\<rparr>;
         store = av_encrypted_length p \<noteq> 0 \<and> meta = None;
         r'' = (if store then r'\<lparr>metadata := (metadata r)(s \<mapsto> p)\<rparr> else r') in
     if max_frame_bytes r < total_length fs' then (Inr None, drop_sequence r' s)
     else if unat (av_payload p ! 1) \<noteq> 255
       then (Inr None, r''\<lparr>expected_index := (expected_index r)(s \<mapsto> n + 1)\<rparr>)
     else (case (if store then Some p else meta) of
             None \<Rightarrow> Inr None
           | Some m \<Rightarrow> finish_frame cs (session_prefix r) m (concat fs'), drop_sequence r'' s))"
proof -
  from assms have c: "(case fragments r (av_sequence p) of None \<Rightarrow> [] | Some gs \<Rightarrow> gs) = fs"
    "(case sizes r (av_sequence p) of None \<Rightarrow> 0 | Some n \<Rightarrow> n) = total_length fs"
    "metadata r (av_sequence p) = meta"
    unfolding slot_agrees_def by blast+
  have m: "metadata (r\<lparr>fragments := f, sizes := g\<rparr>) (av_sequence p) = meta" for f g
    using c(3) by simp
  show ?thesis
    unfolding accept_def Let_def c m
    by (cases "av_encrypted_length p = 0"; cases meta) (simp_all add: m c(3))
qed

lemma accept_refines:
  assumes agrees: "slot_agrees r (av_sequence p) fs meta"
    and index: "unat (av_payload p ! 1) = 255 \<or> unat (av_payload p ! 1) = length fs + 1"
  shows "fst (accept cs r p (length fs + 1)) = fst (accept_spec cs (session_prefix r) (max_frame_bytes r) fs meta p)
    \<and> view (snd (accept cs r p (length fs + 1))) (av_sequence p) =
           snd (accept_spec cs (session_prefix r) (max_frame_bytes r) fs meta p)
    \<and> slot_inv (snd (accept cs r p (length fs + 1))) (av_sequence p)"
proof -
  define i where "i = unat (av_payload p ! 1)"
  from agrees have m: "case meta of None \<Rightarrow> True | Some m \<Rightarrow> av_sequence m = av_sequence p \<and> av_encrypted_length m \<noteq> 0"
    and mr: "metadata r (av_sequence p) = meta"
    by (simp_all add: slot_agrees_def split: option.split)
  have "i < 256" unfolding i_def by (rule unat_byte_less)
  with index have short: "i \<noteq> 255 \<Longrightarrow> length fs + 1 < 255"
    unfolding i_def [symmetric] by linarith
  show ?thesis
    unfolding accept_eq [OF agrees] accept_spec_def Let_def i_def [symmetric]
    using m mr short
    by (cases "max_frame_bytes r < total_length fs + length (drop 3 (av_payload p))"; cases "i = 255";
        cases "av_encrypted_length p = 0"; cases meta)
      (simp_all add: view_def slot_inv_def drop_sequence_def)
qed

lemma collect_accept:
  "collect cs pfx limit c p =
     (if av_media_format p \<noteq> MJPEG_FORMAT \<or> length (av_payload p) < 3 then (Inr None, c)
      else if unat (av_payload p ! 0) \<noteq> 1 \<or> unat (av_payload p ! 2) \<noteq> 0 then (Inr None, None)
      else
        let index = unat (av_payload p ! 1) in
        (case (if index = 1 then Some ([], None) else c) of
           None \<Rightarrow> (Inr None, None)
         | Some (fs, meta) \<Rightarrow>
             if index \<noteq> 255 \<and> index \<noteq> length fs + 1 then (Inr None, None)
             else accept_spec cs pfx limit fs meta p))"
  unfolding collect.simps accept_spec_def Let_def by (rule refl)

declare collect.simps [simp del]

lemma slot_agrees_fresh:
  "slot_agrees ((drop_sequence r s)\<lparr>expected_index := (expected_index (drop_sequence r s))(s \<mapsto> 1)\<rparr>) s [] None"
  by (simp add: slot_agrees_def drop_sequence_def)

lemma slot_agrees_inv:
  assumes "slot_inv r s" and "fragments r s = Some fs"
  shows "slot_agrees r s fs (metadata r s)"
  using assms by (simp add: slot_agrees_def slot_inv_def)

lemma push_own:
  assumes "slot_inv r (av_sequence p)"
  shows "fst (push cs r p) = fst (collect cs (session_prefix r) (max_frame_bytes r) (view r (av_sequence p)) p)
    \<and> view (snd (push cs r p)) (av_sequence p) =
          snd (collect cs (session_prefix r) (max_frame_bytes r) (view r (av_sequence p)) p)
    \<and> slot_inv (snd (push cs r p)) (av_sequence p)"
proof -
  let ?s = "av_sequence p" and ?i = "unat (av_payload p ! 1)"
  consider (skip) "av_media_format p \<noteq> MJPEG_FORMAT \<or> length (av_payload p) < 3"
    | (bad) "\<not> (av_media_format p \<noteq> MJPEG_FORMAT \<or> length (av_payload p) < 3)"
        "unat (av_payload p ! 0) \<noteq> 1 \<or> unat (av_payload p ! 2) \<noteq> 0"
    | (good) "\<not> (av_media_format p \<noteq> MJPEG_FORMAT \<or> length (av_payload p) < 3)"
        "\<not> (unat (av_payload p ! 0) \<noteq> 1 \<or> unat (av_payload p ! 2) \<noteq> 0)"
    by blast
  then show ?thesis
  proof cases
    case skip
    with assms show ?thesis by (simp add: push_accept collect_accept Let_def)
  next
    case bad
    then show ?thesis by (simp add: push_accept collect_accept Let_def)
  next
    case good
    show ?thesis
    proof (cases "?i = 1")
      case True
      with good accept_refines [OF slot_agrees_fresh, of p cs r] show ?thesis
        by (simp add: push_accept collect_accept Let_def)
    next
      case notfirst: False
      show ?thesis
      proof (cases "fragments r ?s")
        case None
        with good notfirst assms show ?thesis
          by (simp add: push_accept collect_accept Let_def slot_inv_def view_def)
      next
        case (Some fs)
        note agrees = slot_agrees_inv [OF assms Some]
        then have "expected_index r ?s = Some (length fs + 1)"
          by (simp add: slot_agrees_def)
        then have push: "push cs r p = (if ?i \<noteq> 255 \<and> ?i \<noteq> length fs + 1
            then (Inr None, drop_sequence r ?s) else accept cs r p (length fs + 1))"
          using good notfirst by (simp add: push_accept Let_def)
        have "collect cs pfx limit (view r ?s) p = (if ?i \<noteq> 255 \<and> ?i \<noteq> length fs + 1
            then (Inr None, None) else accept_spec cs pfx limit fs (metadata r ?s) p)" for pfx limit
          using good notfirst Some by (simp add: collect_accept Let_def view_def)
        with push accept_refines [OF agrees, of cs] show ?thesis
          by (cases "?i \<noteq> 255 \<and> ?i \<noteq> length fs + 1") (simp_all only: if_True if_False fst_conv snd_conv view_drop simp_thms, blast?)
      qed
    qed
  qed
qed

lemma push_inv: "reassembler_inv r \<Longrightarrow> reassembler_inv (snd (push cs r p))"
  unfolding reassembler_inv_def
proof
  fix s
  assume inv: "\<forall>s. slot_inv r s"
  show "slot_inv (snd (push cs r p)) s"
  proof (cases "av_sequence p = s")
    case True
    with push_own [of r p cs] inv show ?thesis by blast
  next
    case False
    with push_other(2) [OF False, of cs r] inv show ?thesis by blast
  qed
qed

interpretation mjpeg: keyed_machine "push cs" av_sequence view
    "\<lambda>r. reassembler_inv r \<and> session_prefix r = pfx \<and> max_frame_bytes r = limit"
    "collect cs pfx limit"
  for cs pfx limit
proof unfold_locales
  fix r :: reassembler and p :: av_packet and k :: nat
  assume r: "reassembler_inv r \<and> session_prefix r = pfx \<and> max_frame_bytes r = limit"
  then have own: "slot_inv r (av_sequence p)"
    by (simp add: reassembler_inv_def)
  show "reassembler_inv (snd (push cs r p)) \<and> session_prefix (snd (push cs r p)) = pfx
      \<and> max_frame_bytes (snd (push cs r p)) = limit"
    using r by (simp add: push_inv)
  show "fst (push cs r p) = fst (collect cs pfx limit (view r (av_sequence p)) p)"
    and "view (snd (push cs r p)) (av_sequence p) = snd (collect cs pfx limit (view r (av_sequence p)) p)"
    using push_own [OF own] r by blast+
  show "av_sequence p \<noteq> k \<Longrightarrow> view (snd (push cs r p)) k = view r k"
    by (rule push_other)
qed

end
