(* ===== verification/Mjpeg_Frames.thy ===== *)
theory Mjpeg_Frames
  imports Reassembler_Correct
begin

text \<open>
  The properties of the MJPEG reassembler of \<open>camera.py\<close>: refinement of one collection per
  sequence, absence of exceptions, what an emitted frame is, the reassembly of a frame whose
  fragments are interleaved with others, and what is held for frames that never end.
\<close>

section \<open>Refinement and invariant\<close>

definition empty_reassembler :: "bytes \<Rightarrow> nat \<Rightarrow> reassembler" where
  "empty_reassembler pfx limit =
     \<lparr>session_prefix = pfx, max_frame_bytes = limit, fragments = Map.empty,
      sizes = Map.empty, metadata = Map.empty, expected_index = Map.empty\<rparr>"

lemma empty_reassembler_simps [simp]:
  "reassembler_inv (empty_reassembler pfx limit)" "view (empty_reassembler pfx limit) s = None"
  "session_prefix (empty_reassembler pfx limit) = pfx"
  "max_frame_bytes (empty_reassembler pfx limit) = limit"
  by (simp_all add: empty_reassembler_def reassembler_inv_def slot_inv_def view_def)

lemma mjpeg_reassembler_Inr:
  "mjpeg_reassembler pfx limit = Inr r \<longleftrightarrow> length pfx = 32 \<and> r = empty_reassembler pfx limit"
  by (auto simp: mjpeg_reassembler_def empty_reassembler_def)

text \<open>
  C27. The four dictionaries of the reassembler implement one collection per sequence: from a
  consistent state, \<open>push\<close> returns what the collection of the packet's own sequence says, changes
  that collection and no other, and leaves the dictionaries consistent (the same sequences in the
  fragments and sizes, sizes equal to the bytes held and within the limit, the expected index one
  past the fragments held, metadata of its own sequence).
\<close>

theorem push_refines_collection:
  assumes "reassembler_inv r"
  shows "fst (push cs r p) = fst (collect cs (session_prefix r) (max_frame_bytes r) (view r (av_sequence p)) p)
    \<and> view (snd (push cs r p)) = (view r)(av_sequence p :=
           snd (collect cs (session_prefix r) (max_frame_bytes r) (view r (av_sequence p)) p))
    \<and> reassembler_inv (snd (push cs r p))"
proof (intro conjI)
  note inv = conjI [OF assms conjI [OF refl refl]]
  show "fst (push cs r p) = fst (collect cs (session_prefix r) (max_frame_bytes r) (view r (av_sequence p)) p)"
    by (rule mjpeg.step_out [OF inv])
  show "view (snd (push cs r p)) = (view r)(av_sequence p :=
           snd (collect cs (session_prefix r) (max_frame_bytes r) (view r (av_sequence p)) p))"
    using mjpeg.step_own [OF inv, of cs p] mjpeg.step_other [OF inv, of p _ cs] by auto
  show "reassembler_inv (snd (push cs r p))"
    using mjpeg.step_inv [OF inv, of cs p] by blast
qed

definition demo_fragment :: "nat \<Rightarrow> nat \<Rightarrow> bytes \<Rightarrow> av_packet" where
  "demo_fragment index encrypted_length fragment =
     \<lparr>av_header = \<lparr>fh_message_type = 1, fh_flag = 0, fh_length = 0, fh_is_udp = False, fh_size = 2\<rparr>,
      av_is_key_frame = True, av_media_format = MJPEG_FORMAT, av_encryption_type = 0,
      av_channel = 0, av_sequence = 9, av_timestamp = 7, av_encrypted_length = encrypted_length,
      av_payload = [1, of_nat index, 0] @ fragment\<rparr>"

lemma push_refines_collection_witness:
  "reassembler_inv (snd (push demo_suite (empty_reassembler [] 10) (demo_fragment 1 16 [255, 216])))
   \<and> fst (push demo_suite (empty_reassembler [] 10) (demo_fragment 1 16 [255, 216])) =
       fst (collect demo_suite [] 10 None (demo_fragment 1 16 [255, 216]))"
  using push_refines_collection
    [of "empty_reassembler [] 10" demo_suite "demo_fragment 1 16 [255, 216]"]
  by simp

section \<open>No exception escapes, and what a frame is\<close>

lemma finish_frame_ok:
  "\<exists>result. finish_frame cs pfx m assembled = Inr result \<and>
     (\<forall>jpeg. result = Some jpeg \<longrightarrow> prefix SOI jpeg \<and> suffix EOI jpeg \<and>
        find_from jpeg EOI 2 = Some (length jpeg - 2))"
proof -
  let ?key = "derive_av_key (BytesPrefix pfx) (av_sequence m) (av_timestamp m) (av_channel m)"
  let ?n = "av_encrypted_length m"
  consider (bad) "?n \<le> 0 \<or> length assembled < ?n \<or> ?n mod 16 \<noteq> 0"
    | (good) "\<not> (?n \<le> 0 \<or> length assembled < ?n \<or> ?n mod 16 \<noteq> 0)" by blast
  then show ?thesis
  proof cases
    case bad
    then show ?thesis by (simp add: finish_frame_def Let_def)
  next
    case good
    define frame where "frame = cbc_decrypt cs ?key (drop 16 ?key) (take ?n assembled) @ drop ?n assembled"
    from good have fin: "finish_frame cs pfx m assembled =
        (if \<not> prefix SOI frame then Inr None
         else case find_from frame EOI 2 of None \<Rightarrow> Inr None | Some eoi \<Rightarrow> Inr (Some (take (eoi + 2) frame)))"
      unfolding frame_def
      by (simp add: finish_frame_def Let_def aes_cbc_decrypt_unpadded_def AES_BLOCK_SIZE_def)
    show ?thesis
    proof (cases "find_from frame EOI 2")
      case None
      then show ?thesis by (simp add: fin)
    next
      case (Some eoi)
      have len: "length EOI = 2" "length SOI = 2" by (simp_all add: EOI_def SOI_def)
      note jpeg = find_take_end [OF Some, unfolded len]
      have "prefix SOI frame \<Longrightarrow> prefix SOI (take (eoi + 2) frame)"
        by (auto simp: prefix_def len)
      with jpeg Some show ?thesis by (simp add: fin)
    qed
  qed
qed

lemma collect_ok:
  "\<exists>result. fst (collect cs pfx limit c p) = Inr result \<and>
     (\<forall>jpeg. result = Some jpeg \<longrightarrow> prefix SOI jpeg \<and> suffix EOI jpeg \<and>
        find_from jpeg EOI 2 = Some (length jpeg - 2))"
  using finish_frame_ok [of cs pfx]
  by (fastforce simp: collect_accept accept_spec_def Let_def split: option.split)

text \<open>
  No sequence of AV packets makes the reassembler raise, whatever the cipher returns: every
  \<open>push\<close> of a run from a new reassembler returns, and what it returns is nothing or a byte string
  that starts with the JPEG start marker, ends with the end marker and holds no earlier end marker.
\<close>

theorem reassembler_returns_jpegs:
  "\<forall>out \<in> set (fst (run_keyed (push cs) av_sequence (empty_reassembler pfx limit) ps)).
     \<exists>result. snd out = Inr result \<and>
       (case result of None \<Rightarrow> True
        | Some jpeg \<Rightarrow> prefix SOI jpeg \<and> suffix EOI jpeg \<and> find_from jpeg EOI 2 = Some (length jpeg - 2))"
proof -
  have "\<exists>result. snd out = Inr result \<and>
       (case result of None \<Rightarrow> True
        | Some jpeg \<Rightarrow> prefix SOI jpeg \<and> suffix EOI jpeg \<and> find_from jpeg EOI 2 = Some (length jpeg - 2))"
    if "reassembler_inv r" and "out \<in> set (fst (run_keyed (push cs) av_sequence r ps))" for out r
    using that
  proof (induction ps arbitrary: r)
    case Nil
    then show ?case by simp
  next
    case (Cons p ps)
    from Cons.prems(2) consider "out = (av_sequence p, fst (push cs r p))"
      | "out \<in> set (fst (run_keyed (push cs) av_sequence (snd (push cs r p)) ps))"
      by (auto simp: case_prod_unfold)
    then show ?case
    proof cases
      case 1
      obtain result where "fst (push cs r p) = Inr result"
          "\<forall>jpeg. result = Some jpeg \<longrightarrow> prefix SOI jpeg \<and> suffix EOI jpeg \<and>
             find_from jpeg EOI 2 = Some (length jpeg - 2)"
        using mjpeg.step_out [OF conjI [OF Cons.prems(1) conjI [OF refl refl]]] collect_ok by metis
      with 1 show ?thesis by (auto split: option.split)
    next
      case 2
      then show ?thesis by (rule Cons.IH [OF push_inv [OF Cons.prems(1)]])
    qed
  qed
  with empty_reassembler_simps(1) show ?thesis by blast
qed

lemma reassembler_returns_jpegs_witness:
  "fst (run_keyed (push demo_suite) av_sequence (empty_reassembler [] 10) [demo_fragment 1 16 [255]]) \<noteq> [] \<and>
   (\<exists>result. snd (hd (fst (run_keyed (push demo_suite) av_sequence (empty_reassembler [] 10)
      [demo_fragment 1 16 [255]]))) = Inr result)"
  using reassembler_returns_jpegs
    [of demo_suite "[]" 10 "[demo_fragment 1 16 [255]]"]
  by (auto simp: case_prod_unfold)

section \<open>Reassembly under interleaving\<close>

text \<open>
  How the camera splits a frame: the payload of each packet is the marker 1, the index and a zero
  byte in front of a fragment; the indices count from 1 and the last packet has index 255.
\<close>

definition is_fragment :: "nat \<Rightarrow> bytes \<Rightarrow> av_packet \<Rightarrow> bool" where
  "is_fragment index f p \<longleftrightarrow> av_media_format p = MJPEG_FORMAT \<and> av_payload p = [1, of_nat index, 0] @ f"

fun fragments_from :: "nat \<Rightarrow> av_packet list \<Rightarrow> bytes list \<Rightarrow> bool" where
  "fragments_from i [p] [f] = is_fragment 255 f p"
| "fragments_from i (p # q # ps) (f # g # fs) =
     (i < 255 \<and> is_fragment i f p \<and> fragments_from (i + 1) (q # ps) (g # fs))"
| "fragments_from i _ _ = False"

definition carries_metadata :: "av_packet \<Rightarrow> bool" where
  "carries_metadata p \<longleftrightarrow> av_encrypted_length p \<noteq> 0"

lemma collect_fragment:
  assumes "is_fragment i f p" and "i < 255" and "i = length gs + 1"
    and "total_length gs + length f \<le> limit"
    and "if i = 1 then gs = [] \<and> meta = None else c = Some (gs, meta)"
  shows "collect cs pfx limit c p =
    (Inr None, Some (gs @ [f], if meta = None \<and> carries_metadata p then Some p else meta))"
proof -
  have i: "unat (av_payload p ! 1) = i" and shape: "drop 3 (av_payload p) = f"
    "length (av_payload p) = length f + 3" "unat (av_payload p ! 0) = 1" "unat (av_payload p ! 2) = 0"
    "av_media_format p = MJPEG_FORMAT"
    using assms(1,2) by (simp_all add: is_fragment_def unat_of_nat)
  have "(if i = 1 then Some ([], None) else c) = Some (gs, meta)"
    using assms(5) by (cases "i = 1") simp_all
  then have "collect cs pfx limit c p = accept_spec cs pfx limit gs meta p"
    unfolding collect_accept Let_def i by (simp add: shape assms(3))
  also have "\<dots> = (Inr None, Some (gs @ [f], if meta = None \<and> carries_metadata p then Some p else meta))"
    unfolding accept_spec_def Let_def i using assms(2,4) by (simp add: shape carries_metadata_def)
  finally show ?thesis .
qed

lemma collect_last:
  assumes "is_fragment 255 f p" and "total_length gs + length f \<le> limit"
  shows "collect cs pfx limit (Some (gs, meta)) p =
    (case (if meta = None \<and> carries_metadata p then Some p else meta) of
       None \<Rightarrow> Inr None | Some m \<Rightarrow> finish_frame cs pfx m (concat (gs @ [f])), None)"
  using assms by (simp add: collect_accept accept_spec_def is_fragment_def carries_metadata_def Let_def)

lemma collect_fragments:
  assumes "fragments_from (length gs + 1) ps fs" and "gs \<noteq> []"
    and "total_length (gs @ fs) \<le> limit"
  shows "run_local (collect cs pfx limit) (Some (gs, meta)) ps =
    (replicate (length ps - 1) (Inr None) @
       [case (if meta = None then find carries_metadata ps else meta) of
          None \<Rightarrow> Inr None | Some m \<Rightarrow> finish_frame cs pfx m (concat (gs @ fs))], None)"
  using assms
proof (induction "length gs + 1" ps fs arbitrary: gs meta rule: fragments_from.induct)
  case (1 p f)
  then show ?case
    by (auto simp: collect_last total_length_def)
next
  case (2 p q ps f g fs)
  let ?meta = "if meta = None \<and> carries_metadata p then Some p else meta"
  from "2.prems" have step: "collect cs pfx limit (Some (gs, meta)) p = (Inr None, Some (gs @ [f], ?meta))"
    by (intro collect_fragment) (auto simp: total_length_def)
  from "2.prems" have "run_local (collect cs pfx limit) (Some (gs @ [f], ?meta)) (q # ps) =
    (replicate (length (q # ps) - 1) (Inr None) @
       [case (if ?meta = None then find carries_metadata (q # ps) else ?meta) of
          None \<Rightarrow> Inr None | Some m \<Rightarrow> finish_frame cs pfx m (concat ((gs @ [f]) @ g # fs))], None)"
    by (intro "2.hyps") simp_all
  then have "run_local (collect cs pfx limit) (Some (gs @ [f], ?meta)) (q # ps) =
    (replicate (length (q # ps) - 1) (Inr None) @
       [case (if ?meta = None then find carries_metadata (q # ps) else ?meta) of
          None \<Rightarrow> Inr None | Some m \<Rightarrow> finish_frame cs pfx m (concat (gs @ f # g # fs))], None)"
    by (simp only: append_assoc append.simps)
  moreover have "(if ?meta = None then find carries_metadata (q # ps) else ?meta) =
      (if meta = None then find carries_metadata (p # q # ps) else meta)"
    by simp
  ultimately show ?case by (simp only: run_local.simps step prod.case) simp
qed simp_all

lemma collect_frame:
  assumes "fragments_from 1 ps fs" and "2 \<le> length ps" and "total_length fs \<le> limit"
  shows "run_local (collect cs pfx limit) c ps =
    (replicate (length ps - 1) (Inr None) @
       [case find carries_metadata ps of
          None \<Rightarrow> Inr None | Some m \<Rightarrow> finish_frame cs pfx m (concat fs)], None)"
proof -
  from assms(2) obtain p q ps' where ps: "ps = p # q # ps'"
    by (cases ps rule: remdups_adj.cases) auto
  with assms(1) obtain f g fs' where fs: "fs = f # g # fs'"
    by (cases fs rule: remdups_adj.cases) auto
  from assms have step: "collect cs pfx limit c p = (Inr None, Some ([f], if carries_metadata p then Some p else None))"
    using collect_fragment [of 1 f p "[]" limit None c cs pfx] by (simp add: ps fs total_length_def)
  have "run_local (collect cs pfx limit) (Some ([f], if carries_metadata p then Some p else None)) (q # ps') =
    (replicate (length (q # ps') - 1) (Inr None) @
       [case (if (if carries_metadata p then Some p else None) = None then find carries_metadata (q # ps')
              else (if carries_metadata p then Some p else None)) of
          None \<Rightarrow> Inr None | Some m \<Rightarrow> finish_frame cs pfx m (concat (f # g # fs'))], None)"
    using assms collect_fragments [of "[f]" "q # ps'" "g # fs'" limit cs pfx]
    by (simp only: append.simps) (simp add: ps fs total_length_def)
  then show ?thesis
    unfolding ps fs by (simp only: run_local.simps step prod.case) simp
qed

text \<open>The bytes the camera sends for a frame: its first \<open>n\<close> bytes encrypted, the rest in the clear.\<close>

definition frame_on_wire :: "cipher_suite \<Rightarrow> bytes \<Rightarrow> av_packet \<Rightarrow> bytes \<Rightarrow> bytes" where
  "frame_on_wire cs pfx m jpeg =
     (let key = derive_av_key (BytesPrefix pfx) (av_sequence m) (av_timestamp m) (av_channel m);
          n = av_encrypted_length m in
      cbc_encrypt cs key (drop 16 key) (take n jpeg) @ drop n jpeg)"

definition is_jpeg :: "bytes \<Rightarrow> bool" where
  "is_jpeg jpeg \<longleftrightarrow> prefix SOI jpeg \<and> find_from jpeg EOI 2 = Some (length jpeg - 2)"

lemma finish_frame_on_wire:
  assumes "cipher_laws cs" and "is_jpeg jpeg"
    and "0 < av_encrypted_length m" "16 dvd av_encrypted_length m" "av_encrypted_length m \<le> length jpeg"
  shows "finish_frame cs pfx m (frame_on_wire cs pfx m jpeg) = Inr (Some jpeg)"
proof -
  let ?key = "derive_av_key (BytesPrefix pfx) (av_sequence m) (av_timestamp m) (av_channel m)"
  let ?n = "av_encrypted_length m"
  have valid: "validate ?key (drop 16 ?key) = Inr ()" by simp
  have dvd: "16 dvd length (take ?n jpeg)" using assms(4,5) by simp
  have len: "length (cbc_encrypt cs ?key (drop 16 ?key) (take ?n jpeg)) = ?n"
    using cipher_lawsD(1) [OF assms(1) valid dvd] assms(5) by simp
  have "length (frame_on_wire cs pfx m jpeg) = length jpeg"
    using len assms(5) by (simp add: frame_on_wire_def Let_def)
  moreover have "prefix SOI jpeg" "find_from jpeg EOI 2 = Some (length jpeg - 2)"
    using assms(2) by (simp_all add: is_jpeg_def)
  moreover have "2 \<le> length jpeg"
    using prefix_length_le [OF \<open>prefix SOI jpeg\<close>] by (simp add: SOI_def)
  ultimately show ?thesis
    using assms(3,4,5) len decrypt_unpadded_ok [OF assms(1) valid dvd]
    by (simp add: finish_frame_def frame_on_wire_def Let_def mod_eq_0_iff_dvd)
qed

text \<open>
  C3. Whatever AV packets of other sequences come between them, the packets of one frame give back
  the JPEG: if the packets of sequence \<open>s\<close> are, in order, the fragments of what the camera puts on
  the wire for a JPEG, encrypted under the key of the first packet that announces an encrypted
  length, then the outputs for \<open>s\<close> are nothing for each fragment but the last and the JPEG for the
  last, from any state, and nothing of the sequence is held afterwards.
\<close>

theorem interleaved_frame_reassembled:
  assumes "cipher_laws cs" and "reassembler_inv r"
    and "fragments_from 1 (filter (\<lambda>p. av_sequence p = s) ps) fs"
    and "2 \<le> length (filter (\<lambda>p. av_sequence p = s) ps)"
    and "find carries_metadata (filter (\<lambda>p. av_sequence p = s) ps) = Some m"
    and "concat fs = frame_on_wire cs (session_prefix r) m jpeg"
    and "is_jpeg jpeg" and "length jpeg \<le> max_frame_bytes r"
    and "16 dvd av_encrypted_length m" and "av_encrypted_length m \<le> length jpeg"
  shows "map snd (filter (\<lambda>(k, out). k = s) (fst (run_keyed (push cs) av_sequence r ps))) =
      replicate (length (filter (\<lambda>p. av_sequence p = s) ps) - 1) (Inr None) @ [Inr (Some jpeg)]
    \<and> view (snd (run_keyed (push cs) av_sequence r ps)) s = None"
proof -
  have "carries_metadata m"
    using assms(5) by (auto simp: find_Some_iff)
  then have pos: "0 < av_encrypted_length m" by (simp add: carries_metadata_def)
  let ?key = "derive_av_key (BytesPrefix (session_prefix r)) (av_sequence m) (av_timestamp m) (av_channel m)"
  have dvd: "16 dvd length (take (av_encrypted_length m) jpeg)" using assms(9,10) by simp
  have "length (concat fs) = length jpeg"
    using cipher_lawsD(1) [OF assms(1) _ dvd, of ?key "drop 16 ?key"] assms(10)
    by (simp add: assms(6) frame_on_wire_def Let_def)
  then have total: "total_length fs \<le> max_frame_bytes r"
    using assms(8) by (simp add: total_length_def)
  have "(map snd (filter (\<lambda>(k, out). k = s) (fst (run_keyed (push cs) av_sequence r ps))),
         view (snd (run_keyed (push cs) av_sequence r ps)) s) =
      run_local (collect cs (session_prefix r) (max_frame_bytes r)) (view r s)
        (filter (\<lambda>p. av_sequence p = s) ps)"
    by (rule mjpeg.run_view) (simp add: assms(2))
  with collect_frame [OF assms(3,4) total, of cs "session_prefix r" "view r s"]
    finish_frame_on_wire [OF assms(1,7) pos assms(9,10), of "session_prefix r"]
  show ?thesis by (simp add: assms(5,6))
qed

text \<open>A 16-byte JPEG in two fragments, with a packet of another sequence between them.\<close>

definition demo_jpeg :: bytes where
  "demo_jpeg = [255, 216, 1, 2, 3, 4, 5, 6, 7, 8, 9, 10, 11, 12, 255, 217]"

definition demo_wire :: bytes where
  "demo_wire = frame_on_wire demo_suite (replicate 32 0) (demo_fragment 1 16 []) demo_jpeg"

definition demo_packets :: "av_packet list" where
  "demo_packets =
     [demo_fragment 1 16 (take 8 demo_wire),
      (demo_fragment 1 0 [])\<lparr>av_sequence := 10\<rparr>,
      demo_fragment 255 0 (drop 8 demo_wire)]"

lemma demo_packets_9:
  "filter (\<lambda>p. av_sequence p = 9) demo_packets =
     [demo_fragment 1 16 (take 8 demo_wire), demo_fragment 255 0 (drop 8 demo_wire)]"
  by (simp add: demo_packets_def demo_fragment_def)

lemma interleaved_frame_reassembled_witness:
  "map snd (filter (\<lambda>(k, out). k = 9)
      (fst (run_keyed (push demo_suite) av_sequence (empty_reassembler (replicate 32 0) 100) demo_packets))) =
    [Inr None, Inr (Some demo_jpeg)]"
proof -
  let ?m = "demo_fragment 1 16 (take 8 demo_wire)"
  have m: "frame_on_wire demo_suite (replicate 32 0) ?m demo_jpeg = demo_wire"
    by (simp add: demo_wire_def frame_on_wire_def demo_fragment_def Let_def)
  have fragment: "carries_metadata ?m" "av_encrypted_length ?m = 16"
    "is_fragment 1 (take 8 demo_wire) ?m" "is_fragment 255 (drop 8 demo_wire) (demo_fragment 255 0 (drop 8 demo_wire))"
    by (simp_all add: demo_fragment_def is_fragment_def carries_metadata_def)
  have jpeg: "is_jpeg demo_jpeg" "length demo_jpeg = 16"
    by (simp_all add: is_jpeg_def demo_jpeg_def SOI_def EOI_def find_from_def)
  show ?thesis
    using interleaved_frame_reassembled [OF demo_suite_laws,
        of "empty_reassembler (replicate 32 0) 100" 9 demo_packets
           "[take 8 demo_wire, drop 8 demo_wire]" ?m demo_jpeg]
    by (simp add: demo_packets_9 jpeg m [simplified] fragment [simplified])
qed

section \<open>What is held for frames that never end\<close>

definition first_fragment :: "nat \<Rightarrow> nat \<Rightarrow> av_packet" where
  "first_fragment n sequence = (demo_fragment 1 0 (replicate n 0))\<lparr>av_sequence := sequence\<rparr>"

lemma filter_upt_eq: "s < n \<Longrightarrow> filter (\<lambda>x. x = s) [0..<n] = [s]"
  by (induction n) (auto simp: filter_empty_conv less_Suc_eq)

text \<open>
  The limit bounds one frame, not the reassembler: there is no limit on the number of frames in
  progress, and a frame whose last fragment never comes stays until its sequence number is used
  again. After the first fragments of \<open>n\<close> frames, each as long as the limit, all of them are held.
\<close>

theorem unfinished_frames_accumulate:
  "map (view (snd (run_keyed (push cs) av_sequence (empty_reassembler pfx limit)
      (map (first_fragment limit) [0..<n])))) [0..<n] =
   replicate n (Some ([replicate limit 0], None))"
proof -
  have seq: "av_sequence (first_fragment limit s) = s" for s
    by (simp add: first_fragment_def)
  have held: "view (snd (run_keyed (push cs) av_sequence (empty_reassembler pfx limit)
      (map (first_fragment limit) [0..<n]))) s = Some ([replicate limit 0], None)" if "s < n" for s
  proof -
    have only: "filter (\<lambda>p. av_sequence p = s) (map (first_fragment limit) [0..<n]) = [first_fragment limit s]"
      using filter_upt_eq [OF that] by (simp add: filter_map comp_def seq)
    have one: "snd (collect cs pfx limit None (first_fragment limit s)) = Some ([replicate limit 0], None)"
      by (simp add: collect_accept accept_spec_def first_fragment_def demo_fragment_def Let_def
          total_length_def)
    show ?thesis
      using mjpeg.run_view [of "empty_reassembler pfx limit" pfx limit s cs "map (first_fragment limit) [0..<n]"]
      by (simp add: only case_prod_unfold one prod_eq_iff del: filter_map)
  qed
  show ?thesis
    by (rule nth_equalityI) (simp_all add: held)
qed

end
