(* ===== verification/Control_Values.thy ===== *)
theory Control_Values
  imports Commands
begin

text \<open>
  The values of controls in \<open>ino_a9_bridge/src/wificam_bridge/control_api.py\<close>: clock strings, the
  schedule in a JSON object, and \<open>_validated_control_value\<close>, which the API and the persistent store
  share. JSON values are the decoded ones. Of \<open>strptime\<close> with the format \<open>%H:%M\<close>, only strings of
  five characters matter; decimal digits outside ASCII, which it would take too, are not modelled.
\<close>

section \<open>Clock strings\<close>

fun strptime_clock :: "string \<Rightarrow> clock option" where
  "strptime_clock [a, b, c, d, e] =
     (let h = 10 * digit_value a + digit_value b; m = 10 * digit_value d + digit_value e in
      if c = CHR '':'' \<and> is_digit a \<and> is_digit b \<and> is_digit d \<and> is_digit e \<and> h < 24 \<and> m < 60
      then Some (Clock h m 0 0) else None)"
| "strptime_clock _ = None"

definition strftime_clock :: "clock \<Rightarrow> string" where
  "strftime_clock c =
     [digit (hour c div 10), digit (hour c mod 10), CHR '':'',
      digit (minute c div 10), digit (minute c mod 10)]"

definition clock_from_value :: "json \<Rightarrow> clock result" where
  "clock_from_value v =
     (case v of
        JStr s \<Rightarrow>
          if length s \<noteq> 5 then Inl InvalidRequest
          else (case strptime_clock s of None \<Rightarrow> Inl InvalidRequest | Some c \<Rightarrow> Inr c)
      | _ \<Rightarrow> Inl InvalidRequest)"

section \<open>Schedules and control values\<close>

definition schedule_from_value :: "json \<Rightarrow> schedule result" where
  "schedule_from_value v =
     (case v of
        JObj d \<Rightarrow>
          (case dict_get d ''days'' of
             JList raw_days \<Rightarrow>
               (case bind (clock_from_value (dict_get d ''start'')) (\<lambda>s.
                     bind (clock_from_value (dict_get d ''end'')) (\<lambda>e.
                       intrusion_schedule raw_days (Naive s) (Naive e))) of
                  Inr s \<Rightarrow> Inr s
                | Inl e \<Rightarrow> if is_type_error e \<or> is_value_error e then Inl InvalidRequest else Inl e)
           | _ \<Rightarrow> Inl InvalidRequest)
      | _ \<Rightarrow> Inl InvalidRequest)"

definition schedule_to_value :: "schedule \<Rightarrow> json" where
  "schedule_to_value s =
     JObj [(''days'', JList (map JInt (days s))), (''start'', JStr (strftime_clock (start s))),
           (''end'', JStr (strftime_clock (stop s)))]"

definition intrusion_value :: "bool \<Rightarrow> schedule \<Rightarrow> json" where
  "intrusion_value enabled s = JObj [(''enabled'', JBool enabled), (''schedule'', schedule_to_value s)]"

definition ENUM_CONTROLS :: "(string \<times> enum_values) list" where
  "ENUM_CONTROLS =
     [(''night_vision'', NIGHT_VALUES), (''flip'', FLIP_VALUES),
      (''video_quality'', VIDEO_QUALITY_VALUES), (''motion'', MOTION_VALUES)]"

definition validated_control_value :: "string \<Rightarrow> json \<Rightarrow> json result" where
  "validated_control_value control v =
     (if control = ''led'' then (case v of JBool b \<Rightarrow> Inr v | _ \<Rightarrow> Inl InvalidRequest)
      else
        (case map_of ENUM_CONTROLS control of
           Some values \<Rightarrow> if enum_lookup v values = None then Inl InvalidRequest else Inr v
         | None \<Rightarrow>
             (case v of
                JObj d \<Rightarrow>
                  if control \<noteq> ''intrusion'' then Inl InvalidRequest
                  else
                    (case dict_get d ''enabled'' of
                       JBool enabled \<Rightarrow>
                         bind (schedule_from_value (dict_get d ''schedule'')) (\<lambda>s.
                           Inr (intrusion_value enabled s))
                     | _ \<Rightarrow> Inl InvalidRequest)
              | _ \<Rightarrow> Inl InvalidRequest)))"

section \<open>Round trips\<close>

definition minute_clock :: "clock \<Rightarrow> bool" where
  "minute_clock c \<longleftrightarrow> hour c < 24 \<and> minute c < 60 \<and> minute_precision c"

lemma strptime_strftime:
  assumes "minute_clock c"
  shows "strptime_clock (strftime_clock c) = Some c"
  using assms
  by (cases c) (auto simp: strftime_clock_def minute_clock_def minute_precision_def digit_digit
      digit_value_digit Let_def)

lemma strptime_minute: "strptime_clock s = Some c \<Longrightarrow> minute_clock c"
  by (induction s rule: strptime_clock.induct)
    (auto simp: Let_def minute_clock_def minute_precision_def split: if_splits)

lemma strftime_strptime:
  assumes "strptime_clock s = Some c"
  shows "strftime_clock c = s"
proof -
  have digit_value: "digit (digit_value x) = x \<and> digit_value x < 10" if "is_digit x" for x
    using that by (auto simp: is_digit_def digit_def digit_value_def)
  show ?thesis
    using assms
    by (induction s rule: strptime_clock.induct)
      (auto simp: Let_def strftime_clock_def digit_value split: if_splits)
qed

lemma clock_from_strftime: "minute_clock c \<Longrightarrow> clock_from_value (JStr (strftime_clock c)) = Inr c"
  by (simp add: clock_from_value_def strptime_strftime) (simp add: strftime_clock_def)

lemma clock_from_value_Inr:
  "clock_from_value v = Inr c \<longleftrightarrow> minute_clock c \<and> v = JStr (strftime_clock c)"
proof
  assume "clock_from_value v = Inr c"
  then obtain s where s: "v = JStr s" "strptime_clock s = Some c"
    by (auto simp: clock_from_value_def split: json.splits if_splits option.splits)
  then show "minute_clock c \<and> v = JStr (strftime_clock c)"
    by (simp add: strptime_minute strftime_strptime)
qed (simp add: clock_from_strftime)

lemma clock_from_value_Inl: "clock_from_value v = Inl e \<Longrightarrow> e = InvalidRequest"
  by (auto simp: clock_from_value_def split: json.splits if_splits option.splits)

definition schedule_sound :: "schedule \<Rightarrow> bool" where
  "schedule_sound s \<longleftrightarrow> schedule_valid s \<and> minute_clock (start s) \<and> minute_clock (stop s)"

lemma schedule_from_value_Inr:
  "schedule_from_value v = Inr s \<longleftrightarrow>
     schedule_sound s \<and> (\<exists>d. v = JObj d \<and> dict_get d ''days'' = JList (map JInt (days s)) \<and>
       dict_get d ''start'' = JStr (strftime_clock (start s)) \<and>
       dict_get d ''end'' = JStr (strftime_clock (stop s)))" (is "?l = ?r")
proof
  assume ?l
  then obtain d raw where d: "v = JObj d" "dict_get d ''days'' = JList raw"
    and "bind (clock_from_value (dict_get d ''start'')) (\<lambda>s.
           bind (clock_from_value (dict_get d ''end'')) (\<lambda>e.
             intrusion_schedule raw (Naive s) (Naive e))) = Inr s"
    by (auto simp: schedule_from_value_def split: json.splits sum.splits if_splits)
  then obtain x y where "clock_from_value (dict_get d ''start'') = Inr x"
    "clock_from_value (dict_get d ''end'') = Inr y" "intrusion_schedule raw (Naive x) (Naive y) = Inr s"
    by (auto simp: result_iff)
  with d show ?r
    by (simp add: clock_from_value_Inr intrusion_schedule_Inr_iff schedule_sound_def)
next
  assume ?r
  then obtain d where d: "v = JObj d" "dict_get d ''days'' = JList (map JInt (days s))"
      "dict_get d ''start'' = JStr (strftime_clock (start s))"
      "dict_get d ''end'' = JStr (strftime_clock (stop s))"
    and s: "schedule_valid s" "minute_clock (start s)" "minute_clock (stop s)"
    by (auto simp: schedule_sound_def)
  have "intrusion_schedule (map JInt (days s)) (Naive (start s)) (Naive (stop s)) = Inr s"
    using s(1) by (simp add: intrusion_schedule_Inr_iff)
  with d s(2,3) show ?l
    by (simp add: schedule_from_value_def clock_from_strftime)
qed

lemma schedule_from_to_value: "schedule_sound s \<Longrightarrow> schedule_from_value (schedule_to_value s) = Inr s"
  by (simp add: schedule_from_value_Inr) (simp add: schedule_to_value_def dict_get_def)

lemma intrusion_schedule_Inl: "intrusion_schedule ds s e = Inl x \<Longrightarrow> is_type_error x \<or> is_value_error x"
  by (auto simp: intrusion_schedule_def check_time_def Let_def result_iff split: if_splits time_value.splits)

lemma schedule_from_value_Inl:
  assumes "schedule_from_value v = Inl e"
  shows "e = InvalidRequest"
  using assms intrusion_schedule_Inl
  by (fastforce simp: schedule_from_value_def result_iff dest: clock_from_value_Inl
      split: json.splits sum.splits if_splits)

text \<open>What the values of each control are, after validation.\<close>

definition control_value_ok :: "string \<Rightarrow> json \<Rightarrow> bool" where
  "control_value_ok control v \<longleftrightarrow>
     (if control = ''led'' then \<exists>b. v = JBool b
      else (case map_of ENUM_CONTROLS control of
              Some values \<Rightarrow> \<exists>s. v = JStr s \<and> s \<in> fst ` set values
            | None \<Rightarrow> control = ''intrusion'' \<and>
                (\<exists>enabled s. schedule_sound s \<and> v = intrusion_value enabled s)))"

lemma validated_Inr_ok:
  assumes "validated_control_value control v = Inr w"
  shows "control_value_ok control w"
proof (cases "map_of ENUM_CONTROLS control")
  case (Some vs)
  with assms show ?thesis
    by (cases v)
      (auto simp: validated_control_value_def control_value_ok_def map_of_eq_None_iff
        split: if_splits json.splits)
next
  case None
  with assms show ?thesis
    by (cases v)
      (auto simp: validated_control_value_def control_value_ok_def result_iff schedule_from_value_Inr
        split: if_splits json.splits)
qed

lemma validated_ok:
  assumes "control_value_ok control v"
  shows "validated_control_value control v = Inr v"
proof (cases "map_of ENUM_CONTROLS control")
  case (Some vs)
  with assms show ?thesis
    by (auto simp: validated_control_value_def control_value_ok_def split: if_splits
        dest: weak_map_of_SomeI)
next
  case None
  show ?thesis
  proof (cases "control = ''led''")
    case False
    with None assms obtain enabled s where "schedule_sound s" "v = intrusion_value enabled s" "control = ''intrusion''"
      by (auto simp: control_value_ok_def)
    with None show ?thesis
      by (simp add: validated_control_value_def intrusion_value_def dict_get_def schedule_from_to_value)
  qed (use assms in \<open>auto simp: validated_control_value_def control_value_ok_def\<close>)
qed

lemma validated_Inl: "validated_control_value control v = Inl e \<Longrightarrow> e = InvalidRequest"
  by (auto simp: validated_control_value_def result_iff dest: schedule_from_value_Inl
      split: if_splits json.splits option.splits)



end
