(* ===== verification/Control_Store.thy ===== *)
theory Control_Store
  imports Control_Values
begin

text \<open>
  \<open>ControlStateStore\<close> of \<open>control_api.py\<close>: the control values of each camera, kept in a dictionary of
  dictionaries and written to a file after every change. The file is the decoded JSON document in
  it; \<open>None\<close> is a file that is missing or holds no JSON. \<open>cs_writes\<close> says which writes raise
  (\<open>None\<close> is a write that succeeds, and so are all after the list).
\<close>

definition PERSISTED_CONTROLS :: "string list" where
  "PERSISTED_CONTROLS =
     [''led'', ''night_vision'', ''flip'', ''video_quality'', ''motion'', ''intrusion'']"

record control_store =
  cs_state :: "(string \<times> dict) list"
  cs_file :: "json option"
  cs_writes :: "exn option list"

text \<open>\<open>_write\<close>: the new file replaces the old one in one step, or the old one stays.\<close>

definition store_document :: "(string \<times> dict) list \<Rightarrow> json" where
  "store_document state =
     JObj [(''version'', JInt 1), (''cameras'', JObj (map (\<lambda>(camera_id, d). (camera_id, JObj d)) state))]"

definition store_write :: "(unit, control_store) op" where
  "store_write st =
     (case cs_writes st of
        Some e # rest \<Rightarrow> (Inl e, st\<lparr>cs_writes := rest\<rparr>)
      | _ \<Rightarrow> (Inr (), st\<lparr>cs_writes := tl (cs_writes st), cs_file := Some (store_document (cs_state st))\<rparr>))"

text \<open>
  The constructor. It catches that the file is missing and that it holds no JSON; what else reading and
  decoding raise - the \<open>UnicodeDecodeError\<close> of a file that is not UTF-8, other \<open>OSError\<close>s - leaves it.
\<close>

fun existing_document :: "json result \<Rightarrow> json option result" where
  "existing_document (Inr v) = Inr (Some v)"
| "existing_document (Inl (FileNotFoundError m)) = Inr None"
| "existing_document (Inl (JSONDecodeError m)) = Inr None"
| "existing_document (Inl e) = Inl e"

lemma existing_document_Inl: "existing_document contents = Inl e \<longleftrightarrow>
    contents = Inl e \<and> (\<forall>m. e \<noteq> FileNotFoundError m \<and> e \<noteq> JSONDecodeError m)"
  by (cases contents rule: existing_document.cases) auto

text \<open>What of an existing file is retained.\<close>

definition retained_controls :: "dict \<Rightarrow> dict" where
  "retained_controls camera_values =
     concat (map (\<lambda>control.
       (case map_of camera_values control of
          None \<Rightarrow> []
        | Some v \<Rightarrow>
            (case validated_control_value control v of Inl _ \<Rightarrow> [] | Inr w \<Rightarrow> [(control, w)])))
       PERSISTED_CONTROLS)"

definition existing_cameras :: "json option \<Rightarrow> dict" where
  "existing_cameras file =
     (case file of
        Some (JObj raw) \<Rightarrow> (case dict_get raw ''cameras'' of JObj cameras \<Rightarrow> cameras | _ \<Rightarrow> [])
      | _ \<Rightarrow> [])"

definition retained_camera :: "dict \<Rightarrow> string \<Rightarrow> dict" where
  "retained_camera existing camera_id =
     (case dict_get_default existing camera_id (JObj []) of
        JObj camera_values \<Rightarrow> retained_controls camera_values
      | _ \<Rightarrow> retained_controls [])"

definition initial_state :: "dict \<Rightarrow> string list \<Rightarrow> (string \<times> dict) list" where
  "initial_state existing camera_ids =
     foldl (\<lambda>state camera_id. dict_set state camera_id (retained_camera existing camera_id)) [] camera_ids"

definition control_state_store :: "json result \<Rightarrow> exn option list \<Rightarrow> string list \<Rightarrow> control_store result" where
  "control_state_store contents writes camera_ids =
     bind (existing_document contents) (\<lambda>file.
       case store_write
         \<lparr>cs_state = initial_state (existing_cameras file) camera_ids, cs_file = file, cs_writes = writes\<rparr> of
         (Inl e, _) \<Rightarrow> Inl e
       | (Inr _, st) \<Rightarrow> Inr st)"

text \<open>A file that was written is read back.\<close>

definition read_again :: "json option \<Rightarrow> json result" where
  "read_again file = (case file of None \<Rightarrow> Inl (FileNotFoundError ''No such file or directory'') | Some v \<Rightarrow> Inr v)"

lemma existing_read_again [simp]: "existing_document (read_again f) = Inr f"
  by (simp add: read_again_def split: option.split)

text \<open>\<open>values\<close> and \<open>set\<close>; an unknown camera is a \<open>KeyError\<close>, which is a \<open>LookupError\<close>.\<close>

definition store_values :: "control_store \<Rightarrow> string \<Rightarrow> dict result" where
  "store_values st camera_id =
     (case map_of (cs_state st) camera_id of None \<Rightarrow> Inl (LookupError camera_id) | Some d \<Rightarrow> Inr d)"

definition store_set :: "string \<Rightarrow> string \<Rightarrow> json \<Rightarrow> (unit, control_store) op" where
  "store_set camera_id control v st =
     (case validated_control_value control v of
        Inl e \<Rightarrow> (Inl e, st)
      | Inr w \<Rightarrow>
          (case map_of (cs_state st) camera_id of
             None \<Rightarrow> (Inl (LookupError camera_id), st)
           | Some d \<Rightarrow>
               store_write (st\<lparr>cs_state := dict_set (cs_state st) camera_id (dict_set d control w)\<rparr>)))"

section \<open>The invariant\<close>

text \<open>
  Every stored value is a validated value of a control that is persisted, and no name occurs twice.
\<close>

definition controls_ok :: "dict \<Rightarrow> bool" where
  "controls_ok d \<longleftrightarrow> distinct (map fst d) \<and>
     (\<forall>(control, v) \<in> set d. control \<in> set PERSISTED_CONTROLS \<and> control_value_ok control v)"

definition store_ok :: "control_store \<Rightarrow> bool" where
  "store_ok st \<longleftrightarrow> distinct (map fst (cs_state st)) \<and> (\<forall>(camera_id, d) \<in> set (cs_state st). controls_ok d)"

lemma store_write_state: "cs_state (snd (store_write st)) = cs_state st"
  by (auto simp: store_write_def split: list.split option.split)

lemma control_value_ok_persisted: "control_value_ok control v \<Longrightarrow> control \<in> set PERSISTED_CONTROLS"
  by (auto simp: control_value_ok_def PERSISTED_CONTROLS_def ENUM_CONTROLS_def split: if_splits)

lemma controls_ok_set:
  "controls_ok d \<Longrightarrow> control_value_ok control v \<Longrightarrow> controls_ok (dict_set d control v)"
  using set_dict_set [of d control v] control_value_ok_persisted [of control v]
  by (auto simp: controls_ok_def distinct_dict_set)

lemma distinct_keys_concat:
  assumes "distinct xs" and "\<And>x. map fst (f x) = [] \<or> map fst (f x) = [x]"
  shows "distinct (map fst (concat (map f xs))) \<and> fst ` set (concat (map f xs)) \<subseteq> set xs"
  using assms(1)
proof (induction xs)
  case (Cons x xs)
  moreover have "set (map fst (f x)) \<subseteq> {x}" "distinct (map fst (f x))"
    using assms(2) [of x] by auto
  ultimately show ?case
    unfolding list.map concat.simps map_append distinct_append set_append image_Un set_map
    by (simp del: set_concat) blast
qed simp

lemma retained_controls_ok: "controls_ok (retained_controls d)"
proof -
  have "distinct PERSISTED_CONTROLS" by (simp add: PERSISTED_CONTROLS_def)
  then have "distinct (map fst (retained_controls d))"
    unfolding retained_controls_def
    by (rule distinct_keys_concat [THEN conjunct1]) (simp split: option.split sum.split)
  moreover have "control_value_ok c v" if "(c, v) \<in> set (retained_controls d)" for c v
    using that by (auto simp: retained_controls_def dest: validated_Inr_ok [OF sym] validated_Inr_ok
        split: option.splits sum.splits)
  ultimately show ?thesis
    using control_value_ok_persisted unfolding controls_ok_def by blast
qed

lemma retained_camera_ok: "controls_ok (retained_camera existing camera_id)"
  by (simp add: retained_camera_def retained_controls_ok split: json.split)

lemma initial_state_ok:
  "distinct (map fst (initial_state existing ids)) \<and> (\<forall>(i, d) \<in> set (initial_state existing ids). controls_ok d)"
proof (induction ids rule: rev_induct)
  case (snoc i ids)
  then show ?case
    using set_dict_set [of "initial_state existing ids" i "retained_camera existing i"] retained_camera_ok
    by (auto simp: initial_state_def distinct_dict_set)
qed (simp add: initial_state_def)

lemma control_state_store_Inr:
  "control_state_store contents writes ids = Inr st \<Longrightarrow>
     \<exists>f. existing_document contents = Inr f \<and> cs_state st = initial_state (existing_cameras f) ids"
proof -
  assume run: "control_state_store contents writes ids = Inr st"
  then obtain f where f: "existing_document contents = Inr f" by (auto simp: control_state_store_def result_iff)
  let ?st = "\<lparr>cs_state = initial_state (existing_cameras f) ids, cs_file = f, cs_writes = writes\<rparr>"
  have "snd (store_write ?st) = st"
    using run f by (auto simp: control_state_store_def split: prod.splits sum.splits)
  with store_write_state [of ?st] f show ?thesis by auto
qed

lemma control_state_store_works:
  "existing_document contents = Inr f \<Longrightarrow> \<exists>st. control_state_store contents [] ids = Inr st"
  by (simp add: control_state_store_def store_write_def)

lemma control_state_store_ok:
  "control_state_store contents writes ids = Inr st \<Longrightarrow> store_ok st"
proof -
  assume "control_state_store contents writes ids = Inr st"
  from control_state_store_Inr [OF this] obtain f where "cs_state st = initial_state (existing_cameras f) ids" by blast
  with initial_state_ok [of "existing_cameras f" ids] show ?thesis by (simp add: store_ok_def)
qed

lemma store_set_ok:
  assumes "store_ok st"
  shows "store_ok (snd (store_set camera_id control v st))"
proof (cases "validated_control_value control v")
  case (Inl e)
  with assms show ?thesis by (simp add: store_set_def)
next
  case (Inr w)
  note ok = validated_Inr_ok [OF Inr]
  show ?thesis
  proof (cases "map_of (cs_state st) camera_id")
    case None
    with assms Inr show ?thesis by (simp add: store_set_def)
  next
    case (Some d)
    then have "controls_ok d"
      using assms by (auto simp: store_ok_def dest: map_of_SomeD)
    with controls_ok_set [OF _ ok] assms set_dict_set [of "cs_state st" camera_id "dict_set d control w"]
    have "store_ok (st\<lparr>cs_state := dict_set (cs_state st) camera_id (dict_set d control w)\<rparr>)"
      by (auto simp: store_ok_def distinct_dict_set)
    with Some Inr show ?thesis by (simp add: store_set_def store_ok_def store_write_state)
  qed
qed

lemma store_values_ok: "store_ok st \<Longrightarrow> store_values st i = Inr d \<Longrightarrow> controls_ok d"
  by (auto simp: store_values_def store_ok_def dest: map_of_SomeD split: option.splits)

section \<open>What is written survives a restart\<close>

text \<open>Reading the retained values of a consistent dictionary gives them back.\<close>

lemma map_of_retained:
  assumes "controls_ok d"
  shows "map_of (retained_controls d) = map_of d"
proof
  fix c
  have inv: "map_of (concat (map f xs)) c = (if c \<in> set xs then map_of (f c) c else None)"
    if "\<And>x. map fst (f x) = [] \<or> map fst (f x) = [x]" for f :: "string \<Rightarrow> dict" and xs
  proof (induction xs)
    case (Cons x xs)
    have "x \<noteq> c \<Longrightarrow> map_of (f x) c = None"
      using that [of x] by (auto simp: map_of_eq_None_iff simp flip: set_map)
    with Cons show ?case by (cases "x = c") (auto simp: map_add_def split: option.split)
  qed simp
  show "map_of (retained_controls d) c = map_of d c"
  proof (cases "map_of d c")
    case None
    then show ?thesis
      unfolding retained_controls_def by (subst inv) (auto split: option.split sum.split)
  next
    case (Some v)
    with assms have "c \<in> set PERSISTED_CONTROLS" "control_value_ok c v"
      by (auto simp: controls_ok_def dest: map_of_SomeD)
    with Some validated_ok [of c v] show ?thesis
      unfolding retained_controls_def by (subst inv) (auto split: option.split sum.split)
  qed
qed

lemma initial_state_lookup:
  "map_of (initial_state existing ids) i = (if i \<in> set ids then Some (retained_camera existing i) else None)"
  by (induction ids rule: rev_induct) (auto simp: initial_state_def)

text \<open>
  C12. What the API stored survives a restart. After any successful change the file holds the state,
  and a store opened on this file for the same cameras answers every query - the value of each
  control of each camera - as the old one did.
\<close>

theorem store_survives_restart:
  assumes "store_ok st" and "store_set camera_id control v st = (Inr (), st')"
    and "control_state_store (read_again (cs_file st')) writes (map fst (cs_state st')) = Inr st''"
  shows "store_ok st'' \<and> (\<forall>i. map_option map_of (map_of (cs_state st'') i) = map_option map_of (map_of (cs_state st') i))"
proof -
  have ok': "store_ok st'"
    using store_set_ok [OF assms(1), of camera_id control v] assms(2) by simp
  have written: "cs_file st' = Some (store_document (cs_state st'))"
    using assms(2)
    by (auto simp: store_set_def store_write_def split: sum.splits option.splits list.splits)
  let ?doc = "map (\<lambda>(i, d). (i, JObj d)) (cs_state st')"
  have existing: "existing_cameras (cs_file st') = ?doc"
    by (simp add: written existing_cameras_def store_document_def dict_get_def)
  have look: "map_of ?doc i = map_option JObj (map_of (cs_state st') i)" for i
    by (induction "cs_state st'") (auto simp: map_of_map [of JObj, unfolded comp_def])
  have state: "cs_state st'' = initial_state ?doc (map fst (cs_state st'))"
    using control_state_store_Inr [OF assms(3)] by (auto simp: existing)
  have "map_option map_of (map_of (cs_state st'') i) = map_option map_of (map_of (cs_state st') i)" for i
  proof (cases "map_of (cs_state st') i")
    case None
    then show ?thesis by (simp add: state initial_state_lookup map_of_eq_None_iff)
  next
    case (Some d)
    then have "controls_ok d" "i \<in> fst ` set (cs_state st')"
      using ok' by (force simp: store_ok_def dest: map_of_SomeD)+
    with Some show ?thesis
      by (simp add: state initial_state_lookup retained_camera_def dict_get_default_def look map_of_retained)
  qed
  with control_state_store_ok [OF assms(3)] show ?thesis by blast
qed

definition demo_store :: control_store where
  "demo_store = \<lparr>cs_state = [(''cam'', [])], cs_file = None, cs_writes = []\<rparr>"

lemma demo_store_ok: "store_ok demo_store"
  by (simp add: demo_store_def store_ok_def controls_ok_def)

lemma store_survives_restart_witness:
  "\<exists>st' st''. store_set ''cam'' ''led'' (JBool True) demo_store = (Inr (), st') \<and>
     control_state_store (read_again (cs_file st')) [] (map fst (cs_state st')) = Inr st'' \<and>
     map_option map_of (map_of (cs_state st'') ''cam'') = map_option map_of (map_of (cs_state st') ''cam'')"
proof -
  obtain st' where set: "store_set ''cam'' ''led'' (JBool True) demo_store = (Inr (), st')"
    by (simp add: store_set_def demo_store_def validated_control_value_def store_write_def)
  obtain st'' where again: "control_state_store (read_again (cs_file st')) [] (map fst (cs_state st')) = Inr st''"
    using control_state_store_works [OF existing_read_again] by blast
  from store_survives_restart [OF demo_store_ok set again] set again show ?thesis by blast
qed

end
