(* ===== verification/Control_API.thy ===== *)
theory Control_API
  imports Control_Store
begin

text \<open>
  \<open>ControlAPI\<close> of \<open>control_api.py\<close>: authorisation, routing, the update of a control and the camera
  detail, and the mapping of exceptions to HTTP answers.

  The cameras are objects with the operations in \<open>camera_ops\<close>, over a state of their own (in the
  bridge they are workers, which pass every call on to a \<open>CameraSession\<close>). The token file and the
  body are what the run finds: \<open>token_file\<close> is what \<open>read_text\<close> returns or raises (an \<open>OSError\<close>, or the
  \<open>UnicodeDecodeError\<close> of a file that is not UTF-8), and \<open>loads\<close> is \<open>json.loads\<close> on the decoded body,
  \<open>None\<close> when it raises.
\<close>

record 's camera_ops =
  co_status :: "'s \<Rightarrow> dict"
  co_set_status_led :: "json \<Rightarrow> (unit, 's) op"
  co_set_night_vision :: "json \<Rightarrow> (unit, 's) op"
  co_get_night_vision :: "(string, 's) op"
  co_set_flip :: "json \<Rightarrow> (unit, 's) op"
  co_get_flip :: "(string, 's) op"
  co_set_video_quality :: "json \<Rightarrow> (unit, 's) op"
  co_set_motion :: "json \<Rightarrow> (unit, 's) op"
  co_set_intrusion :: "json \<Rightarrow> schedule option \<Rightarrow> (unit, 's) op"
  co_reboot :: "(unit, 's) op"

record 's api =
  api_cameras :: "(string \<times> 's camera_ops) list"
  token_file :: "string result"
  loads :: "bytes \<Rightarrow> json option"

record 's api_state =
  as_camera :: 's
  as_store :: control_store

record api_response =
  status :: nat
  response_body :: json

text \<open>Running an operation of a camera or of the store inside the API.\<close>

definition on_camera :: "('a, 's) op \<Rightarrow> ('a, 's api_state) op" where
  "on_camera m a = (case m (as_camera a) of (r, s) \<Rightarrow> (r, a\<lparr>as_camera := s\<rparr>))"

definition on_store :: "('a, control_store) op \<Rightarrow> ('a, 's api_state) op" where
  "on_store m a = (case m (as_store a) of (r, st) \<Rightarrow> (r, a\<lparr>as_store := st\<rparr>))"

section \<open>Authorisation\<close>

text \<open>\<open>str.strip()\<close> on ASCII white space, and the \<open>TypeError\<close> of \<open>compare_digest\<close>.\<close>

definition is_space :: "char \<Rightarrow> bool" where
  "is_space c \<longleftrightarrow> (let n = of_char c :: nat in 9 \<le> n \<and> n \<le> 13 \<or> 28 \<le> n \<and> n \<le> 32)"

definition strip :: "string \<Rightarrow> string" where
  "strip s = rev (dropWhile is_space (rev (dropWhile is_space s)))"

definition is_ascii :: "string \<Rightarrow> bool" where
  "is_ascii s \<longleftrightarrow> list_all (\<lambda>c. (of_char c :: nat) < 128) s"

definition compare_digest :: "string \<Rightarrow> string \<Rightarrow> bool result" where
  "compare_digest a b =
     (if is_ascii a \<and> is_ascii b then Inr (a = b)
      else Inl (TypeError ''comparing strings with non-ASCII characters is not supported''))"

definition authorized :: "string result \<Rightarrow> string option \<Rightarrow> bool result" where
  "authorized file header =
     (case header of
        None \<Rightarrow> Inr False
      | Some h \<Rightarrow>
          if \<not> prefix ''Bearer '' h then Inr False
          else
            (case file of
               Inl e \<Rightarrow> if is_os_error e then Inr False else Inl e
             | Inr text \<Rightarrow>
                 let token = strip text in
                 if token = [] then Inr False else compare_digest (drop 7 h) token))"

section \<open>Requests\<close>

text \<open>\<open>[part for part in path.split("/") if part]\<close>.\<close>

fun split_slash :: "string \<Rightarrow> string list" where
  "split_slash [] = [[]]"
| "split_slash (c # s) =
     (if c = CHR ''/'' then [] # split_slash s
      else (case split_slash s of [] \<Rightarrow> [[c]] | p # ps \<Rightarrow> (c # p) # ps))"

definition path_parts :: "string \<Rightarrow> string list" where
  "path_parts path = filter (\<lambda>part. part \<noteq> []) (split_slash path)"

definition json_object :: "(bytes \<Rightarrow> json option) \<Rightarrow> bytes \<Rightarrow> dict result" where
  "json_object ld raw_body =
     (case ld raw_body of Some (JObj d) \<Rightarrow> Inr d | _ \<Rightarrow> Inl InvalidRequest)"

definition body_boolean :: "dict \<Rightarrow> string \<Rightarrow> json result" where
  "body_boolean body key =
     (case dict_get body key of JBool b \<Rightarrow> Inr (JBool b) | _ \<Rightarrow> Inl InvalidRequest)"

definition body_enum :: "dict \<Rightarrow> string \<Rightarrow> enum_values \<Rightarrow> json result" where
  "body_enum body key values =
     (if enum_lookup (dict_get body key) values = None then Inl InvalidRequest
      else Inr (dict_get body key))"

definition known :: "json \<Rightarrow> string \<Rightarrow> json" where
  "known v source = JObj [(''value'', v), (''known'', JBool True), (''source'', JStr source)]"

definition unknown_value :: json where
  "unknown_value = JObj [(''value'', JNull), (''known'', JBool False), (''source'', JStr ''unknown'')]"

definition api_error :: "nat \<Rightarrow> string \<Rightarrow> api_response" where
  "api_error code name =
     \<lparr>status = code,
      response_body = JObj [(''error'', JObj [(''code'', JStr name),
        (''message'', JStr (if prefix ''camera_'' name then ''camera operation failed'' else ''request failed''))])]\<rparr>"

section \<open>Operations\<close>

text \<open>\<open>_update_control\<close>: the request is checked, the camera is changed, the value is stored.\<close>

definition update_control :: "string \<Rightarrow> 's camera_ops \<Rightarrow> string \<Rightarrow> dict \<Rightarrow> (json, 's api_state) op" where
  "update_control camera_id camera control body =
     seq_state
       (if control = ''led'' then
          seq_state (lift_result (body_boolean body ''value'')) (\<lambda>v.
          seq_state (on_camera (co_set_status_led camera v)) (\<lambda>_. lift_result (Inr v)))
        else if control = ''night_vision'' then
          seq_state (lift_result (body_enum body ''value'' NIGHT_VALUES)) (\<lambda>v.
          seq_state (on_camera (co_set_night_vision camera v)) (\<lambda>_. lift_result (Inr v)))
        else if control = ''flip'' then
          seq_state (lift_result (body_enum body ''value'' FLIP_VALUES)) (\<lambda>v.
          seq_state (on_camera (co_set_flip camera v)) (\<lambda>_. lift_result (Inr v)))
        else if control = ''video_quality'' then
          seq_state (lift_result (body_enum body ''value'' VIDEO_QUALITY_VALUES)) (\<lambda>v.
          seq_state (on_camera (co_set_video_quality camera v)) (\<lambda>_. lift_result (Inr v)))
        else if control = ''motion'' then
          seq_state (lift_result (body_enum body ''value'' MOTION_VALUES)) (\<lambda>v.
          seq_state (on_camera (co_set_motion camera v)) (\<lambda>_. lift_result (Inr v)))
        else if control = ''intrusion'' then
          seq_state (lift_result (body_boolean body ''enabled'')) (\<lambda>enabled.
          seq_state (lift_result (schedule_from_value (dict_get body ''schedule''))) (\<lambda>s.
          seq_state (on_camera (co_set_intrusion camera enabled (Some s))) (\<lambda>_.
            lift_result (Inr (JObj [(''enabled'', enabled), (''schedule'', schedule_to_value s)])))))
        else lift_result (Inl (LookupError control)))
       (\<lambda>v.
         seq_state (on_store (store_set camera_id control v)) (\<lambda>_.
           lift_result (Inr (JObj [(''id'', JStr camera_id),
             (''controls'', JObj [(control, known v ''persisted'')])]))))"

text \<open>\<open>_control_values\<close>, \<open>_safe_readback\<close> and \<open>_camera_detail\<close>.\<close>

definition control_values :: "control_store \<Rightarrow> string \<Rightarrow> dict result" where
  "control_values st camera_id =
     bind (store_values st camera_id) (\<lambda>saved.
       Inr (map (\<lambda>control. (control,
              (case map_of saved control of None \<Rightarrow> unknown_value | Some v \<Rightarrow> known v ''persisted'')))
            PERSISTED_CONTROLS))"

definition safe_readback :: "(string, 's) op \<Rightarrow> json \<Rightarrow> (json, 's api_state) op" where
  "safe_readback getter fallback a =
     (case on_camera getter a of
        (Inr v, a) \<Rightarrow> (Inr (known (JStr v) ''readback''), a)
      | (Inl e, a) \<Rightarrow> if is_timeout e \<or> is_camera_error e then (Inr fallback, a) else (Inl e, a))"

text \<open>\<open>bool(value)\<close>.\<close>

fun truthy :: "json \<Rightarrow> bool" where
  "truthy JNull = False"
| "truthy (JBool b) = b"
| "truthy (JInt i) = (i \<noteq> 0)"
| "truthy (JFloat q) = (q \<noteq> 0)"
| "truthy (JStr s) = (s \<noteq> [])"
| "truthy (JList xs) = (xs \<noteq> [])"
| "truthy (JObj d) = (d \<noteq> [])"

definition camera_detail_from :: "string \<Rightarrow> 's camera_ops \<Rightarrow> dict \<Rightarrow> dict result \<Rightarrow> (json, 's api_state) op" where
  "camera_detail_from camera_id camera stat saved =
     (let connected = truthy (dict_get stat ''connected'') in
      seq_state (lift_result saved) (\<lambda>controls.
      seq_state
        (if connected \<and> dict_get stat ''error'' = JNull then
           seq_state (safe_readback (co_get_night_vision camera) (dict_get controls ''night_vision'')) (\<lambda>night.
           seq_state (safe_readback (co_get_flip camera) (dict_get controls ''flip'')) (\<lambda>flip.
             lift_result (Inr (dict_set (dict_set controls ''night_vision'' night) ''flip'' flip))))
         else lift_result (Inr controls)) (\<lambda>controls.
        lift_result (Inr (JObj [(''id'', JStr camera_id), (''connected'', JBool connected),
          (''media'', JObj (filter (\<lambda>(key, v). key \<noteq> ''connected'') stat)),
          (''controls'', JObj controls)])))))"

definition camera_detail :: "string \<Rightarrow> 's camera_ops \<Rightarrow> (json, 's api_state) op" where
  "camera_detail camera_id camera a =
     camera_detail_from camera_id camera (co_status camera (as_camera a)) (control_values (as_store a) camera_id) a"

section \<open>Routing\<close>

text \<open>The \<open>try\<close> block of \<open>handle\<close>; \<open>None\<close> is that no route matched.\<close>

definition route_camera :: "'s api \<Rightarrow> string \<Rightarrow> string list \<Rightarrow> string \<Rightarrow> 's camera_ops \<Rightarrow> bytes
    \<Rightarrow> (json option, 's api_state) op" where
  "route_camera api method parts camera_id camera raw_body =
     (if method = ''GET'' \<and> length parts = 4 then
        seq_state (camera_detail camera_id camera) (\<lambda>b. lift_result (Inr (Some b)))
      else if method = ''PUT'' \<and> length parts = 6 \<and> parts ! 4 = ''controls'' then
        seq_state (lift_result (json_object (loads api) raw_body)) (\<lambda>body.
        seq_state (update_control camera_id camera (parts ! 5) body) (\<lambda>b. lift_result (Inr (Some b))))
      else if method = ''POST'' \<and> drop 4 parts = [''reboot''] then
        seq_state (on_camera (co_reboot camera)) (\<lambda>_.
          lift_result (Inr (Some (JObj [(''id'', JStr camera_id), (''rebooting'', JBool True)]))))
      else lift_result (Inr None))"

text \<open>The \<open>except\<close> clauses, in their order; what no clause catches leaves \<open>handle\<close>.\<close>

definition answer_of :: "json option result \<Rightarrow> api_response result" where
  "answer_of r =
     (case r of
        Inr (Some b) \<Rightarrow> Inr \<lparr>status = 200, response_body = b\<rparr>
      | Inr None \<Rightarrow> Inr (api_error 404 ''not_found'')
      | Inl e \<Rightarrow>
          (case e of
             InvalidRequest \<Rightarrow> Inr (api_error 400 ''invalid_request'')
           | LookupError _ \<Rightarrow> Inr (api_error 404 ''not_found'')
           | TimeoutError _ \<Rightarrow> Inr (api_error 504 ''camera_timeout'')
           | CameraUnavailable _ \<Rightarrow> Inr (api_error 503 ''camera_unavailable'')
           | CameraError _ \<Rightarrow> Inr (api_error 502 ''camera_error'')
           | _ \<Rightarrow> Inl e))"

definition list_cameras :: "'s api \<Rightarrow> 's api_state \<Rightarrow> json" where
  "list_cameras api a =
     JObj [(''cameras'', JList (map (\<lambda>(camera_id, camera).
       JObj [(''id'', JStr camera_id),
             (''connected'', JBool (truthy (dict_get (co_status camera (as_camera a)) ''connected'')))])
       (api_cameras api)))]"

definition handle :: "'s api \<Rightarrow> string \<Rightarrow> string \<Rightarrow> string option \<Rightarrow> bytes \<Rightarrow> (api_response, 's api_state) op" where
  "handle api method path header raw_body a =
     (if method = ''GET'' \<and> path = ''/health'' then
        (Inr \<lparr>status = 200, response_body = JObj [(''status'', JStr ''ok'')]\<rparr>, a)
      else
        (case authorized (token_file api) header of
           Inl e \<Rightarrow> (Inl e, a)
         | Inr False \<Rightarrow> (Inr (api_error 401 ''unauthorized''), a)
         | Inr True \<Rightarrow>
             let parts = path_parts path in
             if parts = [''api'', ''v1'', ''cameras''] \<and> method = ''GET'' then
               (Inr \<lparr>status = 200, response_body = list_cameras api a\<rparr>, a)
             else if length parts < 4 \<or> take 3 parts \<noteq> [''api'', ''v1'', ''cameras''] then
               (Inr (api_error 404 ''not_found''), a)
             else
               (case map_of (api_cameras api) (parts ! 3) of
                  None \<Rightarrow> (Inr (api_error 404 ''not_found''), a)
                | Some camera \<Rightarrow>
                    (case route_camera api method parts (parts ! 3) camera raw_body a of
                       (r, a) \<Rightarrow> (answer_of r, a)))))"

end
