(* ===== verification/Control_API_Correct.thy ===== *)
theory Control_API_Correct
  imports Control_API
begin

text \<open>
  Correctness of \<open>ControlAPI\<close>: who may change anything, in which order a change happens, which
  exceptions become answers, what the store holds, and the interface the API needs of a camera.
\<close>

section \<open>The order of an update\<close>

text \<open>
  The specification: what a request asks for, and the camera operation that does it. A request is
  turned into a value first, then the camera is asked, then the value is stored.
\<close>

definition request_value :: "string \<Rightarrow> dict \<Rightarrow> json result" where
  "request_value control body =
     (if control \<notin> set PERSISTED_CONTROLS then Inl (LookupError control)
      else
        validated_control_value control
          (if control = ''intrusion'' then JObj body else dict_get body ''value''))"

definition camera_set :: "'s camera_ops \<Rightarrow> string \<Rightarrow> json \<Rightarrow> (unit, 's) op" where
  "camera_set camera control v =
     (if control = ''led'' then co_set_status_led camera v
      else if control = ''night_vision'' then co_set_night_vision camera v
      else if control = ''flip'' then co_set_flip camera v
      else if control = ''video_quality'' then co_set_video_quality camera v
      else if control = ''motion'' then co_set_motion camera v
      else
        (case v of
           JObj d \<Rightarrow>
             (case schedule_from_value (dict_get d ''schedule'') of
                Inr s \<Rightarrow> co_set_intrusion camera (dict_get d ''enabled'') (Some s)
              | Inl e \<Rightarrow> lift_result (Inl e))
         | _ \<Rightarrow> lift_result (Inl InvalidRequest)))"

definition update_spec :: "string \<Rightarrow> 's camera_ops \<Rightarrow> string \<Rightarrow> dict \<Rightarrow> (json, 's api_state) op" where
  "update_spec camera_id camera control body =
     seq_state (lift_result (request_value control body)) (\<lambda>v.
     seq_state (on_camera (camera_set camera control v)) (\<lambda>_.
     seq_state (on_store (store_set camera_id control v)) (\<lambda>_.
       lift_result (Inr (JObj [(''id'', JStr camera_id),
         (''controls'', JObj [(control, known v ''persisted'')])])))))"

lemma seq_state_assoc: "seq_state (seq_state m k) l = seq_state m (\<lambda>x. seq_state (k x) l)"
  by (auto simp: seq_state_def fun_eq_iff split: prod.split sum.split)

lemma seq_lift: "seq_state (lift_result r) k = (case r of Inl e \<Rightarrow> lift_result (Inl e) | Inr x \<Rightarrow> k x)"
  by (cases r) simp_all

lemma body_enum_validated:
  "map_of ENUM_CONTROLS control = Some values \<Longrightarrow> control \<noteq> ''led'' \<Longrightarrow>
     body_enum body ''value'' values = validated_control_value control (dict_get body ''value'')"
  by (simp add: body_enum_def validated_control_value_def)

lemma body_boolean_validated:
  "body_boolean body ''value'' = validated_control_value ''led'' (dict_get body ''value'')"
  by (simp add: body_boolean_def validated_control_value_def split: json.split)

lemma update_intrusion:
  "seq_state (lift_result (body_boolean body ''enabled'')) (\<lambda>enabled.
     seq_state (lift_result (schedule_from_value (dict_get body ''schedule''))) (\<lambda>s.
     seq_state (on_camera (co_set_intrusion camera enabled (Some s))) (\<lambda>_.
       lift_result (Inr (JObj [(''enabled'', enabled), (''schedule'', schedule_to_value s)]))))) =
   seq_state (lift_result (validated_control_value ''intrusion'' (JObj body))) (\<lambda>v.
     seq_state (on_camera (camera_set camera ''intrusion'' v)) (\<lambda>_. lift_result (Inr v)))"
proof (cases "dict_get body ''enabled''")
  case (JBool enabled)
  show ?thesis
  proof (cases "schedule_from_value (dict_get body ''schedule'')")
    case (Inl e)
    with JBool show ?thesis
      by (simp add: body_boolean_def validated_control_value_def ENUM_CONTROLS_def lift_result_def fun_eq_iff)
  next
    case (Inr s)
    then have "schedule_sound s" by (simp add: schedule_from_value_Inr)
    with JBool Inr show ?thesis
      by (simp add: body_boolean_def validated_control_value_def ENUM_CONTROLS_def intrusion_value_def
          camera_set_def dict_get_def schedule_from_to_value)
  qed
qed (simp_all add: body_boolean_def validated_control_value_def ENUM_CONTROLS_def)

lemma update_control_spec: "update_control camera_id camera control body = update_spec camera_id camera control body"
proof -
  have enum: "body_enum body ''value'' NIGHT_VALUES = validated_control_value ''night_vision'' (dict_get body ''value'')"
    "body_enum body ''value'' FLIP_VALUES = validated_control_value ''flip'' (dict_get body ''value'')"
    "body_enum body ''value'' VIDEO_QUALITY_VALUES = validated_control_value ''video_quality'' (dict_get body ''value'')"
    "body_enum body ''value'' MOTION_VALUES = validated_control_value ''motion'' (dict_get body ''value'')"
    by (intro body_enum_validated; simp add: ENUM_CONTROLS_def)+
  consider "control = ''led''" | "control = ''night_vision''" | "control = ''flip''"
    | "control = ''video_quality''" | "control = ''motion''" | "control = ''intrusion''"
    | (other) "control \<notin> set PERSISTED_CONTROLS"
    by (auto simp: PERSISTED_CONTROLS_def)
  then show ?thesis
  proof cases
    case other
    then have "control \<noteq> ''led''" "control \<noteq> ''night_vision''" "control \<noteq> ''flip''"
      "control \<noteq> ''video_quality''" "control \<noteq> ''motion''" "control \<noteq> ''intrusion''"
      by (auto simp: PERSISTED_CONTROLS_def)
    with other show ?thesis
      by (simp add: update_control_def update_spec_def request_value_def)
  qed (simp_all add: update_control_def update_spec_def request_value_def PERSISTED_CONTROLS_def
      enum body_boolean_validated update_intrusion seq_state_assoc, simp_all add: camera_set_def)
qed

lemma request_value_ok: "request_value control body = Inr v \<Longrightarrow> control_value_ok control v"
  by (auto simp: request_value_def dest: validated_Inr_ok split: if_splits)

lemma store_set_accepts:
  "control_value_ok control v \<Longrightarrow> fst (store_set camera_id control v st) \<noteq> Inl InvalidRequest \<or>
     (\<exists>rest. cs_writes st = Some InvalidRequest # rest)"
  by (auto simp: store_set_def validated_ok store_write_def split: option.split list.split)

text \<open>
  C5. A control update is checked, then sent to the camera, then stored, and stops at the first
  failure: a bad request reaches neither the camera nor the store; when the camera raises, nothing is
  stored; a value the camera accepted is accepted by the store unchanged. So the code of the six
  controls is one and the same procedure.
\<close>

theorem update_checks_then_sends_then_stores:
  "update_control camera_id camera control body a =
     (case request_value control body of
        Inl e \<Rightarrow> (Inl e, a)
      | Inr v \<Rightarrow>
          (case camera_set camera control v (as_camera a) of
             (Inl e, s) \<Rightarrow> (Inl e, a\<lparr>as_camera := s\<rparr>)
           | (Inr _, s) \<Rightarrow>
               (case store_set camera_id control v (as_store a) of
                  (Inl e, st) \<Rightarrow> (Inl e, \<lparr>as_camera = s, as_store = st\<rparr>)
                | (Inr _, st) \<Rightarrow>
                    (Inr (JObj [(''id'', JStr camera_id), (''controls'', JObj [(control, known v ''persisted'')])]),
                     \<lparr>as_camera = s, as_store = st\<rparr>)))) \<and>
   (\<forall>v. request_value control body = Inr v \<longrightarrow> validated_control_value control v = Inr v)"
proof (intro conjI allI impI)
  show "validated_control_value control v = Inr v" if "request_value control body = Inr v" for v
    by (rule validated_ok [OF request_value_ok [OF that]])
qed (cases "request_value control body";
    auto simp: update_control_spec update_spec_def seq_state_def on_camera_def on_store_def
      split: prod.split sum.split)

text \<open>A camera that accepts everything, and an API on it.\<close>

definition demo_camera :: "'s camera_ops" where
  "demo_camera =
     \<lparr>co_status = (\<lambda>_. [(''connected'', JBool True), (''error'', JNull)]),
      co_set_status_led = (\<lambda>_ s. (Inr (), s)), co_set_night_vision = (\<lambda>_ s. (Inr (), s)),
      co_get_night_vision = (\<lambda>s. (Inr ''automatic'', s)), co_set_flip = (\<lambda>_ s. (Inr (), s)),
      co_get_flip = (\<lambda>s. (Inl (TimeoutError ''no response''), s)), co_set_video_quality = (\<lambda>_ s. (Inr (), s)),
      co_set_motion = (\<lambda>_ s. (Inr (), s)), co_set_intrusion = (\<lambda>_ _ s. (Inr (), s)), co_reboot = (\<lambda>s. (Inr (), s))\<rparr>"

lemma update_checks_then_sends_then_stores_witness:
  "fst (update_control ''cam'' demo_camera ''led'' [(''value'', JBool True)] \<lparr>as_camera = (), as_store = demo_store\<rparr>) =
     Inr (JObj [(''id'', JStr ''cam''), (''controls'', JObj [(''led'', known (JBool True) ''persisted'')])])"
  using update_checks_then_sends_then_stores [THEN conjunct1,
      of "''cam''" demo_camera "''led''" "[(''value'', JBool True)]" "\<lparr>as_camera = (), as_store = demo_store\<rparr>"]
  by (simp add: request_value_def PERSISTED_CONTROLS_def dict_get_def validated_control_value_def camera_set_def
      demo_camera_def store_set_def demo_store_def store_write_def)

section \<open>Who may change anything\<close>

text \<open>What \<open>_authorized\<close> decides: the header carries the stripped text of the token file.\<close>

definition bearer :: "string \<Rightarrow> string" where
  "bearer token = ''Bearer '' @ token"

definition opens :: "string result \<Rightarrow> string option \<Rightarrow> bool" where
  "opens file header \<longleftrightarrow>
     (\<exists>text. file = Inr text \<and> strip text \<noteq> [] \<and> is_ascii (strip text) \<and> header = Some (bearer (strip text)))"

lemma authorized_iff: "authorized f header = Inr True \<longleftrightarrow> opens f header"
proof (cases header)
  case (Some h)
  show ?thesis
  proof (cases "prefix ''Bearer '' h")
    case True
    then obtain rest where "h = ''Bearer '' @ rest" by (auto simp: prefix_def)
    with Some show ?thesis
      by (cases f) (auto simp: authorized_def opens_def bearer_def compare_digest_def Let_def)
  next
    case False
    with Some show ?thesis
      by (auto simp: authorized_def opens_def bearer_def)
  qed
qed (simp add: authorized_def opens_def)

text \<open>
  What authorisation itself can raise: the \<open>TypeError\<close> of a comparison outside ASCII, and what reading
  the token file raises unless it is an \<open>OSError\<close>.
\<close>

definition token_raises :: "string result \<Rightarrow> string option \<Rightarrow> exn \<Rightarrow> bool" where
  "token_raises f header e \<longleftrightarrow>
     is_type_error e \<and>
       (\<exists>h text. header = Some h \<and> f = Inr text \<and> \<not> (is_ascii (drop 7 h) \<and> is_ascii (strip text))) \<or>
     f = Inl e \<and> \<not> is_os_error e"

lemma authorized_Inl: "authorized f header = Inl e \<Longrightarrow> token_raises f header e"
  by (auto simp: authorized_def token_raises_def compare_digest_def Let_def
      split: option.splits sum.splits if_splits)

text \<open>
  Without the token nothing happens and nothing is told. A request whose \<open>Authorization\<close> header
  is not \<open>Bearer\<close> followed by the stripped, non-empty content of the token file changes neither a camera nor
  the store; apart from \<open>GET /health\<close> it gets 401, whatever the path, so it cannot even learn
  which cameras exist - or, if header or file hold a character outside ASCII, the comparison raises
  \<open>TypeError\<close>, and if the file cannot be read for another reason than an \<open>OSError\<close>, so does reading it;
  these leave \<open>handle\<close> without an answer.
\<close>

theorem nothing_without_token:
  assumes "\<not> opens (token_file api) header"
  shows "snd (handle api method path header raw_body a) = a \<and>
    (\<not> (method = ''GET'' \<and> path = ''/health'') \<longrightarrow>
       fst (handle api method path header raw_body a) =
         (case authorized (token_file api) header of Inl e \<Rightarrow> Inl e | Inr _ \<Rightarrow> Inr (api_error 401 ''unauthorized''))) \<and>
    (\<forall>e. fst (handle api method path header raw_body a) = Inl e \<longrightarrow> token_raises (token_file api) header e)"
proof (cases "authorized (token_file api) header")
  case (Inl e)
  with authorized_Inl [OF Inl] show ?thesis by (simp add: handle_def)
next
  case (Inr b)
  with assms have "b = False" by (auto simp flip: authorized_iff)
  with Inr show ?thesis by (simp add: handle_def)
qed

definition demo_api :: "unit api" where
  "demo_api = \<lparr>api_cameras = [(''cam'', demo_camera)], token_file = Inr (''secret'' @ [char_of (10::nat)]), loads = (\<lambda>_. None)\<rparr>"

definition demo_state :: "unit api_state" where
  "demo_state = \<lparr>as_camera = (), as_store = demo_store\<rparr>"

lemma nothing_without_token_witness:
  "handle demo_api ''POST'' ''/api/v1/cameras/cam/reboot'' (Some ''Bearer guess'') [] demo_state =
     (Inr (api_error 401 ''unauthorized''), demo_state)"
proof -
  have token: "strip (''secret'' @ [char_of (10::nat)]) = ''secret''"
    by (simp add: strip_def is_space_def)
  have "\<not> opens (token_file demo_api) (Some ''Bearer guess'')"
    by (simp add: opens_def demo_api_def bearer_def token [simplified])
  moreover have "authorized (token_file demo_api) (Some ''Bearer guess'') = Inr False"
    by (simp add: authorized_def demo_api_def token [simplified] compare_digest_def is_ascii_def)
  ultimately show ?thesis
    using nothing_without_token [of demo_api "Some ''Bearer guess''" "''POST''" "''/api/v1/cameras/cam/reboot''" "[]" demo_state]
    by (simp add: prod_eq_iff)
qed

section \<open>What the API needs of a camera\<close>

text \<open>
  The interface: the operations of a camera over a state, a property of the state that each of them
  keeps, and the exceptions they may raise. The lemmas of the API are proved once from it.
\<close>

locale camera_port =
  fixes camera :: "'s camera_ops" and good :: "'s \<Rightarrow> bool" and raises :: "exn \<Rightarrow> bool"
  assumes led: "behaves good raises (co_set_status_led camera (JBool b))"
    and night_vision: "n \<in> fst ` set NIGHT_VALUES \<Longrightarrow> behaves good raises (co_set_night_vision camera (JStr n))"
    and flip: "n \<in> fst ` set FLIP_VALUES \<Longrightarrow> behaves good raises (co_set_flip camera (JStr n))"
    and video_quality:
      "n \<in> fst ` set VIDEO_QUALITY_VALUES \<Longrightarrow> behaves good raises (co_set_video_quality camera (JStr n))"
    and motion: "n \<in> fst ` set MOTION_VALUES \<Longrightarrow> behaves good raises (co_set_motion camera (JStr n))"
    and intrusion: "schedule_sound sched \<Longrightarrow> behaves good raises (co_set_intrusion camera (JBool b) (Some sched))"
    and read_night_vision: "behaves good raises (co_get_night_vision camera)"
    and read_flip: "behaves good raises (co_get_flip camera)"
    and reboot: "behaves good raises (co_reboot camera)"

text \<open>What the API keeps, and what its parts may raise; \<open>w\<close> are the failures of the file system.\<close>

definition api_inv :: "('s \<Rightarrow> bool) \<Rightarrow> (exn \<Rightarrow> bool) \<Rightarrow> 's api_state \<Rightarrow> bool" where
  "api_inv good w a \<longleftrightarrow> good (as_camera a) \<and> store_ok (as_store a) \<and>
     (\<forall>e. Some e \<in> set (cs_writes (as_store a)) \<longrightarrow> w e)"

fun is_lookup_error :: "exn \<Rightarrow> bool" where
  "is_lookup_error (LookupError m) = True"
| "is_lookup_error _ = False"

definition api_raises :: "(exn \<Rightarrow> bool) \<Rightarrow> (exn \<Rightarrow> bool) \<Rightarrow> exn \<Rightarrow> bool" where
  "api_raises raises w e \<longleftrightarrow> raises e \<or> w e \<or> e = InvalidRequest \<or> is_lookup_error e"

lemma behaves_on_camera:
  "behaves good raises m \<Longrightarrow> behaves (api_inv good w) (api_raises raises w) (on_camera m)"
  by (auto simp: behaves_def on_camera_def api_inv_def api_raises_def split: prod.split)

lemma store_set_writes:
  assumes "store_set i control v st = (r, st')"
  shows "set (cs_writes st') \<subseteq> set (cs_writes st)"
    and "r = Inl e \<Longrightarrow> Some e \<in> set (cs_writes st) \<or> e = InvalidRequest \<or> is_lookup_error e"
  using assms
  by (auto simp: store_set_def store_write_def dest: validated_Inl list.set_sel(2)
      split: sum.splits option.splits list.splits)

lemma behaves_on_store: "behaves (api_inv good w) (api_raises raises w) (on_store (store_set i control v))"
proof (rule behavesI)
  fix a r a' assume a: "api_inv good w a" "on_store (store_set i control v) a = (r, a')"
  then obtain st where st: "store_set i control v (as_store a) = (r, st)" "a' = a\<lparr>as_store := st\<rparr>"
    by (auto simp: on_store_def split: prod.splits)
  show "api_inv good w a' \<and> (\<forall>e. r = Inl e \<longrightarrow> api_raises raises w e)"
    using a(1) store_set_ok [of "as_store a" i control v] store_set_writes [OF st(1)] st
    by (auto simp: api_inv_def api_raises_def)
qed

lemma request_value_Inl: "request_value control body = Inl e \<Longrightarrow> e = InvalidRequest \<or> is_lookup_error e"
  by (auto simp: request_value_def dest: validated_Inl split: if_splits)

context camera_port
begin

lemma set_accepted:
  assumes "control_value_ok control v"
  shows "behaves good raises (camera_set camera control v)"
proof -
  consider b where "control = ''led''" "v = JBool b"
    | n where "control = ''night_vision''" "v = JStr n" "n \<in> fst ` set NIGHT_VALUES"
    | n where "control = ''flip''" "v = JStr n" "n \<in> fst ` set FLIP_VALUES"
    | n where "control = ''video_quality''" "v = JStr n" "n \<in> fst ` set VIDEO_QUALITY_VALUES"
    | n where "control = ''motion''" "v = JStr n" "n \<in> fst ` set MOTION_VALUES"
    | b sched where "control = ''intrusion''" "v = intrusion_value b sched" "schedule_sound sched"
    using assms by (auto simp: control_value_ok_def ENUM_CONTROLS_def split: if_splits)
  then show ?thesis
    by cases
      (simp_all add: camera_set_def led night_vision flip video_quality motion intrusion intrusion_value_def
        dict_get_def schedule_from_to_value)
qed

lemma update: "behaves (api_inv good w) (api_raises raises w) (update_control i camera control body)"
  unfolding update_control_spec update_spec_def
proof (intro behaves_seq behaves_lift)
  show "behaves (api_inv good w) (api_raises raises w) (on_camera (camera_set camera control v))"
    if "lift_result (request_value control body) s = (Inr v, s')" for v s s'
    using that by (auto intro!: behaves_on_camera set_accepted intro: request_value_ok)
qed (auto simp: api_raises_def behaves_on_store dest: request_value_Inl)

lemma readback:
  assumes "behaves good raises getter"
  shows "behaves (api_inv good w) (api_raises raises w) (safe_readback getter fallback)"
  using behaves_on_camera [OF assms, of w]
  by (auto simp: behaves_def safe_readback_def split: prod.splits sum.splits)

lemma control_values_Inl: "control_values st i = Inl e \<Longrightarrow> is_lookup_error e"
  by (auto simp: control_values_def store_values_def result_iff split: option.splits)

lemma detail: "behaves (api_inv good w) (api_raises raises w) (camera_detail i camera)"
proof (rule behavesI)
  fix a :: "'s api_state" and r a'
  let ?saved = "control_values (as_store a) i"
  assume a: "api_inv good w a" "camera_detail i camera a = (r, a')"
  have "behaves (api_inv good w) (api_raises raises w) (camera_detail_from i camera stat ?saved)" for stat
    unfolding camera_detail_from_def Let_def
    by (intro behaves_seq behaves_lift)
      (auto intro!: behaves_seq behaves_lift readback read_night_vision read_flip
        simp: api_raises_def dest: control_values_Inl)
  from behavesD [OF this a(1)] a(2) show "api_inv good w a' \<and> (\<forall>e. r = Inl e \<longrightarrow> api_raises raises w e)"
    by (simp add: camera_detail_def)
qed

lemma route: "behaves (api_inv good w) (api_raises raises w) (route_camera api method parts i camera raw_body)"
  unfolding route_camera_def
  by (auto intro!: behaves_seq behaves_lift update detail behaves_on_camera reboot
      simp: api_raises_def json_object_def split: option.splits json.splits)

end

text \<open>An API whose cameras all keep the interface, over one state.\<close>

locale camera_fleet =
  fixes api :: "'s api" and good :: "'s \<Rightarrow> bool" and raises :: "exn \<Rightarrow> bool"
  assumes port: "(i, camera) \<in> set (api_cameras api) \<Longrightarrow> camera_port camera good raises"

text \<open>The exceptions the \<open>except\<close> clauses of \<open>handle\<close> turn into an answer.\<close>

definition answered :: "exn \<Rightarrow> bool" where
  "answered e \<longleftrightarrow> e = InvalidRequest \<or> is_lookup_error e \<or> is_timeout e \<or> is_camera_error e"

lemma answer_of_Inl: "answer_of r = Inl e \<longleftrightarrow> r = Inl e \<and> \<not> answered e"
  by (cases e) (auto simp: answer_of_def answered_def split: sum.splits option.splits exn.splits)

context camera_fleet
begin

lemma handled:
  "behaves (api_inv good w) (\<lambda>e. (api_raises raises w e \<and> \<not> answered e) \<or> token_raises (token_file api) header e)
     (handle api method path header raw_body)"
proof (rule behavesI)
  fix a :: "'s api_state" and r a' assume a: "api_inv good w a" "handle api method path header raw_body a = (r, a')"
  show "api_inv good w a' \<and>
      (\<forall>e. r = Inl e \<longrightarrow> (api_raises raises w e \<and> \<not> answered e) \<or> token_raises (token_file api) header e)"
  proof (cases "\<exists>camera q. map_of (api_cameras api) (path_parts path ! 3) = Some camera \<and>
      route_camera api method (path_parts path) (path_parts path ! 3) camera raw_body a = (q, a') \<and> r = answer_of q")
    case True
    then obtain camera q where cam: "map_of (api_cameras api) (path_parts path ! 3) = Some camera"
      and run: "route_camera api method (path_parts path) (path_parts path ! 3) camera raw_body a = (q, a')"
      and r: "r = answer_of q" by blast
    from camera_port.route [OF port [OF map_of_SomeD [OF cam]], THEN behavesD, OF a(1) run]
    show ?thesis by (auto simp: r answer_of_Inl)
  next
    case False
    with a(2) have "a' = a \<and> (\<forall>e. r = Inl e \<longrightarrow> authorized (token_file api) header = Inl e)"
      by (auto simp: handle_def Let_def split: if_splits sum.splits bool.splits option.splits prod.splits)
    with a(1) authorized_Inl show ?thesis by blast
  qed
qed

end

section \<open>A change shows up\<close>

lemma answer_of_200: "answer_of r = Inr resp \<Longrightarrow> status resp = 200 \<Longrightarrow> \<exists>b. r = Inr (Some b) \<and> response_body resp = b"
  by (auto simp: answer_of_def api_error_def split: sum.splits option.splits exn.splits)

lemma six_parts:
  assumes "length ps = 6" and "take 3 ps = [a, b, c]" and "ps ! 3 = d" and "ps ! 4 = e" and "ps ! 5 = f"
  shows "ps = [a, b, c, d, e, f]"
proof -
  have "ps = take 3 ps @ [ps ! 3, ps ! 4, ps ! 5]"
    using assms(1) by (intro nth_equalityI) (auto simp: nth_append less_Suc_eq numeral_eq_Suc nth_Cons')
  then have "ps = take 3 ps @ [d, e, f]" by (simp only: assms(3-5))
  then show ?thesis by (simp add: assms(2))
qed

lemma handle_PUT_200:
  assumes "handle api ''PUT'' path header raw_body a = (Inr resp, a')" and "status resp = 200"
  obtains i control camera body b where
    "path_parts path = [''api'', ''v1'', ''cameras'', i, ''controls'', control]"
    "map_of (api_cameras api) i = Some camera" "loads api raw_body = Some (JObj body)"
    "update_control i camera control body a = (Inr b, a')" "response_body resp = b"
proof -
  let ?parts = "path_parts path"
  have shape: "\<not> (length ?parts < 4 \<or> take 3 ?parts \<noteq> [''api'', ''v1'', ''cameras''])"
    using assms
    by (auto simp: handle_def Let_def api_error_def split: if_splits sum.splits bool.splits option.splits prod.splits)
  with assms obtain camera q where cam: "map_of (api_cameras api) (?parts ! 3) = Some camera"
    and run: "route_camera api ''PUT'' ?parts (?parts ! 3) camera raw_body a = (q, a')" and "answer_of q = Inr resp"
    by (auto simp: handle_def Let_def api_error_def split: if_splits sum.splits bool.splits option.splits prod.splits)
  with answer_of_200 assms(2) obtain b where b: "q = Inr (Some b)" "response_body resp = b" by blast
  with run obtain body where body: "loads api raw_body = Some (JObj body)" "length ?parts = 6" "?parts ! 4 = ''controls''"
      "update_control (?parts ! 3) camera (?parts ! 5) body a = (Inr b, a')"
    by (auto simp: route_camera_def json_object_def seq_state_Inr_iff split: if_splits option.splits json.splits)
  have "?parts = [''api'', ''v1'', ''cameras'', ?parts ! 3, ''controls'', ?parts ! 5]"
    by (rule six_parts) (use shape body in auto)
  with that cam body b show thesis by blast
qed

lemma dict_set_map:
  assumes "k \<in> set ks" "distinct ks"
  shows "dict_set (map (\<lambda>x. (x, f x)) ks) k v = map (\<lambda>x. (x, if x = k then v else f x)) ks"
  using assms by (induction ks) auto

lemma control_values_dict:
  assumes "map_of (cs_state st) i = Some d"
  shows "control_values st i = Inr (map (\<lambda>c. (c, (case map_of d c of None \<Rightarrow> unknown_value
           | Some v \<Rightarrow> known v ''persisted''))) PERSISTED_CONTROLS)"
  using assms by (simp add: control_values_def store_values_def)

lemma store_write_file:
  "store_write st = (Inr (), st') \<Longrightarrow> cs_file st' = Some (store_document (cs_state st'))"
  by (cases st; cases st') (auto simp: store_write_def split: list.splits option.splits)

lemma update_control_stored:
  assumes "update_control i camera control body a = (Inr b, a')"
  shows "\<exists>v old. request_value control body = Inr v \<and>
    control_values (as_store a) i = Inr old \<and>
    control_values (as_store a') i = Inr (dict_set old control (known v ''persisted'')) \<and>
    (\<forall>j. j \<noteq> i \<longrightarrow> control_values (as_store a') j = control_values (as_store a) j) \<and>
    cs_file (as_store a') = Some (store_document (cs_state (as_store a')))"
proof -
  obtain v a1 where v: "request_value control body = Inr v"
    and a1: "on_camera (camera_set camera control v) a = (Inr (), a1)"
    and a2: "on_store (store_set i control v) a1 = (Inr (), a')"
    using assms by (auto simp: update_control_spec update_spec_def seq_state_Inr_iff)
  have "as_store a1 = as_store a"
    using a1 by (auto simp: on_camera_def split: prod.splits)
  then have stored: "store_set i control v (as_store a) = (Inr (), as_store a')"
    using a2 by (auto simp: on_store_def split: prod.splits)
  note ok = request_value_ok [OF v]
  obtain d where d: "map_of (cs_state (as_store a)) i = Some d"
    and st: "store_write ((as_store a)\<lparr>cs_state := dict_set (cs_state (as_store a)) i (dict_set d control v)\<rparr>) =
      (Inr (), as_store a')"
    using stored by (auto simp: store_set_def validated_ok [OF ok] split: option.splits)
  have state: "cs_state (as_store a') = dict_set (cs_state (as_store a)) i (dict_set d control v)"
    using store_write_state [of "(as_store a)\<lparr>cs_state := dict_set (cs_state (as_store a)) i (dict_set d control v)\<rparr>"] st
    by simp
  have "cs_file (as_store a') = Some (store_document (cs_state (as_store a')))"
    by (rule store_write_file [OF st])
  moreover have "control_values (as_store a') j = control_values (as_store a) j" if "j \<noteq> i" for j
    using that by (simp add: control_values_def store_values_def state)
  moreover have "control \<in> set PERSISTED_CONTROLS" "distinct PERSISTED_CONTROLS"
    using control_value_ok_persisted [OF ok] by (auto simp: PERSISTED_CONTROLS_def)
  note set = dict_set_map [OF this]
  have "control_values (as_store a') i =
      Inr (map (\<lambda>c. (c, (case map_of (dict_set d control v) c of None \<Rightarrow> unknown_value
           | Some v \<Rightarrow> known v ''persisted''))) PERSISTED_CONTROLS)"
    by (rule control_values_dict) (simp add: state)
  ultimately show ?thesis
    using v by (intro exI conjI) (auto simp: control_values_dict [OF d] set intro!: map_cong)
qed

lemma answer_of_status: "answer_of r = Inr resp \<Longrightarrow> status resp = 200 \<or> 400 \<le> status resp"
  by (auto simp: answer_of_def api_error_def split: sum.splits option.splits exn.splits)

lemma handle_status:
  assumes "handle api method path header raw_body a = (Inr resp, a')"
  shows "status resp = 200 \<or> 400 \<le> status resp"
proof (cases "method = ''GET'' \<and> path = ''/health''")
  case False
  note run = assms [unfolded handle_def if_not_P [OF False]]
  let ?parts = "path_parts path"
  show ?thesis
  proof (cases "authorized (token_file api) header = Inr True")
    case auth: True
    consider (list) "?parts = [''api'', ''v1'', ''cameras''] \<and> method = ''GET''"
      | (short) "\<not> (?parts = [''api'', ''v1'', ''cameras''] \<and> method = ''GET'')"
          "length ?parts < 4 \<or> take 3 ?parts \<noteq> [''api'', ''v1'', ''cameras'']"
      | (camera) "\<not> (?parts = [''api'', ''v1'', ''cameras''] \<and> method = ''GET'')"
          "\<not> (length ?parts < 4 \<or> take 3 ?parts \<noteq> [''api'', ''v1'', ''cameras''])"
      by blast
    then show ?thesis
    proof cases
      case list
      with run auth show ?thesis by (auto simp: Let_def)
    next
      case short
      with run auth show ?thesis by (simp add: Let_def api_error_def del: not_less) auto
    next
      case camera
      have "(case map_of (api_cameras api) (?parts ! 3) of
           None \<Rightarrow> (Inr (api_error 404 ''not_found''), a)
         | Some camera \<Rightarrow>
             (case route_camera api method ?parts (?parts ! 3) camera raw_body a of
                (r, a) \<Rightarrow> (answer_of r, a))) = (Inr resp, a')"
        using run by (simp only: auth sum.case bool.case Let_def if_not_P [OF camera(1)] if_not_P [OF camera(2)])
      then show ?thesis
        by (auto simp: api_error_def dest: answer_of_status split: option.splits prod.splits)
    qed
  next
    case no: False
    with run show ?thesis by (auto simp: api_error_def split: sum.splits bool.splits)
  qed
qed (use assms in \<open>simp add: handle_def, force\<close>)



end
