(* ===== verification/Control_Threads.thy ===== *)
theory Control_Threads
  imports Control_API_Correct
begin

text \<open>
  Control requests on several threads. The HTTP server runs each request on a thread of its own, and
  nothing locks a request as a whole: the session holds its control lock during the exchange with
  the camera, and the store its own lock during \<open>set\<close>. So a \<open>PUT\<close> is three steps - what it reads and
  checks on its own, the exchange with the camera, the change of the store - and the steps of
  different requests interleave in any order.
\<close>

section \<open>A request in steps\<close>

datatype put_request =
    Received string "string option" bytes
  | Sends string string json
  | Stores string string json
  | Answered "api_response result"

text \<open>
  \<open>handle\<close> up to the call of the camera operation: authorisation, routing, decoding and checks. All
  other paths of a \<open>PUT\<close> get the same 404.
\<close>

definition put_target :: "'s api \<Rightarrow> string \<Rightarrow> (string \<times> string) option" where
  "put_target api path =
     (let parts = path_parts path in
      if length parts = 6 \<and> take 3 parts = [''api'', ''v1'', ''cameras''] \<and>
        map_of (api_cameras api) (parts ! 3) \<noteq> None \<and> parts ! 4 = ''controls''
      then Some (parts ! 3, parts ! 5) else None)"

definition put_check :: "'s api \<Rightarrow> string \<Rightarrow> string option \<Rightarrow> bytes \<Rightarrow> put_request" where
  "put_check api path header raw_body =
     (case authorized (token_file api) header of
        Inl e \<Rightarrow> Answered (Inl e)
      | Inr False \<Rightarrow> Answered (Inr (api_error 401 ''unauthorized''))
      | Inr True \<Rightarrow>
          (case put_target api path of
             None \<Rightarrow> Answered (Inr (api_error 404 ''not_found''))
           | Some (i, control) \<Rightarrow>
               (case bind (json_object (loads api) raw_body) (request_value control) of
                  Inl e \<Rightarrow> Answered (answer_of (Inl e))
                | Inr v \<Rightarrow> Sends i control v)))"

text \<open>One step of a request, from the state the others left.\<close>

definition camera_of :: "'s api \<Rightarrow> string \<Rightarrow> 's camera_ops" where
  "camera_of api i = the (map_of (api_cameras api) i)"

fun put_step :: "'s api \<Rightarrow> put_request \<Rightarrow> 's api_state \<Rightarrow> put_request \<times> 's api_state" where
  "put_step api (Received path header raw_body) a = (put_check api path header raw_body, a)"
| "put_step api (Sends i control v) a =
     (case on_camera (camera_set (camera_of api i) control v) a of
        (Inl e, a) \<Rightarrow> (Answered (answer_of (Inl e)), a)
      | (Inr _, a) \<Rightarrow> (Stores i control v, a))"
| "put_step api (Stores i control v) a =
     (case on_store (store_set i control v) a of
        (Inl e, a) \<Rightarrow> (Answered (answer_of (Inl e)), a)
      | (Inr _, a) \<Rightarrow>
          (Answered (answer_of (Inr (Some (JObj [(''id'', JStr i),
             (''controls'', JObj [(control, known v ''persisted'')])])))), a))"
| "put_step api (Answered r) a = (Answered r, a)"

definition put_steps :: "'s api \<Rightarrow> put_request \<Rightarrow> 's api_state \<Rightarrow> put_request \<times> 's api_state" where
  "put_steps api q a =
     (case put_step api q a of (q, a) \<Rightarrow> case put_step api q a of (q, a) \<Rightarrow> put_step api q a)"

text \<open>A request that nothing interrupts does what \<open>handle\<close> does.\<close>

lemma put_alone:
  "put_steps api (Received path header raw_body) a =
     (case handle api ''PUT'' path header raw_body a of (r, a') \<Rightarrow> (Answered r, a'))"
proof (cases "authorized (token_file api) header")
  case (Inl e)
  then show ?thesis by (simp add: put_steps_def put_check_def handle_def)
next
  case (Inr b)
  let ?parts = "path_parts path"
  show ?thesis
  proof (cases b)
    case False
    with Inr show ?thesis by (simp add: put_steps_def put_check_def handle_def)
  next
    case True
    show ?thesis
    proof (cases "length ?parts < 4 \<or> take 3 ?parts \<noteq> [''api'', ''v1'', ''cameras'']")
      case short: True
      then have "put_target api path = None" by (auto simp: put_target_def Let_def)
      with short show ?thesis by (simp add: put_steps_def put_check_def handle_def Inr True Let_def)
    next
      case long: False
      have run: "handle api ''PUT'' path header raw_body a =
          (case map_of (api_cameras api) (?parts ! 3) of
             None \<Rightarrow> (Inr (api_error 404 ''not_found''), a)
           | Some camera \<Rightarrow>
               (case route_camera api ''PUT'' ?parts (?parts ! 3) camera raw_body a of (r, a) \<Rightarrow> (answer_of r, a)))"
        using long by (simp add: handle_def Inr True Let_def)
      show ?thesis
      proof (cases "put_target api path")
        case None
        with long show ?thesis
          by (auto simp: run put_steps_def put_check_def put_target_def Inr True Let_def route_camera_def answer_of_def
              split: if_splits option.split)
      next
        case (Some target)
        with long obtain camera where target: "target = (?parts ! 3, ?parts ! 5)" "length ?parts = 6" "?parts ! 4 = ''controls''"
          and cam: "map_of (api_cameras api) (?parts ! 3) = Some camera" "camera_of api (?parts ! 3) = camera"
          by (auto simp: put_target_def camera_of_def Let_def split: if_splits)
        have body: "handle api ''PUT'' path header raw_body a =
            (case bind (json_object (loads api) raw_body) (request_value (?parts ! 5)) of
               Inl e \<Rightarrow> (answer_of (Inl e), a)
             | Inr v \<Rightarrow>
                 (case seq_state (on_camera (camera_set camera (?parts ! 5) v)) (\<lambda>_.
                    seq_state (on_store (store_set (?parts ! 3) (?parts ! 5) v)) (\<lambda>_.
                      lift_result (Inr (Some (JObj [(''id'', JStr (?parts ! 3)),
                        (''controls'', JObj [(?parts ! 5, known v ''persisted'')])]))))) a of
                    (r, a) \<Rightarrow> (answer_of r, a)))"
          using target(2,3) cam(1)
          by (cases "json_object (loads api) raw_body")
            (auto simp: run route_camera_def update_control_spec update_spec_def seq_state_assoc seq_lift Let_def
              split: sum.split)
        show ?thesis
          by (cases "bind (json_object (loads api) raw_body) (request_value (?parts ! 5))")
            (auto simp: body put_steps_def put_check_def Some target(1) cam(2) Inr True seq_state_def Let_def
              split: prod.split sum.split)
      qed
    qed
  qed
qed

lemma put_check_not_late:
  "put_check api path header raw_body \<noteq> Received p h b" "put_check api path header raw_body \<noteq> Stores i control v"
  by (auto simp: put_check_def split: sum.split bool.split option.split)

section \<open>Many requests\<close>

text \<open>
  The server at work: the state of the API, the requests, and - only for the specification - the log
  of the changes the cameras accepted. In an event either the next step of one request runs, or
  something else changes the cameras: their readers, a reading of settings, a reboot.
\<close>

record 's serving =
  sg_state :: "'s api_state"
  sg_requests :: "put_request list"
  sg_accepted :: "(string \<times> string \<times> json) list"

datatype 's turn_event = Turn nat | Elsewhere 's

fun accepted_by :: "put_request \<Rightarrow> put_request \<Rightarrow> (string \<times> string \<times> json) list" where
  "accepted_by (Sends i control v) (Stores _ _ _) = [(i, control, v)]"
| "accepted_by _ _ = []"

fun serve_event :: "'s api \<Rightarrow> 's turn_event \<Rightarrow> 's serving \<Rightarrow> 's serving" where
  "serve_event api (Turn k) sg =
     (if k < length (sg_requests sg) then
        (case put_step api (sg_requests sg ! k) (sg_state sg) of
           (q, a) \<Rightarrow>
             \<lparr>sg_state = a, sg_requests = (sg_requests sg)[k := q],
              sg_accepted = sg_accepted sg @ accepted_by (sg_requests sg ! k) q\<rparr>)
      else sg)"
| "serve_event api (Elsewhere s) sg = sg\<lparr>sg_state := (sg_state sg)\<lparr>as_camera := s\<rparr>\<rparr>"

definition serve_events :: "'s api \<Rightarrow> 's turn_event list \<Rightarrow> 's serving \<Rightarrow> 's serving" where
  "serve_events api es sg = fold (serve_event api) es sg"

definition new_serving :: "'s api_state \<Rightarrow> (string \<times> string option \<times> bytes) list \<Rightarrow> 's serving" where
  "new_serving a reqs =
     \<lparr>sg_state = a, sg_requests = map (\<lambda>(path, header, raw_body). Received path header raw_body) reqs,
      sg_accepted = []\<rparr>"

text \<open>What the store holds for a control.\<close>

definition stored :: "control_store \<Rightarrow> string \<Rightarrow> string \<Rightarrow> json option" where
  "stored st i control = (case map_of (cs_state st) i of None \<Rightarrow> None | Some d \<Rightarrow> map_of d control)"

text \<open>What the requests ask for: the change of an authorised request with a valid body.\<close>

definition asks_for :: "'s api \<Rightarrow> string \<times> string option \<times> bytes \<Rightarrow> string \<Rightarrow> string \<Rightarrow> json \<Rightarrow> bool" where
  "asks_for api rq i control v =
     (case rq of (path, header, raw_body) \<Rightarrow>
        opens (token_file api) header \<and>
        path_parts path = [''api'', ''v1'', ''cameras'', i, ''controls'', control] \<and>
        (\<exists>camera. map_of (api_cameras api) i = Some camera) \<and>
        (\<exists>body. loads api raw_body = Some (JObj body) \<and> request_value control body = Inr v))"

lemma put_check_Sends:
  assumes "put_check api path header raw_body = Sends i control v"
  shows "asks_for api (path, header, raw_body) i control v"
proof -
  have auth: "authorized (token_file api) header = Inr True" and target: "put_target api path = Some (i, control)"
    and body: "bind (json_object (loads api) raw_body) (request_value control) = Inr v"
    using assms by (auto simp: put_check_def split: sum.splits bool.splits option.splits)
  have "path_parts path = [''api'', ''v1'', ''cameras'', i, ''controls'', control]"
    by (rule six_parts) (use target in \<open>auto simp: put_target_def Let_def split: if_splits\<close>)
  with auth target body show ?thesis
    by (auto simp: asks_for_def put_target_def Let_def json_object_def result_iff
        simp flip: authorized_iff split: if_splits option.splits json.splits)
qed

lemma stored_after_set:
  assumes "validated_control_value control v = Inr v"
  shows "stored (snd (store_set i control v st)) j c =
    (if j = i \<and> c = control \<and> i \<in> fst ` set (cs_state st) then Some v else stored st j c)"
proof (cases "map_of (cs_state st) i")
  case None
  then have "i \<notin> fst ` set (cs_state st)" by (simp add: map_of_eq_None_iff)
  with None assms show ?thesis by (auto simp: store_set_def)
next
  case (Some d)
  then have "i \<in> fst ` set (cs_state st)" by (force dest: map_of_SomeD)
  with Some assms show ?thesis
    by (simp add: store_set_def stored_def store_write_state)
qed

section \<open>Nothing is stored that was not asked for and accepted\<close>

fun request_ok :: "'s api \<Rightarrow> (string \<times> string option \<times> bytes) list \<Rightarrow> (string \<times> string \<times> json) list \<Rightarrow> put_request \<Rightarrow> bool" where
  "request_ok api reqs acc (Received path header raw_body) = ((path, header, raw_body) \<in> set reqs)"
| "request_ok api reqs acc (Sends i control v) = (\<exists>rq \<in> set reqs. asks_for api rq i control v)"
| "request_ok api reqs acc (Stores i control v) = ((i, control, v) \<in> set acc)"
| "request_ok api reqs acc (Answered r) = True"

definition traced :: "'s api \<Rightarrow> (string \<times> string option \<times> bytes) list \<Rightarrow> control_store \<Rightarrow> 's serving \<Rightarrow> bool" where
  "traced api reqs st0 sg \<longleftrightarrow>
     store_ok (as_store (sg_state sg)) \<and>
     (\<forall>q \<in> set (sg_requests sg). request_ok api reqs (sg_accepted sg) q) \<and>
     (\<forall>(i, control, v) \<in> set (sg_accepted sg). \<exists>rq \<in> set reqs. asks_for api rq i control v) \<and>
     (\<forall>i control. stored (as_store (sg_state sg)) i control = stored st0 i control \<or>
        (\<exists>v. stored (as_store (sg_state sg)) i control = Some v \<and> (i, control, v) \<in> set (sg_accepted sg)))"

lemma request_ok_mono: "request_ok api reqs acc q \<Longrightarrow> request_ok api reqs (acc @ rest) q"
  by (cases q) auto

lemma asks_for_valid: "asks_for api rq i control v \<Longrightarrow> validated_control_value control v = Inr v"
  by (auto simp: asks_for_def dest: request_value_ok validated_ok split: prod.splits)

lemma traced_new: "store_ok (as_store a) \<Longrightarrow> traced api reqs (as_store a) (new_serving a reqs)"
  by (auto simp: traced_def new_serving_def)

text \<open>The steps that leave the store and the log alone.\<close>

lemma traced_request:
  assumes "traced api reqs st0 sg" and "as_store a = as_store (sg_state sg)"
    and "request_ok api reqs (sg_accepted sg) q"
  shows "traced api reqs st0 \<lparr>sg_state = a, sg_requests = (sg_requests sg)[k := q], sg_accepted = sg_accepted sg\<rparr>"
proof -
  have "\<forall>p \<in> set ((sg_requests sg)[k := q]). request_ok api reqs (sg_accepted sg) p"
    using assms(1,3) set_update_subset_insert [of "sg_requests sg" k q] by (auto simp: traced_def)
  with assms(1,2) show ?thesis by (simp add: traced_def)
qed

lemma traced_log:
  assumes "traced api reqs st0 sg" and "\<exists>rq \<in> set reqs. asks_for api rq i control v"
  shows "traced api reqs st0 (sg\<lparr>sg_accepted := sg_accepted sg @ [(i, control, v)]\<rparr>)"
proof -
  have "\<forall>q \<in> set (sg_requests sg). request_ok api reqs (sg_accepted sg @ [(i, control, v)]) q"
    using assms(1) by (auto simp: traced_def intro: request_ok_mono)
  with assms show ?thesis unfolding traced_def by (simp, blast)
qed

lemma traced_store:
  assumes "traced api reqs st0 sg" and "(i, control, v) \<in> set (sg_accepted sg)"
    and "store_set i control v (as_store (sg_state sg)) = (r, st)"
  shows "traced api reqs st0 (sg\<lparr>sg_state := (sg_state sg)\<lparr>as_store := st\<rparr>\<rparr>)"
proof -
  have "validated_control_value control v = Inr v"
    using assms(1,2) asks_for_valid by (fastforce simp: traced_def)
  with stored_after_set [of control v i "as_store (sg_state sg)"] store_set_ok [of "as_store (sg_state sg)" i control v] assms
  show ?thesis unfolding traced_def by auto
qed

lemma traced_event:
  assumes "traced api reqs st0 sg"
  shows "traced api reqs st0 (serve_event api e sg)"
proof (cases e)
  case (Elsewhere s)
  with assms show ?thesis by (simp add: traced_def)
next
  case (Turn k)
  show ?thesis
  proof (cases "k < length (sg_requests sg)")
    case False
    with assms Turn show ?thesis by simp
  next
    case True
    define q where "q = sg_requests sg ! k"
    with True have q: "q \<in> set (sg_requests sg)" by simp
    have upd: "serve_event api e sg =
        \<lparr>sg_state = snd (put_step api q (sg_state sg)), sg_requests = (sg_requests sg)[k := fst (put_step api q (sg_state sg))],
         sg_accepted = sg_accepted sg @ accepted_by q (fst (put_step api q (sg_state sg)))\<rparr>"
      using Turn True by (simp add: q_def case_prod_unfold)
    show ?thesis
    proof (cases q)
      case (Received path header raw_body)
      then have "(path, header, raw_body) \<in> set reqs" using assms q by (force simp: traced_def)
      then show ?thesis
        using put_check_Sends [of api path header raw_body] put_check_not_late [of api path header raw_body]
        by (cases "put_check api path header raw_body") (auto simp: upd Received intro!: traced_request [OF assms])
    next
      case (Sends i control v)
      then have asks: "\<exists>rq \<in> set reqs. asks_for api rq i control v" using assms q by (force simp: traced_def)
      obtain r s where run: "camera_set (camera_of api i) control v (as_camera (sg_state sg)) = (r, s)" by fastforce
      show ?thesis
      proof (cases r)
        case (Inl x)
        then show ?thesis by (simp add: upd Sends on_camera_def run traced_request [OF assms])
      next
        case (Inr u)
        from traced_request [OF traced_log [OF assms asks], of "(sg_state sg)\<lparr>as_camera := s\<rparr>" "Stores i control v" k] Inr
        show ?thesis by (simp add: upd Sends on_camera_def run)
      qed
    next
      case (Stores i control v)
      then have log: "(i, control, v) \<in> set (sg_accepted sg)" using assms q by (force simp: traced_def)
      obtain r st where run: "store_set i control v (as_store (sg_state sg)) = (r, st)" by fastforce
      have "\<exists>x. fst (put_step api q (sg_state sg)) = Answered x"
        by (simp add: Stores on_store_def run split: sum.split)
      then obtain x where x: "fst (put_step api q (sg_state sg)) = Answered x" ..
      have a: "snd (put_step api q (sg_state sg)) = (sg_state sg)\<lparr>as_store := st\<rparr>"
        by (simp add: Stores on_store_def run split: sum.split)
      from traced_request [OF traced_store [OF assms log run], of "(sg_state sg)\<lparr>as_store := st\<rparr>" "Answered x" k]
      show ?thesis by (simp add: upd x a) 
    next
      case (Answered r)
      then show ?thesis by (simp add: upd traced_request [OF assms])
    qed
  qed
qed

lemma traced_events: "traced api reqs st0 sg \<Longrightarrow> traced api reqs st0 (serve_events api es sg)"
  unfolding serve_events_def by (induction es arbitrary: sg) (simp_all add: traced_event)

text \<open>
  C8. Whatever requests come in on however many threads, and however their steps interleave with
  each other and with everything else that changes the cameras, the store stays well-formed, and what
  it holds for a control is what it held at the start or a value that an authorised request with a valid
  body asked for and that the camera accepted from it before.
\<close>

theorem threads_store_accepted_values:
  assumes "store_ok (as_store a)" and "serve_events api es (new_serving a reqs) = sg"
  shows "store_ok (as_store (sg_state sg)) \<and>
    (\<forall>i control. stored (as_store (sg_state sg)) i control \<noteq> stored (as_store a) i control \<longrightarrow>
       (\<exists>v. stored (as_store (sg_state sg)) i control = Some v \<and> (i, control, v) \<in> set (sg_accepted sg))) \<and>
    (\<forall>(i, control, v) \<in> set (sg_accepted sg). control_value_ok control v \<and> (\<exists>rq \<in> set reqs. asks_for api rq i control v))"
proof -
  have t: "traced api reqs (as_store a) sg"
    using traced_events [OF traced_new [OF assms(1)]] assms(2) by blast
  moreover have "control_value_ok control v" if "asks_for api rq i control v" for rq i control v
    using that by (auto simp: asks_for_def dest: request_value_ok split: prod.splits)
  ultimately show ?thesis unfolding traced_def by blast
qed

section \<open>When camera and store agree\<close>

text \<open>
  The last value of a control that its camera accepted. Store and camera agree when this is what is stored.
\<close>

definition last_accepted :: "(string \<times> string \<times> json) list \<Rightarrow> string \<Rightarrow> string \<Rightarrow> json option" where
  "last_accepted acc i control = map_of (rev (map (\<lambda>(i, control, v). ((i, control), v)) acc)) (i, control)"

lemma last_accepted_Nil [simp]: "last_accepted [] i control = None"
  by (simp add: last_accepted_def)

lemma last_accepted_snoc [simp]:
  "last_accepted (acc @ [(j, c, v)]) i control = (if i = j \<and> control = c then Some v else last_accepted acc i control)"
  by (simp add: last_accepted_def)

text \<open>
  A schedule in which requests for the same control take turns: no request exchanges a value with the
  camera while another one for the same control of the same camera has yet to store its own.
\<close>

fun on_its_way :: "put_request \<Rightarrow> (string \<times> string) option" where
  "on_its_way (Stores i control v) = Some (i, control)"
| "on_its_way q = None"

fun takes_turns :: "put_request list \<Rightarrow> 's turn_event \<Rightarrow> bool" where
  "takes_turns qs (Turn k) =
     (if k < length qs then
        (case qs ! k of Sends i control v \<Rightarrow> list_all (\<lambda>q. on_its_way q \<noteq> Some (i, control)) qs | _ \<Rightarrow> True)
      else True)"
| "takes_turns qs (Elsewhere s) = True"

fun in_turns :: "'s api \<Rightarrow> 's turn_event list \<Rightarrow> 's serving \<Rightarrow> bool" where
  "in_turns api [] sg = True"
| "in_turns api (e # es) sg = (takes_turns (sg_requests sg) e \<and> in_turns api es (serve_event api e sg))"

text \<open>
  The invariant of such schedules: at most one request for a control is between camera and store, it
  carries the last accepted value, and when there is none the store holds this value.
\<close>

definition on_way_once :: "put_request list \<Rightarrow> bool" where
  "on_way_once qs \<longleftrightarrow> (\<forall>j < length qs. \<forall>k < length qs. on_its_way (qs ! j) \<noteq> None \<longrightarrow>
     on_its_way (qs ! j) = on_its_way (qs ! k) \<longrightarrow> j = k)"

definition agreeing :: "'s serving \<Rightarrow> bool" where
  "agreeing sg \<longleftrightarrow>
     on_way_once (sg_requests sg) \<and>
     (\<forall>i control v. Stores i control v \<in> set (sg_requests sg) \<longrightarrow> last_accepted (sg_accepted sg) i control = Some v) \<and>
     (\<forall>i control v. i \<in> fst ` set (cs_state (as_store (sg_state sg))) \<longrightarrow>
        last_accepted (sg_accepted sg) i control = Some v \<longrightarrow>
        list_all (\<lambda>q. on_its_way q \<noteq> Some (i, control)) (sg_requests sg) \<longrightarrow>
        stored (as_store (sg_state sg)) i control = Some v)"

lemma on_way_once_update:
  assumes "on_way_once qs" and "k < length qs"
    and "on_its_way q \<noteq> None \<Longrightarrow> list_all (\<lambda>p. on_its_way p \<noteq> on_its_way q) qs"
  shows "on_way_once (qs[k := q])"
  unfolding on_way_once_def
proof (intro allI impI)
  fix j l assume "j < length (qs[k := q])" "l < length (qs[k := q])" and some: "on_its_way (qs[k := q] ! j) \<noteq> None"
    and eq: "on_its_way (qs[k := q] ! j) = on_its_way (qs[k := q] ! l)"
  then have len: "j < length qs" "l < length qs" by simp_all
  have other: "on_its_way (qs ! n) \<noteq> on_its_way q" if "n < length qs" "on_its_way q \<noteq> None" for n
    using assms(3) [OF that(2)] that(1) by (simp add: list_all_length)
  consider "j = k" "l = k" | "j = k" "l \<noteq> k" | "j \<noteq> k" "l = k" | "j \<noteq> k" "l \<noteq> k" by blast
  then show "j = l"
  proof cases
    case 2
    with other [OF len(2)] eq some assms(2) show ?thesis by simp
  next
    case 3
    with other [OF len(1)] eq some assms(2) show ?thesis by simp
  next
    case 4
    with assms(1) len some eq show ?thesis by (simp add: on_way_once_def)
  qed simp
qed

lemma on_its_way_Some: "on_its_way q = Some (i, control) \<longleftrightarrow> (\<exists>v. q = Stores i control v)"
  by (cases q) auto

text \<open>A step that changes neither log nor store, of a request that is not between camera and store.\<close>

lemma agreeing_quiet:
  assumes "agreeing sg" and "k < length (sg_requests sg)" and "as_store a = as_store (sg_state sg)"
    and "on_its_way (sg_requests sg ! k) = None" and "on_its_way q = None"
  shows "agreeing \<lparr>sg_state = a, sg_requests = (sg_requests sg)[k := q], sg_accepted = sg_accepted sg\<rparr>"
proof -
  let ?qs = "sg_requests sg"
  have once: "on_way_once (?qs[k := q])"
    using assms by (intro on_way_once_update) (auto simp: agreeing_def)
  have same: "Stores i c v \<in> set (?qs[k := q]) \<longleftrightarrow> Stores i c v \<in> set ?qs" for i c v
    using assms(2,4,5) by (auto simp: in_set_conv_nth nth_list_update) (metis on_its_way.simps(1) option.distinct(1))+
  have "list_all (\<lambda>q. on_its_way q \<noteq> Some (i, c)) (?qs[k := q]) = list_all (\<lambda>q. on_its_way q \<noteq> Some (i, c)) ?qs" for i c
    by (auto simp: list_all_iff on_its_way_Some same)
  with assms(1,3) once same show ?thesis by (simp add: agreeing_def)
qed

lemma agreeing_sent:
  assumes "agreeing sg" and "k < length (sg_requests sg)"
    and "list_all (\<lambda>q. on_its_way q \<noteq> Some (i, control)) (sg_requests sg)"
    and "sg_requests sg ! k = Sends i control v"
  shows "agreeing \<lparr>sg_state = (sg_state sg)\<lparr>as_camera := s\<rparr>, sg_requests = (sg_requests sg)[k := Stores i control v],
    sg_accepted = sg_accepted sg @ [(i, control, v)]\<rparr>"
proof -
  let ?qs = "sg_requests sg"
  have once: "on_way_once (?qs[k := Stores i control v])"
    using assms(1-3) by (intro on_way_once_update) (auto simp: agreeing_def)
  have mem: "Stores j c w \<in> set (?qs[k := Stores i control v]) \<Longrightarrow>
      (j, c, w) = (i, control, v) \<or> Stores j c w \<in> set ?qs \<and> (j, c) \<noteq> (i, control)" for j c w
    using set_update_subset_insert [of ?qs k "Stores i control v"] assms(3) by (auto simp: list_all_iff on_its_way_Some)
  have others: "list_all (\<lambda>q. on_its_way q \<noteq> Some (j, c)) (?qs[k := Stores i control v]) \<Longrightarrow>
      (j, c) \<noteq> (i, control) \<and> list_all (\<lambda>q. on_its_way q \<noteq> Some (j, c)) ?qs" for j c
    using assms(2,4) by (auto simp: list_all_length nth_list_update split: if_splits)
  have "last_accepted (sg_accepted sg @ [(i, control, v)]) j c = Some w"
    if "Stores j c w \<in> set (?qs[k := Stores i control v])" for j c w
    using mem [OF that] assms(1) by (auto simp: agreeing_def)
  moreover have "stored (as_store (sg_state sg)) j c = Some w"
    if "j \<in> fst ` set (cs_state (as_store (sg_state sg)))"
      "last_accepted (sg_accepted sg @ [(i, control, v)]) j c = Some w"
      "list_all (\<lambda>q. on_its_way q \<noteq> Some (j, c)) (?qs[k := Stores i control v])" for j c w
    using others [OF that(3)] that(1,2) assms(1) unfolding agreeing_def by auto
  ultimately show ?thesis using once unfolding agreeing_def by simp
qed

lemma keys_store_set: "fst ` set (cs_state (snd (store_set i control v st))) = fst ` set (cs_state st)"
proof -
  have "map fst (cs_state (snd (store_set i control v st))) = map fst (cs_state st)"
    by (auto simp: store_set_def store_write_state keys_dict_set split: sum.split option.split)
      (metis image_set map_of_eq_None_iff option.distinct(1))+
  then show ?thesis by (metis image_set)
qed

lemma agreeing_stored:
  assumes "agreeing sg" and "k < length (sg_requests sg)" and "sg_requests sg ! k = Stores i control v"
    and "validated_control_value control v = Inr v" and "store_set i control v (as_store (sg_state sg)) = (r, st)"
  shows "agreeing \<lparr>sg_state = (sg_state sg)\<lparr>as_store := st\<rparr>, sg_requests = (sg_requests sg)[k := Answered x],
    sg_accepted = sg_accepted sg\<rparr>"
proof -
  let ?qs = "sg_requests sg"
  have once: "on_way_once (?qs[k := Answered x])"
    using assms(1,2) by (intro on_way_once_update) (auto simp: agreeing_def)
  have last: "last_accepted (sg_accepted sg) i control = Some v"
    using assms(1-3) nth_mem unfolding agreeing_def by metis
  have mem: "Stores j c w \<in> set (?qs[k := Answered x]) \<Longrightarrow> Stores j c w \<in> set ?qs" for j c w
    using set_update_subset_insert [of ?qs k "Answered x"] by auto
  have others: "list_all (\<lambda>q. on_its_way q \<noteq> Some (j, c)) ?qs"
    if "list_all (\<lambda>q. on_its_way q \<noteq> Some (j, c)) (?qs[k := Answered x])" "(j, c) \<noteq> (i, control)" for j c
    unfolding list_all_length
  proof (intro allI impI)
    fix n assume n: "n < length ?qs"
    show "on_its_way (?qs ! n) \<noteq> Some (j, c)"
    proof (cases "n = k")
      case True
      with that(2) assms(3) show ?thesis by auto
    next
      case False
      with that(1) n show ?thesis by (auto simp: list_all_length)
    qed
  qed
  have st: "st = snd (store_set i control v (as_store (sg_state sg)))" by (simp add: assms(5))
  have "stored st j c = Some w"
    if "j \<in> fst ` set (cs_state st)" "last_accepted (sg_accepted sg) j c = Some w"
      "list_all (\<lambda>q. on_its_way q \<noteq> Some (j, c)) (?qs[k := Answered x])" for j c w
  proof (cases "(j, c) = (i, control)")
    case True
    with that(1,2) last show ?thesis unfolding st keys_store_set stored_after_set [OF assms(4)] by simp
  next
    case False
    with others [OF that(3)] that(1,2) assms(1) show ?thesis
      unfolding agreeing_def st keys_store_set stored_after_set [OF assms(4)] by auto
  qed
  moreover have "last_accepted (sg_accepted sg) j c = Some w" if "Stores j c w \<in> set (?qs[k := Answered x])" for j c w
    using mem [OF that] assms(1) by (simp add: agreeing_def)
  ultimately show ?thesis using once unfolding agreeing_def by simp
qed

lemma agreeing_event:
  assumes "agreeing sg" and "traced api reqs st0 sg" and "takes_turns (sg_requests sg) e"
  shows "agreeing (serve_event api e sg)"
proof (cases e)
  case (Elsewhere s)
  with assms(1) show ?thesis by (simp add: agreeing_def)
next
  case (Turn k)
  show ?thesis
  proof (cases "k < length (sg_requests sg)")
    case False
    with assms(1) Turn show ?thesis by simp
  next
    case k: True
    let ?qs = "sg_requests sg"
    define q where "q = ?qs ! k"
    with k have q: "q \<in> set ?qs" by simp
    note quiet = agreeing_quiet [OF assms(1) k, folded q_def]
    have upd: "serve_event api e sg =
        \<lparr>sg_state = snd (put_step api q (sg_state sg)), sg_requests = ?qs[k := fst (put_step api q (sg_state sg))],
         sg_accepted = sg_accepted sg @ accepted_by q (fst (put_step api q (sg_state sg)))\<rparr>"
      using Turn k by (simp add: q_def case_prod_unfold)
    show ?thesis
    proof (cases q)
      case (Received path header raw_body)
      have "on_its_way (put_check api path header raw_body) = None"
        by (cases "put_check api path header raw_body") (auto simp: put_check_not_late)
      then show ?thesis by (simp add: upd Received quiet)
    next
      case (Sends i control v)
      obtain r s where run: "camera_set (camera_of api i) control v (as_camera (sg_state sg)) = (r, s)" by fastforce
      show ?thesis
      proof (cases r)
        case (Inl x)
        then show ?thesis by (simp add: upd Sends on_camera_def run quiet)
      next
        case (Inr u)
        have "list_all (\<lambda>q. on_its_way q \<noteq> Some (i, control)) ?qs"
          using assms(3) Turn k Sends by (simp add: q_def)
        from agreeing_sent [OF assms(1) k this] Sends Inr show ?thesis
          by (simp add: upd on_camera_def run q_def)
      qed
    next
      case (Stores i control v)
      have valid: "validated_control_value control v = Inr v"
        using assms(2) q Stores asks_for_valid by (fastforce simp: traced_def)
      obtain r st where run: "store_set i control v (as_store (sg_state sg)) = (r, st)" by fastforce
      then have "snd (put_step api q (sg_state sg)) = (sg_state sg)\<lparr>as_store := st\<rparr>"
          "\<exists>x. fst (put_step api q (sg_state sg)) = Answered x"
        by (simp_all add: Stores on_store_def split: sum.split)
      with agreeing_stored [OF assms(1) k _ valid run] Stores show ?thesis
        by (auto simp: upd q_def)
    next
      case (Answered r)
      then show ?thesis by (simp add: upd quiet)
    qed
  qed
qed

lemma agreeing_events:
  "agreeing sg \<Longrightarrow> traced api reqs st0 sg \<Longrightarrow> in_turns api es sg \<Longrightarrow> agreeing (serve_events api es sg)"
proof (induction es arbitrary: sg)
  case (Cons e es)
  then have "agreeing (serve_events api es (serve_event api e sg))"
    by (intro Cons.IH agreeing_event traced_event) simp_all
  then show ?case by (simp add: serve_events_def)
qed (simp add: serve_events_def)

lemma new_requests: "q \<in> set (sg_requests (new_serving a reqs)) \<Longrightarrow> on_its_way q = None \<and> q \<noteq> Stores i c v"
  by (auto simp: new_serving_def)

lemma agreeing_new: "agreeing (new_serving a reqs)"
  using new_requests [of _ a reqs] nth_mem [of _ "sg_requests (new_serving a reqs)"]
  unfolding agreeing_def on_way_once_def by (auto simp: new_serving_def)

text \<open>
  C16. Store and camera agree as long as the requests for each control take turns: then, whenever no request
  for a control is between the camera and the store, the store holds the last value that the camera
  accepted - also when writing the file failed. The code does not enforce the turns.
\<close>

theorem turns_keep_agreement:
  assumes "store_ok (as_store a)" and "in_turns api es (new_serving a reqs)"
    and "serve_events api es (new_serving a reqs) = sg"
    and "i \<in> fst ` set (cs_state (as_store (sg_state sg)))"
    and "\<forall>q \<in> set (sg_requests sg). on_its_way q \<noteq> Some (i, control)"
    and "last_accepted (sg_accepted sg) i control = Some v"
  shows "stored (as_store (sg_state sg)) i control = Some v"
proof -
  have "agreeing sg"
    using agreeing_events [OF agreeing_new traced_new [OF assms(1)] assms(2)] assms(3) by blast
  with assms(4-6) show ?thesis by (simp add: agreeing_def list_all_iff)
qed

text \<open>The first request is checked and sent first, but it is the last to store.\<close>

definition overtaken :: "'s turn_event list" where
  "overtaken = [Turn 0, Turn 1, Turn 0, Turn 1, Turn 1, Turn 0]"

text \<open>
  C9. And without the turns they part. Take any two valid requests for different values of one control, a
  camera that accepts the one and then the other, and a store that can be written. When the first
  request exchanges its value with the camera first but stores it last, both are answered with 200 and
  the store, with its file, names the value that the camera no longer has. Later answers repeat it,
  except for the two settings that are read back from a connected camera.
\<close>

theorem overtaken_request_stored:
  assumes "put_check api p1 h1 b1 = Sends i control v1" and "put_check api p2 h2 b2 = Sends i control v2"
    and "camera_set (camera_of api i) control v1 (as_camera a) = (Inr (), s1)"
    and "camera_set (camera_of api i) control v2 s1 = (Inr (), s2)"
    and "map_of (cs_state (as_store a)) i = Some d" and "cs_writes (as_store a) = []"
  shows "\<exists>sg r1 r2. serve_events api overtaken (new_serving a [(p1, h1, b1), (p2, h2, b2)]) = sg \<and>
    sg_requests sg = [Answered (Inr r1), Answered (Inr r2)] \<and> status r1 = 200 \<and> status r2 = 200 \<and>
    as_camera (sg_state sg) = s2 \<and> last_accepted (sg_accepted sg) i control = Some v2 \<and>
    stored (as_store (sg_state sg)) i control = Some v1 \<and>
    cs_file (as_store (sg_state sg)) = Some (store_document (cs_state (as_store (sg_state sg))))"
proof -
  have valid: "validated_control_value control v1 = Inr v1" "validated_control_value control v2 = Inr v2"
    using put_check_Sends [OF assms(1)] put_check_Sends [OF assms(2)] asks_for_valid by blast+
  obtain st1 where st1: "store_set i control v2 (as_store a) = (Inr (), st1)" "cs_writes st1 = []"
      "map_of (cs_state st1) i = Some (dict_set d control v2)"
    using assms(5,6) by (simp add: store_set_def valid store_write_def)
  obtain st2 where st2: "store_set i control v1 st1 = (Inr (), st2)" "cs_file st2 = Some (store_document (cs_state st2))"
    using st1(2,3) by (simp add: store_set_def valid store_write_def)
  have keys: "i \<in> fst ` set (cs_state st1)" using st1(3) by (force dest: map_of_SomeD)
  have "stored st2 i control = Some v1"
    using stored_after_set [OF valid(1), of i st1 i control] keys st2(1) by simp
  with assms(1-4) st1(1) st2 show ?thesis
    by (simp add: serve_events_def overtaken_def new_serving_def on_camera_def on_store_def answer_of_def
        last_accepted_def)
qed

text \<open>Two requests for the status LED of a camera: one with an empty body turns it on, others turn it off.\<close>

definition led_api :: "unit api" where
  "led_api = demo_api\<lparr>loads := \<lambda>b. Some (JObj [(''value'', JBool (b = []))])\<rparr>"

definition led_path :: string where
  "led_path = ''/api/v1/cameras/cam/controls/led''"

lemma led_check: "put_check led_api led_path (Some ''Bearer secret'') b = Sends ''cam'' ''led'' (JBool (b = []))"
proof -
  have token: "strip (''secret'' @ [char_of (10::nat)]) = ''secret''"
    by (simp add: strip_def is_space_def)
  have "authorized (token_file led_api) (Some ''Bearer secret'') = Inr True"
    unfolding authorized_iff
    by (simp add: opens_def led_api_def demo_api_def bearer_def token [simplified] is_ascii_def)
  then show ?thesis
    by (simp add: put_check_def put_target_def led_path_def path_parts_def led_api_def demo_api_def json_object_def
        request_value_def PERSISTED_CONTROLS_def dict_get_def validated_control_value_def)
qed

lemma led_set: "camera_set (camera_of led_api ''cam'') ''led'' (JBool b) () = (Inr (), ())"
  by (simp add: camera_set_def camera_of_def led_api_def demo_api_def demo_camera_def)

lemma overtaken_request_stored_witness:
  "\<exists>sg. serve_events led_api overtaken (new_serving demo_state
       [(led_path, Some ''Bearer secret'', []), (led_path, Some ''Bearer secret'', [0])]) = sg \<and>
     last_accepted (sg_accepted sg) ''cam'' ''led'' = Some (JBool False) \<and>
     stored (as_store (sg_state sg)) ''cam'' ''led'' = Some (JBool True)"
proof -
  have "camera_set (camera_of led_api ''cam'') ''led'' (JBool b) (as_camera demo_state) = (Inr (), ())" for b
    by (simp add: led_set demo_state_def)
  moreover have "map_of (cs_state (as_store demo_state)) ''cam'' = Some []" "cs_writes (as_store demo_state) = []"
    by (simp_all add: demo_state_def demo_store_def)
  ultimately show ?thesis
    using overtaken_request_stored [OF led_check [of "[]"] led_check [of "[0]"], of demo_state "()" "()" "[]"] led_set
    by auto
qed

lemma threads_store_accepted_values_witness:
  "store_ok (as_store (sg_state (serve_events led_api overtaken (new_serving demo_state
     [(led_path, Some ''Bearer secret'', []), (led_path, Some ''Bearer guess'', [0])]))))"
  using threads_store_accepted_values [of demo_state led_api overtaken
      "[(led_path, Some ''Bearer secret'', []), (led_path, Some ''Bearer guess'', [0])]"] demo_store_ok
  by (simp add: demo_state_def)

lemma turns_keep_agreement_witness:
  "stored (as_store (sg_state (serve_events led_api [Turn 0, Turn 0, Turn 0, Turn 1, Turn 1, Turn 1] (new_serving demo_state
     [(led_path, Some ''Bearer secret'', []), (led_path, Some ''Bearer secret'', [0])])))) ''cam'' ''led'' = Some (JBool False)"
proof -
  let ?es = "[Turn 0, Turn 0, Turn 0, Turn 1, Turn 1, Turn 1] :: unit turn_event list"
  let ?sg = "new_serving demo_state [(led_path, Some ''Bearer secret'', []), (led_path, Some ''Bearer secret'', [0])]"
  have set: "store_set ''cam'' ''led'' (JBool b) st = store_write
      (st\<lparr>cs_state := dict_set (cs_state st) ''cam'' (dict_set d ''led'' (JBool b))\<rparr>)"
    if "map_of (cs_state st) ''cam'' = Some d" for b st d
    using that by (simp add: store_set_def validated_control_value_def)
  note run = serve_events_def new_serving_def led_check on_camera_def led_set on_store_def set demo_state_def demo_store_def
    store_write_def last_accepted_def
  have "store_ok (as_store demo_state)" using demo_store_ok by (simp add: demo_state_def)
  moreover have "in_turns led_api ?es ?sg" by (simp add: run)
  moreover have "\<forall>q \<in> set (sg_requests (serve_events led_api ?es ?sg)). on_its_way q \<noteq> Some (''cam'', ''led'')"
    by (simp add: run)
  moreover have "last_accepted (sg_accepted (serve_events led_api ?es ?sg)) ''cam'' ''led'' = Some (JBool False)"
    by (simp add: run)
  moreover have "''cam'' \<in> fst ` set (cs_state (as_store (sg_state (serve_events led_api ?es ?sg))))"
    by (simp add: run)
  ultimately show ?thesis
    using turns_keep_agreement [OF _ _ refl] by blast
qed

end
