(* ===== verification/Pending.thy ===== *)
theory Pending
  imports Pprpc
begin

text \<open>
  The table of control commands that wait for an answer, \<open>CameraClient._pending_commands\<close> of
  \<open>ino_a9_bridge/src/wificam_bridge/camera.py\<close> with the \<open>_PendingCommand\<close> objects. The dictionary
  and the waiting thread share an object, and the object outlives its entry, so the objects are an
  explicit store of slots, addressed by tickets, and the dictionary maps keys to tickets.
\<close>

type_synonym command_key = "nat \<times> nat"

text \<open>\<open>_PendingCommand\<close>: whether its event is set, the response and the error.\<close>

record pending_command =
  pc_event :: bool
  pc_response :: "rpc_packet option"
  pc_error :: "exn option"

record pending_table =
  entries :: "(command_key \<times> nat) list"
  slots :: "nat \<rightharpoonup> pending_command"
  next_ticket :: nat

definition empty_table :: pending_table where
  "empty_table = \<lparr>entries = [], slots = Map.empty, next_ticket = 0\<rparr>"

text \<open>A new object under a key, as \<open>send_control\<close> registers it.\<close>

definition register_pending :: "command_key \<Rightarrow> pending_table \<Rightarrow> nat \<times> pending_table" where
  "register_pending key t =
     (next_ticket t,
      t\<lparr>entries := dict_set (entries t) key (next_ticket t),
        slots := (slots t)(next_ticket t \<mapsto> \<lparr>pc_event = False, pc_response = None, pc_error = None\<rparr>),
        next_ticket := next_ticket t + 1\<rparr>)"

definition pop_pending :: "command_key \<Rightarrow> pending_table \<Rightarrow> pending_table" where
  "pop_pending key t = t\<lparr>entries := dict_pop (entries t) key\<rparr>"

text \<open>\<open>_resolve_pending\<close>: hand a response to the command that waits for it.\<close>

definition resolve_pending :: "rpc_packet \<Rightarrow> pending_table \<Rightarrow> bool \<times> pending_table" where
  "resolve_pending p t =
     (case map_of (entries t) (rpc_command_id p, rpc_sequence p) of
        None \<Rightarrow> (False, t)
      | Some ticket \<Rightarrow>
          (True, t\<lparr>slots := (slots t)(ticket :=
             map_option (\<lambda>s. s\<lparr>pc_response := Some p, pc_event := True\<rparr>) (slots t ticket))\<rparr>))"

text \<open>\<open>_fail_pending\<close>: wake every registered command with an error and empty the dictionary.\<close>

definition fail_pending :: "exn \<Rightarrow> pending_table \<Rightarrow> pending_table" where
  "fail_pending error t =
     t\<lparr>entries := [],
       slots := (\<lambda>ticket. if ticket \<in> snd ` set (entries t)
                  then map_option (\<lambda>s. s\<lparr>pc_error := Some error, pc_event := True\<rparr>) (slots t ticket)
                  else slots t ticket)\<rparr>"

section \<open>Consistency\<close>

text \<open>
  Every entry points to an object of its own, and an object whose event is not set has no answer.
  What an object was answered with is a response to its own key.
\<close>

definition table_inv :: "pending_table \<Rightarrow> bool" where
  "table_inv t \<longleftrightarrow>
     distinct (map fst (entries t)) \<and> distinct (map snd (entries t)) \<and>
     (\<forall>ticket \<in> snd ` set (entries t). slots t ticket \<noteq> None) \<and>
     (\<forall>ticket s. slots t ticket = Some s \<longrightarrow> ticket < next_ticket t \<and>
        (\<not> pc_event s \<longrightarrow> pc_response s = None \<and> pc_error s = None) \<and>
        (pc_event s \<longrightarrow> pc_response s \<noteq> None \<or> pc_error s \<noteq> None))"

text \<open>Whether a ticket still waits.\<close>

definition waiting :: "pending_table \<Rightarrow> nat \<Rightarrow> bool" where
  "waiting t ticket \<longleftrightarrow> (case slots t ticket of None \<Rightarrow> False | Some s \<Rightarrow> \<not> pc_event s)"

lemma table_inv_empty [simp]: "table_inv empty_table"
  by (simp add: table_inv_def empty_table_def)

lemma table_inv_slot:
  "table_inv t \<Longrightarrow> slots t ticket = Some s \<Longrightarrow> ticket < next_ticket t"
  by (simp add: table_inv_def)

lemma table_inv_fresh: "table_inv t \<Longrightarrow> next_ticket t \<notin> snd ` set (entries t)"
  by (metis option.exhaust table_inv_slot less_irrefl table_inv_def)

lemma table_inv_register:
  assumes "table_inv t"
  shows "table_inv (snd (register_pending key t))"
proof -
  have "distinct (map snd (dict_set (entries t) key (next_ticket t)))"
    using table_inv_fresh [OF assms] assms by (auto simp: table_inv_def intro: distinct_snd_dict_set)
  moreover have "slots t ticket \<noteq> None \<or> ticket = next_ticket t"
    if "ticket \<in> snd ` set (dict_set (entries t) key (next_ticket t))" for ticket
    using that assms set_snd_dict_set [of "entries t" key "next_ticket t"]
    unfolding table_inv_def by blast
  ultimately show ?thesis
    using assms by (auto simp: table_inv_def register_pending_def less_Suc_eq distinct_dict_set)
qed

lemma table_inv_pop: "table_inv t \<Longrightarrow> table_inv (pop_pending key t)"
  using dict_pop_subset [of "entries t" key]
  by (auto simp: table_inv_def pop_pending_def distinct_dict_pop distinct_snd_dict_pop)

lemma table_inv_resolve: "table_inv t \<Longrightarrow> table_inv (snd (resolve_pending p t))"
  by (auto simp: table_inv_def resolve_pending_def split: option.split)

lemma table_inv_fail: "table_inv t \<Longrightarrow> table_inv (fail_pending e t)"
  by (auto simp: table_inv_def fail_pending_def split: if_splits)

end
