(* ===== verification/Client.thy ===== *)
theory Client
  imports Reassembler Pending
begin

text \<open>
  \<open>CameraClient\<close> of \<open>ino_a9_bridge/src/wificam_bridge/camera.py\<close>: one TCP connection to the camera,
  the handshake, the frame loop with its heartbeat and watchdogs, and the control commands.

  The socket and the clock are the standard library's: what they do in a run is a script in the
  state. \<open>cl_dials\<close> says what each call of the socket factory gives (an exception, or the events of
  the new connection), \<open>cl_inbox\<close> what arrives on the open connection and after how many
  milliseconds, \<open>cl_sends\<close> which calls of \<open>sendall\<close> raise. Time is in milliseconds and passes only
  while \<open>recv\<close> blocks. \<open>cl_sent\<close> records what was handed to \<open>sendall\<close>.
\<close>

datatype net_event = Net nat "bytes result"

record client =
  cl_credentials :: credentials
  cl_connect_timeout :: nat
  cl_frame_timeout :: nat
  cl_control_timeout :: nat
  cl_open :: bool
  cl_buffer :: bytes
  cl_pending :: "packet list"
  cl_session :: "bytes option"
  cl_commands :: pending_table
  cl_next_sequence :: nat
  cl_now :: nat
  cl_epoch :: int
  cl_inbox :: "net_event list"
  cl_dials :: "(exn + net_event list) list"
  cl_sends :: "exn option list"
  cl_sent :: "bytes list"

text \<open>\<open>__init__\<close>: the timeouts are numbers the caller gives; the connection is closed.\<close>

definition DEFAULT_FRAME_TIMEOUT :: int where "DEFAULT_FRAME_TIMEOUT = 2000"
definition HEARTBEAT_INTERVAL :: nat where "HEARTBEAT_INTERVAL = 500"
definition RECV_SIZE :: nat where "RECV_SIZE = 65536"

definition camera_client :: "credentials \<Rightarrow> nat \<Rightarrow> int \<Rightarrow> int option \<Rightarrow> client result" where
  "camera_client creds connect_timeout frame_timeout control_timeout =
     (if frame_timeout \<le> 0 then Inl (ValueError ''frame_timeout must be positive'')
      else if control_timeout \<noteq> None \<and> the control_timeout \<le> 0
        then Inl (ValueError ''control_timeout must be positive'')
      else Inr
        \<lparr>cl_credentials = creds, cl_connect_timeout = connect_timeout,
         cl_frame_timeout = nat frame_timeout,
         cl_control_timeout = (case control_timeout of None \<Rightarrow> connect_timeout | Some t \<Rightarrow> nat t),
         cl_open = False, cl_buffer = [], cl_pending = [], cl_session = None,
         cl_commands = empty_table, cl_next_sequence = 5,
         cl_now = 0, cl_epoch = 0, cl_inbox = [], cl_dials = [], cl_sends = [], cl_sent = []\<rparr>)"

section \<open>The socket\<close>

text \<open>
  \<open>settimeout\<close> and \<open>recv(65536)\<close>: how long the call blocks, what it returns or raises, and what is
  left of the script.
\<close>

fun recv :: "nat \<Rightarrow> net_event list \<Rightarrow> nat \<times> bytes result \<times> net_event list" where
  "recv remaining [] = (remaining, Inl (TimeoutError ''timed out''), [])"
| "recv remaining (Net d r # es) =
     (if remaining \<le> d then (remaining, Inl (TimeoutError ''timed out''), Net (d - remaining) r # es)
      else
        (case r of
           Inr b \<Rightarrow> if RECV_SIZE < length b
             then (d, Inr (take RECV_SIZE b), Net 0 (Inr (drop RECV_SIZE b)) # es) else (d, r, es)
         | Inl e \<Rightarrow> (d, r, es)))"

fun event_size :: "net_event \<Rightarrow> nat" where
  "event_size (Net d (Inl e)) = 1"
| "event_size (Net d (Inr b)) = 1 + length b"

definition inbox_size :: "net_event list \<Rightarrow> nat" where
  "inbox_size es = sum_list (map event_size es)"

lemma recv_progress:
  assumes "recv remaining es = (elapsed, outcome, rest)"
  shows "inbox_size rest < inbox_size es \<and> elapsed < remaining \<or>
    inbox_size rest = inbox_size es \<and> elapsed = remaining \<and> outcome = Inl (TimeoutError ''timed out'')"
proof (cases es)
  case (Cons ev es')
  then obtain d r where "es = Net d r # es'" by (cases ev) auto
  with assms show ?thesis
    by (cases r) (auto simp: inbox_size_def RECV_SIZE_def split: if_splits)
qed (use assms in simp)

text \<open>
  \<open>_receive\<close>: read until the buffer holds a packet or the deadline has passed. \<open>receive_once\<close> is
  the body of the loop; \<open>None\<close> means that the loop goes on.
\<close>

definition remaining_time :: "nat \<Rightarrow> nat \<Rightarrow> nat" where
  "remaining_time deadline time = max 50 (min 1000 (deadline - time))"

definition receive_once :: "nat \<Rightarrow> client \<Rightarrow> packet list result option \<times> client" where
  "receive_once deadline c =
     (case recv (remaining_time deadline (cl_now c)) (cl_inbox c) of (elapsed, outcome, rest) \<Rightarrow>
       let c = c\<lparr>cl_now := cl_now c + elapsed, cl_inbox := rest\<rparr> in
       (case outcome of
          Inl e \<Rightarrow> (if is_timeout e then None else Some (Inl e), c)
        | Inr data \<Rightarrow>
            if data = [] then (Some (Inl (CameraError ''camera closed the connection'')), c)
            else
              (case iter_tcp_packets (cl_buffer c @ data) of
                 Inl e \<Rightarrow> (Some (Inl e), c)
               | Inr (packets, buffer) \<Rightarrow>
                   (if packets \<noteq> [] then Some (Inr packets) else None, c\<lparr>cl_buffer := buffer\<rparr>))))"

lemma receive_once_progress:
  assumes "receive_once deadline c = (r, c')"
  shows "inbox_size (cl_inbox c') < inbox_size (cl_inbox c) \<and>
      cl_now c \<le> cl_now c' \<and> cl_now c' < cl_now c + remaining_time deadline (cl_now c) \<or>
    r = None \<and> inbox_size (cl_inbox c') = inbox_size (cl_inbox c) \<and>
      cl_now c' = cl_now c + remaining_time deadline (cl_now c)"
proof -
  obtain elapsed outcome rest where
    "recv (remaining_time deadline (cl_now c)) (cl_inbox c) = (elapsed, outcome, rest)"
    by (cases "recv (remaining_time deadline (cl_now c)) (cl_inbox c)") auto
  with recv_progress [OF this] assms show ?thesis
    by (auto simp: receive_once_def Let_def split: sum.splits prod.splits if_splits)
qed

function receive_loop :: "nat \<Rightarrow> (packet list, client) op" where
  "receive_loop deadline c =
     (if cl_now c < deadline
      then
        (case receive_once deadline c of
           (Some r, c) \<Rightarrow> (r, c)
         | (None, c) \<Rightarrow> receive_loop deadline c)
      else (Inr [], c))"
  by pat_completeness auto
termination
  by (relation "measures [\<lambda>(deadline, c). inbox_size (cl_inbox c), \<lambda>(deadline, c). deadline - cl_now c]")
    (auto dest!: receive_once_progress [OF sym] simp: remaining_time_def)

declare receive_loop.simps [simp del]

definition receive :: "nat \<Rightarrow> (packet list, client) op" where
  "receive deadline c =
     (if \<not> cl_open c then (Inl (CameraError ''camera socket is closed''), c)
      else receive_loop deadline c)"

text \<open>\<open>_send\<close> and \<open>_send_request\<close>.\<close>

definition send_data :: "bytes \<Rightarrow> (unit, client) op" where
  "send_data data c =
     (if \<not> cl_open c then (Inl (CameraError ''camera socket is closed''), c)
      else
        (case cl_sends c of
           Some e # rest \<Rightarrow> (Inl e, c\<lparr>cl_sends := rest\<rparr>)
         | _ \<Rightarrow> (Inr (), c\<lparr>cl_sends := tl (cl_sends c), cl_sent := cl_sent c @ [data]\<rparr>)))"

definition send_request :: "cipher_suite \<Rightarrow> nat \<Rightarrow> nat \<Rightarrow> bytes \<Rightarrow> (unit, client) op" where
  "send_request cs sequence command_id plaintext c =
     seq_state
       (lift_result (pack_rpc cs sequence command_id plaintext
          (bootstrap_prefix (cl_credentials c)) RPC_REQUEST 0))
       send_data c"

section \<open>Requests of the camera\<close>

text \<open>\<open>int(time.time() * 1000)\<close>.\<close>

definition wall_ms :: "client \<Rightarrow> int" where
  "wall_ms c = cl_epoch c + int (cl_now c)"

definition handle_rpc_request :: "cipher_suite \<Rightarrow> rpc_packet \<Rightarrow> (bool, client) op" where
  "handle_rpc_request cs p c =
     (if rpc_rpc_type p \<noteq> RPC_REQUEST \<or> rpc_command_id p \<noteq> TIME_SYNC_COMMAND then (Inr False, c)
      else
        let pfx = bootstrap_prefix (cl_credentials c) in
        seq_state (lift_result (decrypt_rpc_payload cs p pfx)) (\<lambda>request.
        seq_state (lift_result (build_time_sync_response request None (wall_ms c))) (\<lambda>response.
        seq_state (lift_result (pack_rpc cs (rpc_sequence p) TIME_SYNC_COMMAND response pfx RPC_RESPONSE 0)) (\<lambda>data.
        seq_state (send_data data) (\<lambda>_. lift_result (Inr True))))) c)"

section \<open>Waiting for the answer to a handshake request\<close>

definition append_pending :: "packet \<Rightarrow> client \<Rightarrow> client" where
  "append_pending p c = c\<lparr>cl_pending := cl_pending c @ [p]\<rparr>"

text \<open>\<open>{code}\<close> in a message: the code of a request packet is \<open>None\<close>.\<close>

fun show_code :: "nat option \<Rightarrow> string" where
  "show_code None = ''None''"
| "show_code (Some n) = show_nat n"

text \<open>The body of the \<open>for\<close> loop in \<open>_wait_response\<close>, for all packets of one read.\<close>

fun sort_packets :: "cipher_suite \<Rightarrow> nat \<Rightarrow> nat \<Rightarrow> packet list \<Rightarrow> rpc_packet option
    \<Rightarrow> (rpc_packet option, client) op" where
  "sort_packets cs sequence command_id [] found c = (Inr found, c)"
| "sort_packets cs sequence command_id (RPC p # ps) found c =
     (if rpc_rpc_type p = RPC_RESPONSE \<and> rpc_sequence p = sequence \<and> rpc_command_id p = command_id
      then sort_packets cs sequence command_id ps (Some p) c
      else
        (case handle_rpc_request cs p c of
           (Inl e, c) \<Rightarrow> (Inl e, c)
         | (Inr handled, c) \<Rightarrow>
             sort_packets cs sequence command_id ps found
               (if handled then c else append_pending (RPC p) c)))"
| "sort_packets cs sequence command_id (p # ps) found c =
     sort_packets cs sequence command_id ps found (append_pending p c)"

text \<open>
  A successful read either returns packets and has consumed something of the script, or returns
  nothing at the deadline.
\<close>

lemma receive_progress:
  assumes "receive deadline c = (Inr packets, c')"
  shows "packets = [] \<and> deadline \<le> cl_now c' \<and> inbox_size (cl_inbox c') \<le> inbox_size (cl_inbox c) \<or>
    packets \<noteq> [] \<and> inbox_size (cl_inbox c') < inbox_size (cl_inbox c)"
proof -
  have "receive_loop deadline c = (Inr packets, c') \<Longrightarrow> ?thesis"
  proof (induction deadline c rule: receive_loop.induct)
    case (1 deadline c)
    show ?case
    proof (cases "cl_now c < deadline")
      case True
      obtain r c1 where once: "receive_once deadline c = (r, c1)" by fastforce
      show ?thesis
      proof (cases r)
        case None
        with True once 1 receive_once_progress [OF once] show ?thesis
          by (auto simp: receive_loop.simps [of deadline c])
      next
        case (Some res)
        with True once 1(2) receive_once_progress [OF once] show ?thesis
          by (auto simp: receive_loop.simps [of deadline c] receive_once_def Let_def
              split: prod.splits sum.splits if_splits)
      qed
    qed (use 1(2) in \<open>simp add: receive_loop.simps\<close>)
  qed
  with assms show ?thesis by (auto simp: receive_def split: if_splits)
qed

text \<open>What answering the camera can change: the log of what was sent, and nothing else.\<close>

definition only_sends :: "client \<Rightarrow> client \<Rightarrow> bool" where
  "only_sends c c' \<longleftrightarrow> c' = c\<lparr>cl_sends := cl_sends c', cl_sent := cl_sent c'\<rparr> \<and>
     prefix (cl_sent c) (cl_sent c') \<and> suffix (cl_sends c') (cl_sends c)"

lemma only_sends_refl [simp]: "only_sends c c"
  by (simp add: only_sends_def)

lemma only_sends_trans: "only_sends c d \<Longrightarrow> only_sends d e \<Longrightarrow> only_sends c e"
  by (cases c; cases d; cases e) (auto simp: only_sends_def intro: suffix_order.trans)

lemma only_sends_order: "reflp only_sends" "transp only_sends"
  by (rule reflpI, simp) (rule transpI, erule only_sends_trans)

lemma only_sendsD:
  assumes "only_sends c c'"
  shows "cl_now c' = cl_now c" "cl_inbox c' = cl_inbox c" "cl_open c' = cl_open c"
    "cl_credentials c' = cl_credentials c" "cl_session c' = cl_session c"
    "cl_commands c' = cl_commands c" "cl_next_sequence c' = cl_next_sequence c"
    "cl_pending c' = cl_pending c" "cl_buffer c' = cl_buffer c" "cl_dials c' = cl_dials c"
    "cl_connect_timeout c' = cl_connect_timeout c" "cl_frame_timeout c' = cl_frame_timeout c"
    "cl_epoch c' = cl_epoch c" "cl_control_timeout c' = cl_control_timeout c"
  using assms unfolding only_sends_def by (cases c; cases c'; simp)+

lemma keeps_send_data: "keeps only_sends (send_data data)"
  by (auto simp: keeps_def send_data_def only_sends_def suffix_ConsI suffix_tl split: list.split option.split)

lemma keeps_send_request: "keeps only_sends (send_request cs sequence command_id plaintext)"
proof -
  have "only_sends c (snd (send_request cs sequence command_id plaintext c))" for c
    unfolding send_request_def
    by (rule keeps_seq [OF only_sends_order(2) keeps_lift [OF only_sends_order(1)] keeps_send_data,
          unfolded keeps_def, rule_format])
  then show ?thesis by (simp add: keeps_def)
qed

lemma keeps_handle_rpc_request: "keeps only_sends (handle_rpc_request cs p)"
proof -
  note seq = keeps_seq [OF only_sends_order(2)] and lift = keeps_lift [OF only_sends_order(1)]
  have "keeps only_sends (seq_state (lift_result (decrypt_rpc_payload cs p pfx)) (\<lambda>request.
        seq_state (lift_result (build_time_sync_response request None w)) (\<lambda>response.
        seq_state (lift_result (pack_rpc cs (rpc_sequence p) TIME_SYNC_COMMAND response pfx RPC_RESPONSE 0)) (\<lambda>data.
        seq_state (send_data data) (\<lambda>_. lift_result (Inr True))))))" for pfx w
    by (intro seq lift keeps_send_data)
  then show ?thesis
    by (simp add: keeps_def handle_rpc_request_def Let_def)
qed

definition only_sorts :: "client \<Rightarrow> client \<Rightarrow> bool" where
  "only_sorts c c' \<longleftrightarrow>
     c' = c\<lparr>cl_sends := cl_sends c', cl_sent := cl_sent c', cl_pending := cl_pending c'\<rparr> \<and>
     prefix (cl_sent c) (cl_sent c') \<and> prefix (cl_pending c) (cl_pending c') \<and>
     suffix (cl_sends c') (cl_sends c)"

lemma only_sorts_trans: "only_sorts c d \<Longrightarrow> only_sorts d e \<Longrightarrow> only_sorts c e"
  by (cases c; cases d; cases e) (auto simp: only_sorts_def intro: suffix_order.trans)

lemma only_sorts_sends: "only_sends c d \<Longrightarrow> only_sorts c d"
  by (cases c; cases d) (auto simp: only_sorts_def only_sends_def)

lemma only_sorts_append: "only_sorts c (append_pending p c)"
  by (simp add: only_sorts_def append_pending_def)

lemma only_sortsD:
  assumes "only_sorts c c'"
  shows "cl_now c' = cl_now c" "cl_inbox c' = cl_inbox c" "cl_open c' = cl_open c"
    "cl_credentials c' = cl_credentials c" "cl_session c' = cl_session c"
    "cl_commands c' = cl_commands c" "cl_next_sequence c' = cl_next_sequence c"
    "cl_buffer c' = cl_buffer c" "cl_dials c' = cl_dials c"
    "cl_connect_timeout c' = cl_connect_timeout c" "cl_frame_timeout c' = cl_frame_timeout c"
  using assms unfolding only_sorts_def by (cases c; cases c'; simp)+

lemma keeps_sort_packets: "keeps only_sorts (sort_packets cs sequence command_id ps found)"
  unfolding keeps_def
proof
  fix c
  show "only_sorts c (snd (sort_packets cs sequence command_id ps found c))"
  proof (induction cs sequence command_id ps found c rule: sort_packets.induct)
    case (1 cs sequence command_id found c)
    show ?case by (simp add: only_sorts_sends)
  next
    case (2 cs sequence command_id p ps found c)
    obtain r c1 where h: "handle_rpc_request cs p c = (r, c1)" by fastforce
    note first = only_sorts_sends [OF keepsD [OF keeps_handle_rpc_request h]]
    show ?case
    proof (cases "rpc_rpc_type p = RPC_RESPONSE \<and> rpc_sequence p = sequence \<and> rpc_command_id p = command_id")
      case True
      with 2(1) show ?thesis by simp
    next
      case False
      show ?thesis
      proof (cases r)
        case (Inl e)
        with first show ?thesis
          by (simp only: sort_packets.simps False if_False h prod.case sum.case snd_conv)
      next
        case (Inr handled)
        have "only_sorts c (if handled then c1 else append_pending (RPC p) c1)"
          using first only_sorts_append only_sorts_trans by auto
        from only_sorts_trans [OF this 2(2) [OF False h [symmetric] Inr]] show ?thesis
          by (simp only: sort_packets.simps False if_False h Inr prod.case sum.case)
      qed
    qed
  qed (auto intro: only_sorts_trans [OF only_sorts_append])
qed

function wait_loop :: "cipher_suite \<Rightarrow> nat \<Rightarrow> nat \<Rightarrow> nat \<Rightarrow> (rpc_packet, client) op" where
  "wait_loop cs deadline sequence command_id c =
     (if cl_now c < deadline
      then
        (case receive deadline c of
           (Inl e, c) \<Rightarrow> (Inl e, c)
         | (Inr packets, c) \<Rightarrow>
             (case sort_packets cs sequence command_id packets None c of
                (Inl e, c) \<Rightarrow> (Inl e, c)
              | (Inr None, c) \<Rightarrow> wait_loop cs deadline sequence command_id c
              | (Inr (Some found), c) \<Rightarrow>
                  if rpc_response_code found \<noteq> Some 0
                  then (Inl (CameraError (concat [''command '', show_nat command_id, '' returned code '',
                               show_code (rpc_response_code found)])), c)
                  else (Inr found, c)))
      else (Inl (TimeoutError (''camera did not answer command '' @ show_nat command_id)), c))"
  by pat_completeness auto
termination
proof (relation "measures [\<lambda>(cs, deadline, sequence, command_id, c). inbox_size (cl_inbox c),
    \<lambda>(cs, deadline, sequence, command_id, c). deadline - cl_now c]", goal_cases)
  case 1
  show ?case by simp
next
  case (2 cs deadline sequence command_id c r c1 packets r' c2 x2)
  then have "receive deadline c = (Inr packets, c1)"
    and sorted: "only_sorts c1 c2"
    using keepsD [OF keeps_sort_packets [of cs sequence command_id packets None], of c1 r' c2]
    by simp_all
  with receive_progress [of deadline c packets c1] 2(1) show ?case
    by (auto simp: only_sortsD [OF sorted])
qed

declare wait_loop.simps [simp del]

definition wait_response :: "cipher_suite \<Rightarrow> nat \<Rightarrow> nat \<Rightarrow> (rpc_packet, client) op" where
  "wait_response cs sequence command_id c =
     wait_loop cs (cl_now c + cl_connect_timeout c) sequence command_id c"

end
