(* ===== verification/Client_Run.thy ===== *)
theory Client_Run
  imports Client
begin

text \<open>
  The rest of \<open>CameraClient\<close> in \<open>camera.py\<close>: \<open>close\<close>, the handshake of \<open>connect\<close>, its use in a
  \<open>with\<close> block, \<open>start_audio\<close>, the loop of \<open>frames\<close> as a total function on a finite script, and the control commands.
\<close>

section \<open>Closing\<close>

definition close_client :: "client \<Rightarrow> client" where
  "close_client c =
     c\<lparr>cl_open := False, cl_inbox := [], cl_session := None, cl_buffer := [], cl_pending := [],
       cl_commands := fail_pending (CameraError ''camera connection closed'') (cl_commands c)\<rparr>"

section \<open>The handshake\<close>

text \<open>\<open>_answer_initial_time_syncs\<close>: answer up to two time-sync requests, keep everything else.\<close>

fun answer_packets :: "cipher_suite \<Rightarrow> packet list \<Rightarrow> nat \<Rightarrow> (nat, client) op" where
  "answer_packets cs [] replies c = (Inr replies, c)"
| "answer_packets cs (RPC p # ps) replies c =
     (if rpc_rpc_type p = RPC_REQUEST \<and> rpc_command_id p = TIME_SYNC_COMMAND
      then
        (case handle_rpc_request cs p c of
           (Inl e, c) \<Rightarrow> (Inl e, c)
         | (Inr handled, c) \<Rightarrow> answer_packets cs ps (replies + 1) c)
      else answer_packets cs ps replies (append_pending (RPC p) c))"
| "answer_packets cs (p # ps) replies c = answer_packets cs ps replies (append_pending p c)"

lemma keeps_answer_packets: "keeps only_sorts (answer_packets cs ps replies)"
  unfolding keeps_def
proof
  fix c
  show "only_sorts c (snd (answer_packets cs ps replies c))"
  proof (induction cs ps replies c rule: answer_packets.induct)
    case (1 cs replies c)
    show ?case by (simp add: only_sorts_sends)
  next
    case (2 cs p ps replies c)
    obtain r c1 where h: "handle_rpc_request cs p c = (r, c1)" by fastforce
    note first = only_sorts_sends [OF keepsD [OF keeps_handle_rpc_request h]]
    show ?case
    proof (cases "rpc_rpc_type p = RPC_REQUEST \<and> rpc_command_id p = TIME_SYNC_COMMAND")
      case True
      show ?thesis
      proof (cases r)
        case (Inl e)
        with True h first show ?thesis by simp
      next
        case (Inr handled)
        from only_sorts_trans [OF first 2(1) [OF True h [symmetric] Inr]] True h Inr
        show ?thesis by simp
      qed
    next
      case False
      from only_sorts_trans [OF only_sorts_append 2(2) [OF False]] show ?thesis
        by (simp only: answer_packets.simps False if_False)
    qed
  qed (auto intro: only_sorts_trans [OF only_sorts_append])
qed

function answer_loop :: "cipher_suite \<Rightarrow> nat \<Rightarrow> nat \<Rightarrow> (unit, client) op" where
  "answer_loop cs deadline replies c =
     (if cl_now c < deadline \<and> replies < 2
      then
        (case receive deadline c of
           (Inl e, c) \<Rightarrow> (Inl e, c)
         | (Inr packets, c) \<Rightarrow>
             (case answer_packets cs packets replies c of
                (Inl e, c) \<Rightarrow> (Inl e, c)
              | (Inr replies, c) \<Rightarrow> answer_loop cs deadline replies c))
      else (Inr (), c))"
  by pat_completeness auto
termination
proof (relation "measures [\<lambda>(cs, deadline, replies, c). inbox_size (cl_inbox c),
    \<lambda>(cs, deadline, replies, c). deadline - cl_now c]", goal_cases)
  case 1
  show ?case by simp
next
  case (2 cs deadline replies c r c1 packets r' c2 replies')
  then have "receive deadline c = (Inr packets, c1)" and sorted: "only_sorts c1 c2"
    using keepsD [OF keeps_answer_packets [of cs packets replies], of c1 r' c2] by simp_all
  with receive_progress [of deadline c packets c1] 2(1) show ?case
    by (auto simp: only_sortsD [OF sorted])
qed

declare answer_loop.simps [simp del]

definition answer_initial_time_syncs :: "cipher_suite \<Rightarrow> (unit, client) op" where
  "answer_initial_time_syncs cs c = answer_loop cs (cl_now c + 2000) 0 c"

text \<open>\<open>chr(byte) in string.hexdigits\<close>.\<close>

definition is_hex_byte :: "byte \<Rightarrow> bool" where
  "is_hex_byte b \<longleftrightarrow> b \<in> set (str_encode ''0123456789abcdefABCDEF'')"

definition read_session_prefix :: "cipher_suite \<Rightarrow> credentials \<Rightarrow> rpc_packet \<Rightarrow> bytes result" where
  "read_session_prefix cs creds auth =
     bind (decrypt_rpc_payload cs auth (bootstrap_prefix creds)) (\<lambda>payload.
     bind (first_bytes_field payload 1) (\<lambda>session_prefix.
       if length session_prefix \<noteq> 32 \<or> \<not> list_all is_hex_byte session_prefix
         then Inl (CameraError ''LAN authentication returned an invalid session prefix'')
       else Inr session_prefix))"

definition authenticate :: "cipher_suite \<Rightarrow> (unit, client) op" where
  "authenticate cs c =
     seq_state (lift_result (build_lan_auth_request (cl_credentials c))) (\<lambda>request.
     seq_state (send_request cs 1 LAN_AUTH_COMMAND request) (\<lambda>_.
     seq_state (wait_response cs 1 LAN_AUTH_COMMAND) (\<lambda>auth.
     seq_state (lift_result (read_session_prefix cs (cl_credentials c) auth)) (\<lambda>pfx c.
       (Inr (), c\<lparr>cl_session := Some pfx\<rparr>))))) c"

definition start_stream :: "cipher_suite \<Rightarrow> (unit, client) op" where
  "start_stream cs =
     seq_state (lift_result (encode_protobuf_varint 1 1)) (\<lambda>sync.
     seq_state (send_request cs 2 SYNC_COMMAND sync) (\<lambda>_.
     seq_state (wait_response cs 2 SYNC_COMMAND) (\<lambda>_.
     seq_state (answer_initial_time_syncs cs) (\<lambda>_.
     seq_state (lift_result (encode_protobuf_varint 2 VIDEO_MAX_QOS)) (\<lambda>qos.
     seq_state (send_request cs 3 VIDEO_START_COMMAND qos) (\<lambda>_.
     seq_state (wait_response cs 3 VIDEO_START_COMMAND) (\<lambda>_.
       lift_result (Inr ()))))))))"

definition handshake :: "cipher_suite \<Rightarrow> (unit, client) op" where
  "handshake cs = seq_state (authenticate cs) (\<lambda>_. start_stream cs)"

text \<open>The socket factory, and the reset of the state for the new connection.\<close>

definition dial :: "(unit, client) op" where
  "dial c =
     (case cl_dials c of
        [] \<Rightarrow> (Inl (OSError ''connection refused''), c)
      | Inl e # dials \<Rightarrow> (Inl e, c\<lparr>cl_dials := dials\<rparr>)
      | Inr events # dials \<Rightarrow>
          (Inr (), c\<lparr>cl_dials := dials, cl_inbox := events, cl_open := True, cl_buffer := [],
                     cl_pending := [], cl_next_sequence := 5\<rparr>))"

definition connect :: "cipher_suite \<Rightarrow> (unit, client) op" where
  "connect cs c =
     (case dial (close_client c) of
        (Inl e, c) \<Rightarrow> (Inl e, c)
      | (Inr _, c) \<Rightarrow>
          (case handshake cs c of
             (Inl e, c) \<Rightarrow> (Inl e, close_client c)
           | (Inr _, c) \<Rightarrow> (Inr (), c)))"

text \<open>\<open>with client:\<close>: \<open>__enter__\<close> connects, and \<open>__exit__\<close> closes the client however the block ends.\<close>

definition with_client :: "cipher_suite \<Rightarrow> ('a, client) op \<Rightarrow> ('a, client) op" where
  "with_client cs block c =
     (case connect cs c of
        (Inl e, c) \<Rightarrow> (Inl e, c)
      | (Inr _, c) \<Rightarrow> (case block c of (r, c) \<Rightarrow> (r, close_client c)))"

definition start_audio :: "cipher_suite \<Rightarrow> (unit, client) op" where
  "start_audio cs c =
     (if \<not> cl_open c then (Inl (CameraError ''camera is not connected''), c)
      else
        seq_state (send_request cs 4 AUDIO_START_COMMAND []) (\<lambda>_.
        seq_state (wait_response cs 4 AUDIO_START_COMMAND) (\<lambda>response.
        seq_state (lift_result (decrypt_rpc_payload cs response (bootstrap_prefix (cl_credentials c)))) (\<lambda>payload.
        seq_state (lift_result (first_varint_field payload 5)) (\<lambda>media_format.
        seq_state (lift_result (first_varint_field payload 6)) (\<lambda>sample_rate.
          lift_result
            (if media_format \<noteq> G711_ALAW_FORMAT \<or> sample_rate \<noteq> G711_ALAW_SAMPLE_RATE
             then Inl (CameraError (concat [''unsupported camera audio format '', show_nat media_format,
                         '' at '', show_nat sample_rate, '' Hz'']))
             else Inr ())))))) c)"

section \<open>The frame loop\<close>

datatype media = Audio bytes | Video bytes

record frames_state =
  fs_reassembler :: reassembler
  fs_activity_deadline :: nat
  fs_frame_deadline :: nat
  fs_next_heartbeat :: nat
  fs_latest :: "nat option"
  fs_budget :: "nat option"

text \<open>
  \<open>frames\<close> is a generator: the consumer may leave its loop at a frame, and then \<open>GeneratorExit\<close> is
  raised at the \<open>yield\<close>. The budget is the number of frames it takes before the one at which it
  leaves; \<open>None\<close> is a consumer that never leaves.
\<close>

definition frames_start :: "nat option \<Rightarrow> (frames_state, client) op" where
  "frames_start budget c =
     (case cl_session c of
        None \<Rightarrow> (Inl (CameraError ''camera is not connected''), c)
      | Some pfx \<Rightarrow>
          if \<not> cl_open c then (Inl (CameraError ''camera is not connected''), c)
          else
            (bind (mjpeg_reassembler pfx 2000000) (\<lambda>r. Inr
               \<lparr>fs_reassembler = r, fs_activity_deadline = cl_now c + cl_frame_timeout c,
                fs_frame_deadline = cl_now c + cl_frame_timeout c,
                fs_next_heartbeat = cl_now c + HEARTBEAT_INTERVAL, fs_latest = None,
                fs_budget = budget\<rparr>), c))"

definition latest_sequence :: "nat option \<Rightarrow> nat \<Rightarrow> nat option" where
  "latest_sequence latest sequence =
     (case latest of None \<Rightarrow> Some sequence | Some n \<Rightarrow> if n < sequence then Some sequence else latest)"

text \<open>
  The body of the \<open>for packet in packets\<close> loop: what is given to the audio callback and yielded, in
  this order, until the end or the exception.
\<close>

definition frames_av :: "cipher_suite \<Rightarrow> bool \<Rightarrow> av_packet \<Rightarrow> frames_state \<Rightarrow> client
    \<Rightarrow> media list \<times> frames_state result" where
  "frames_av cs audio p fs c =
     (let fs = fs\<lparr>fs_latest := latest_sequence (fs_latest fs) (av_sequence p)\<rparr>;
          heard = (if audio
                   then (case extract_g711_alaw_payload p of None \<Rightarrow> [] | Some a \<Rightarrow> [Audio a])
                   else []) in
      (case push cs (fs_reassembler fs) p of
         (Inl e, r) \<Rightarrow> (heard, Inl e)
       | (Inr None, r) \<Rightarrow> (heard, Inr (fs\<lparr>fs_reassembler := r\<rparr>))
       | (Inr (Some frame), r) \<Rightarrow>
           (heard @ [Video frame],
            if fs_budget fs = Some 0 then Inl GeneratorExit
            else
              Inr (fs\<lparr>fs_reassembler := r, fs_frame_deadline := cl_now c + cl_frame_timeout c,
                      fs_budget := map_option (\<lambda>n. n - 1) (fs_budget fs)\<rparr>))))"

fun frames_packets :: "cipher_suite \<Rightarrow> bool \<Rightarrow> packet list \<Rightarrow> frames_state \<Rightarrow> client
    \<Rightarrow> media list \<times> frames_state result \<times> client" where
  "frames_packets cs audio [] fs c = ([], Inr fs, c)"
| "frames_packets cs audio (RPC p # ps) fs c =
     (case (if rpc_rpc_type p = RPC_RESPONSE then resolve_pending p (cl_commands c)
            else (False, cl_commands c)) of
        (True, table) \<Rightarrow> frames_packets cs audio ps fs (c\<lparr>cl_commands := table\<rparr>)
      | (False, _) \<Rightarrow>
          (case handle_rpc_request cs p c of
             (Inl e, c) \<Rightarrow> ([], Inl e, c)
           | (Inr _, c) \<Rightarrow> frames_packets cs audio ps fs c))"
| "frames_packets cs audio (AV p # ps) fs c =
     (case frames_av cs audio p fs c of
        (out, Inl e) \<Rightarrow> (out, Inl e, c)
      | (out, Inr fs) \<Rightarrow>
          (case frames_packets cs audio ps fs c of (out', r, c) \<Rightarrow> (out @ out', r, c)))"
| "frames_packets cs audio (Raw p # ps) fs c = frames_packets cs audio ps fs c"

text \<open>\<open>_allocate_sequence\<close> and the heartbeat.\<close>

definition allocate_sequence :: "client \<Rightarrow> nat \<times> client" where
  "allocate_sequence c = (cl_next_sequence c, c\<lparr>cl_next_sequence := cl_next_sequence c + 1\<rparr>)"

definition send_heartbeat :: "cipher_suite \<Rightarrow> nat \<Rightarrow> nat option \<Rightarrow> (unit, client) op" where
  "send_heartbeat cs sequence latest c =
     seq_state (lift_result (build_time_request_payload (JInt (wall_ms c))
         (case latest of None \<Rightarrow> JNull | Some n \<Rightarrow> JInt (int n))))
       (send_request cs sequence TIME_SYNC_COMMAND) c"

definition heartbeat :: "cipher_suite \<Rightarrow> frames_state \<Rightarrow> (frames_state, client) op" where
  "heartbeat cs fs c =
     (if cl_now c < fs_next_heartbeat fs then (Inr fs, c)
      else
        (case allocate_sequence c of (sequence, c) \<Rightarrow>
           (case send_heartbeat cs sequence (fs_latest fs) c of
              (Inl e, c) \<Rightarrow> (Inl e, c)
            | (Inr _, c) \<Rightarrow> (Inr (fs\<lparr>fs_next_heartbeat := cl_now c + HEARTBEAT_INTERVAL\<rparr>), c))))"

text \<open>The packets of one iteration: one that was put aside, or what the next read returns.\<close>

definition next_packets :: "frames_state \<Rightarrow> (packet list, client) op" where
  "next_packets fs c =
     (case cl_pending c of
        p # ps \<Rightarrow> (Inr [p], c\<lparr>cl_pending := ps\<rparr>)
      | [] \<Rightarrow> receive (min (min (cl_now c + 2000) (fs_activity_deadline fs)) (fs_next_heartbeat fs)) c)"

text \<open>\<open>{seconds:g}\<close> of a number of milliseconds, for less than 1000 seconds.\<close>

definition show_seconds :: "nat \<Rightarrow> string" where
  "show_seconds ms =
     show_nat (ms div 1000) @
     (if ms mod 1000 = 0 then []
      else if ms mod 100 = 0 then ''.'' @ [digit (ms div 100 mod 10)]
      else if ms mod 10 = 0 then ''.'' @ [digit (ms div 100 mod 10), digit (ms div 10 mod 10)]
      else ''.'' @ [digit (ms div 100 mod 10), digit (ms div 10 mod 10), digit (ms mod 10)])"

definition watchdog :: "frames_state \<Rightarrow> client \<Rightarrow> frames_state result" where
  "watchdog fs c =
     (if fs_activity_deadline fs \<le> cl_now c
        then Inl (TimeoutError (concat [''camera stream produced no activity for '',
                    show_seconds (cl_frame_timeout c), '' seconds'']))
      else if fs_frame_deadline fs \<le> cl_now c
        then Inl (TimeoutError (concat [''camera stream produced no complete frame for '',
                    show_seconds (cl_frame_timeout c), '' seconds'']))
      else Inr fs)"

definition frames_iteration :: "cipher_suite \<Rightarrow> bool \<Rightarrow> frames_state \<Rightarrow> client
    \<Rightarrow> media list \<times> frames_state result \<times> client" where
  "frames_iteration cs audio fs c =
     (case seq_state (heartbeat cs fs) (\<lambda>fs. seq_state (next_packets fs) (\<lambda>packets.
             lift_result (Inr (fs, packets)))) c of
        (Inl e, c) \<Rightarrow> ([], Inl e, c)
      | (Inr (fs, packets), c) \<Rightarrow>
          let fs = (if packets \<noteq> []
                    then fs\<lparr>fs_activity_deadline := cl_now c + cl_frame_timeout c\<rparr> else fs) in
          (case frames_packets cs audio packets fs c of
             (out, Inl e, c) \<Rightarrow> (out, Inl e, c)
           | (out, Inr fs, c) \<Rightarrow> (out, watchdog fs c, c)))"

text \<open>What serving packets and heartbeats can change.\<close>

definition only_serves :: "client \<Rightarrow> client \<Rightarrow> bool" where
  "only_serves c c' \<longleftrightarrow>
     c' = c\<lparr>cl_sends := cl_sends c', cl_sent := cl_sent c', cl_commands := cl_commands c',
           cl_next_sequence := cl_next_sequence c'\<rparr> \<and>
     prefix (cl_sent c) (cl_sent c') \<and> suffix (cl_sends c') (cl_sends c) \<and>
     cl_next_sequence c \<le> cl_next_sequence c' \<and>
     (table_inv (cl_commands c) \<longrightarrow> table_inv (cl_commands c'))"

lemma only_serves_trans: "only_serves c d \<Longrightarrow> only_serves d e \<Longrightarrow> only_serves c e"
  by (cases c; cases d; cases e) (auto simp: only_serves_def intro: suffix_order.trans)

lemma only_serves_sends: "only_sends c d \<Longrightarrow> only_serves c d"
  by (cases c; cases d) (auto simp: only_serves_def only_sends_def)

lemma only_serves_refl [simp]: "only_serves c c"
  by (simp add: only_serves_def)

lemma only_servesD:
  assumes "only_serves c c'"
  shows "cl_now c' = cl_now c" "cl_inbox c' = cl_inbox c" "cl_open c' = cl_open c"
    "cl_credentials c' = cl_credentials c" "cl_session c' = cl_session c"
    "cl_pending c' = cl_pending c" "cl_buffer c' = cl_buffer c" "cl_dials c' = cl_dials c"
    "cl_connect_timeout c' = cl_connect_timeout c" "cl_frame_timeout c' = cl_frame_timeout c"
    "cl_epoch c' = cl_epoch c" "cl_control_timeout c' = cl_control_timeout c"
  using assms unfolding only_serves_def by (cases c; cases c'; simp)+

lemma only_serves_resolve: "only_serves c (c\<lparr>cl_commands := snd (resolve_pending p (cl_commands c))\<rparr>)"
  by (simp add: only_serves_def table_inv_resolve)

lemma frames_packets_serves:
  "frames_packets cs audio ps fs c = (out, r, c') \<Longrightarrow> only_serves c c'"
proof (induction cs audio ps fs c arbitrary: out r c' rule: frames_packets.induct)
  case (1 cs audio fs c)
  then show ?case by simp
next
  case (2 cs audio p ps fs c)
  show ?case
  proof (cases "if rpc_rpc_type p = RPC_RESPONSE then resolve_pending p (cl_commands c)
            else (False, cl_commands c)")
    case (Pair found table)
    show ?thesis
    proof (cases found)
      case found: True
      then have True: "found = True" by simp
      with Pair have "c\<lparr>cl_commands := table\<rparr> = c\<lparr>cl_commands := snd (resolve_pending p (cl_commands c))\<rparr>"
        by (simp split: if_splits)
      with True 2(1) [OF Pair [symmetric] True, of out r c'] 2(3) Pair
        only_serves_resolve [of c p] show ?thesis
        by (auto intro: only_serves_trans)
    next
      case notfound: False
      then have False: "found = False" by simp
      obtain h c1 where h: "handle_rpc_request cs p c = (h, c1)" by fastforce
      note first = only_serves_sends [OF keepsD [OF keeps_handle_rpc_request h]]
      show ?thesis
      proof (cases h)
        case (Inl e)
        with False Pair h first 2(3) show ?thesis by simp
      next
        case (Inr b)
        with 2(2) [OF Pair [symmetric] False h [symmetric] Inr, of out r c'] 2(3) Pair False h first
        show ?thesis by (auto intro: only_serves_trans)
      qed
    qed
  qed
next
  case (3 cs audio p ps fs c)
  obtain o1 r1 where av: "frames_av cs audio p fs c = (o1, r1)" by fastforce
  show ?case
  proof (cases r1)
    case (Inl e)
    with av 3(2) show ?thesis by simp
  next
    case (Inr fs1)
    with 3(1) [OF av [symmetric] Inr] av 3(2) show ?thesis
      by (auto split: prod.splits)
  qed
qed simp

lemma keeps_send_heartbeat: "keeps only_sends (send_heartbeat cs sequence latest)"
proof -
  have "keeps only_sends (seq_state (lift_result (build_time_request_payload (JInt w) l))
      (send_request cs sequence TIME_SYNC_COMMAND))" for w l
    by (intro keeps_seq [OF only_sends_order(2)] keeps_lift [OF only_sends_order(1)] keeps_send_request)
  then show ?thesis by (simp add: keeps_def send_heartbeat_def)
qed

lemma heartbeat_serves:
  assumes "heartbeat cs fs c = (r, c')"
  shows "only_serves c c'"
proof (cases "cl_now c < fs_next_heartbeat fs")
  case True
  with assms show ?thesis by (simp add: heartbeat_def)
next
  case False
  obtain n c1 where a: "allocate_sequence c = (n, c1)" by fastforce
  obtain x c2 where h: "send_heartbeat cs n (fs_latest fs) c1 = (x, c2)" by fastforce
  have "only_serves c c1" using a by (auto simp: allocate_sequence_def only_serves_def)
  moreover have "only_serves c1 c2"
    by (rule only_serves_sends [OF keepsD [OF keeps_send_heartbeat h]])
  ultimately have "only_serves c c2" by (rule only_serves_trans)
  with False assms a h show ?thesis by (simp add: heartbeat_def split: sum.splits)
qed

lemma heartbeat_fields:
  assumes "heartbeat cs fs c = (Inr fs', c')"
  shows "cl_now c < fs_next_heartbeat fs'"
    and "fs_next_heartbeat fs' \<le> max (fs_next_heartbeat fs) (cl_now c + HEARTBEAT_INTERVAL)"
    and "fs' = fs\<lparr>fs_next_heartbeat := fs_next_heartbeat fs'\<rparr>"
proof -
  obtain n c1 where a: "allocate_sequence c = (n, c1)" by fastforce
  obtain x c2 where h: "send_heartbeat cs n (fs_latest fs) c1 = (x, c2)" by fastforce
  have "cl_now c1 = cl_now c" using a by (auto simp: allocate_sequence_def)
  with only_sendsD(1) [OF keepsD [OF keeps_send_heartbeat h]] have now: "cl_now c2 = cl_now c" by simp
  have "fs' = fs \<and> cl_now c < fs_next_heartbeat fs \<or>
      fs' = fs\<lparr>fs_next_heartbeat := cl_now c + HEARTBEAT_INTERVAL\<rparr>"
    using assms by (cases x; cases "cl_now c < fs_next_heartbeat fs") (simp_all add: heartbeat_def a h now)
  then show "cl_now c < fs_next_heartbeat fs'"
    and "fs_next_heartbeat fs' \<le> max (fs_next_heartbeat fs) (cl_now c + HEARTBEAT_INTERVAL)"
    and "fs' = fs\<lparr>fs_next_heartbeat := fs_next_heartbeat fs'\<rparr>"
    by (auto simp: HEARTBEAT_INTERVAL_def)
qed

section \<open>The loop ends\<close>

text \<open>
  Each iteration that does not raise has consumed something (a packet put aside or a part of the
  script), or has moved the clock towards the activity deadline, which has not passed.
\<close>

definition backlog :: "client \<Rightarrow> nat" where
  "backlog c = inbox_size (cl_inbox c) + length (cl_pending c)"

lemma receive_loop_frame:
  "receive_loop deadline c = (r, c') \<Longrightarrow>
     c' = c\<lparr>cl_now := cl_now c', cl_inbox := cl_inbox c', cl_buffer := cl_buffer c'\<rparr> \<and> cl_now c \<le> cl_now c'"
proof (induction deadline c rule: receive_loop.induct)
  case (1 deadline c)
  show ?case
  proof (cases "cl_now c < deadline")
    case True
    obtain x c1 where once: "receive_once deadline c = (x, c1)" by fastforce
    have first: "c1 = c\<lparr>cl_now := cl_now c1, cl_inbox := cl_inbox c1, cl_buffer := cl_buffer c1\<rparr> \<and>
        cl_now c \<le> cl_now c1"
      using once by (auto simp: receive_once_def Let_def split: prod.splits sum.splits if_splits)
    show ?thesis
    proof (cases x)
      case None
      have "c' = c1\<lparr>cl_now := cl_now c', cl_inbox := cl_inbox c', cl_buffer := cl_buffer c'\<rparr> \<and> cl_now c1 \<le> cl_now c'"
        by (rule 1(1) [OF True once [symmetric] None])
          (use 1(2) True once None in \<open>simp add: receive_loop.simps [of deadline c]\<close>)
      with first show ?thesis by (cases c; cases c1; cases c') auto
    next
      case (Some y)
      with 1(2) True once first show ?thesis by (simp add: receive_loop.simps [of deadline c])
    qed
  qed (use 1(2) in \<open>simp add: receive_loop.simps\<close>)
qed

lemma receive_frame:
  "receive deadline c = (r, c') \<Longrightarrow>
     c' = c\<lparr>cl_now := cl_now c', cl_inbox := cl_inbox c', cl_buffer := cl_buffer c'\<rparr> \<and> cl_now c \<le> cl_now c'"
  by (auto simp: receive_def dest: receive_loop_frame split: if_splits)

lemma receive_fields:
  assumes "receive deadline c = (r, c')"
  shows "cl_now c \<le> cl_now c'" "cl_open c' = cl_open c"
    "cl_credentials c' = cl_credentials c" "cl_session c' = cl_session c"
    "cl_pending c' = cl_pending c" "cl_dials c' = cl_dials c" "cl_commands c' = cl_commands c"
    "cl_connect_timeout c' = cl_connect_timeout c" "cl_frame_timeout c' = cl_frame_timeout c"
    "cl_next_sequence c' = cl_next_sequence c" "cl_sent c' = cl_sent c" "cl_sends c' = cl_sends c"
    "cl_control_timeout c' = cl_control_timeout c"
  using receive_frame [OF assms] by (cases c; cases c'; simp)+

lemma next_packets_progress:
  assumes "next_packets fs c = (Inr packets, c')"
  shows "packets \<noteq> [] \<and> backlog c' < backlog c \<and> cl_now c \<le> cl_now c' \<or>
    packets = [] \<and> backlog c' \<le> backlog c \<and>
      min (min (cl_now c + 2000) (fs_activity_deadline fs)) (fs_next_heartbeat fs) \<le> cl_now c'"
proof (cases "cl_pending c")
  case (Cons p ps)
  with assms show ?thesis by (auto simp: next_packets_def backlog_def)
next
  case Nil
  with assms have "receive (min (min (cl_now c + 2000) (fs_activity_deadline fs)) (fs_next_heartbeat fs)) c
      = (Inr packets, c')"
    by (simp add: next_packets_def)
  from receive_progress [OF this] receive_fields(1,5) [OF this] Nil show ?thesis
    by (auto simp: backlog_def)
qed

lemma frames_av_deadline:
  "frames_av cs audio p fs c = (out, Inr fs') \<Longrightarrow> fs_activity_deadline fs' = fs_activity_deadline fs \<and>
     fs_next_heartbeat fs' = fs_next_heartbeat fs"
  by (auto simp: frames_av_def Let_def split: prod.splits sum.splits option.splits if_split_asm)

lemma frames_packets_deadline:
  "frames_packets cs audio ps fs c = (out, Inr fs', c') \<Longrightarrow>
     fs_activity_deadline fs' = fs_activity_deadline fs \<and> fs_next_heartbeat fs' = fs_next_heartbeat fs"
  by (induction cs audio ps fs c arbitrary: out c' rule: frames_packets.induct)
    (auto split: prod.splits sum.splits bool.splits if_splits dest: frames_av_deadline)

lemma frames_iteration_progress:
  assumes "frames_iteration cs audio fs c = (out, Inr fs', c')"
  shows "backlog c' < backlog c \<or>
    backlog c' \<le> backlog c \<and> cl_now c < cl_now c' \<and> cl_now c' < fs_activity_deadline fs' \<and>
    fs_activity_deadline fs' = fs_activity_deadline fs"
proof -
  from assms obtain fs1 c1 packets c2 fs2 where
    h: "heartbeat cs fs c = (Inr fs1, c1)" and n: "next_packets fs1 c1 = (Inr packets, c2)"
    and f: "frames_packets cs audio packets (if packets \<noteq> []
          then fs1\<lparr>fs_activity_deadline := cl_now c2 + cl_frame_timeout c2\<rparr> else fs1) c2 = (out, Inr fs2, c')"
    and w: "watchdog fs2 c' = Inr fs'"
    by (auto simp: frames_iteration_def Let_def seq_state_Inr_iff split: prod.splits sum.splits)
  note h' = heartbeat_fields [OF h] and c1 = only_servesD [OF heartbeat_serves [OF h]]
    and c' = only_servesD [OF frames_packets_serves [OF f]]
  from w have w': "fs' = fs2" "cl_now c' < fs_activity_deadline fs2"
    by (auto simp: watchdog_def split: if_splits)
  have b: "backlog c1 = backlog c" "backlog c' = backlog c2"
    by (simp_all add: backlog_def c1 c')
  from h'(3) have "fs_activity_deadline fs1 = fs_activity_deadline fs"
    by (metis frames_state.select_convs(2) frames_state.surjective frames_state.update_convs(4))
  with next_packets_progress [OF n] frames_packets_deadline [OF f] w' h'(1) b show ?thesis
    by (cases "packets = []") (auto simp: c1 c')
qed

function frames_loop :: "cipher_suite \<Rightarrow> bool \<Rightarrow> frames_state \<Rightarrow> client
    \<Rightarrow> media list \<times> unit result \<times> client" where
  "frames_loop cs audio fs c =
     (if \<not> cl_open c then ([], Inr (), c)
      else
        (case frames_iteration cs audio fs c of
           (out, Inl e, c) \<Rightarrow> (out, Inl e, c)
         | (out, Inr fs, c) \<Rightarrow>
             (case frames_loop cs audio fs c of (out', r, c) \<Rightarrow> (out @ out', r, c))))"
  by pat_completeness auto
termination
  by (relation "measures [\<lambda>(cs, audio, fs, c). backlog c,
        \<lambda>(cs, audio, fs, c). fs_activity_deadline fs - cl_now c]")
    (auto dest!: frames_iteration_progress [OF sym])

declare frames_loop.simps [simp del]

text \<open>\<open>frames\<close> with its \<open>finally\<close> clause, driven to its end.\<close>

definition frames :: "cipher_suite \<Rightarrow> bool \<Rightarrow> nat option \<Rightarrow> client \<Rightarrow> media list \<times> unit result \<times> client" where
  "frames cs audio budget c =
     (case frames_start budget c of
        (Inl e, c) \<Rightarrow> ([], Inl e, c)
      | (Inr fs, c) \<Rightarrow>
          (case frames_loop cs audio fs c of (out, r, c) \<Rightarrow>
             (out, r, c\<lparr>cl_commands := fail_pending (CameraError ''camera stream stopped'') (cl_commands c)\<rparr>)))"

section \<open>Control commands\<close>

text \<open>
  The argument checks of \<open>send_control\<close> and \<open>send_command\<close>: the command number is any object; the
  payload is \<open>None\<close> when it is not a \<open>bytes\<close>; the timeout is in milliseconds.
\<close>

definition check_command :: "json \<Rightarrow> bytes option \<Rightarrow> (nat \<times> bytes) result" where
  "check_command command_id payload =
     (case command_id of
        JInt i \<Rightarrow>
          if i < 0 then Inl (ValueError ''command_id must be a non-negative integer'')
          else
            (case payload of
               None \<Rightarrow> Inl (TypeError ''payload must be bytes'')
             | Some b \<Rightarrow> Inr (nat i, b))
      | _ \<Rightarrow> Inl (ValueError ''command_id must be a non-negative integer''))"

text \<open>
  \<open>send_control\<close> runs in another thread than the reader. It is cut where the reader can come in
  between: \<open>control_begin\<close> allocates the sequence number, registers the command and sends it;
  \<open>control_end\<close> runs when the event is set or the timeout has passed.
\<close>

definition control_begin :: "cipher_suite \<Rightarrow> nat \<Rightarrow> bytes \<Rightarrow> (command_key \<times> nat, client) op" where
  "control_begin cs command_id payload c =
     (case allocate_sequence c of (sequence, c) \<Rightarrow>
       let key = (command_id, sequence) in
       (case register_pending key (cl_commands c) of (ticket, table) \<Rightarrow>
         (case send_request cs sequence command_id payload (c\<lparr>cl_commands := table\<rparr>) of
            (Inl e, c) \<Rightarrow> (Inl e, c\<lparr>cl_commands := pop_pending key (cl_commands c)\<rparr>)
          | (Inr _, c) \<Rightarrow> (Inr (key, ticket), c))))"

definition control_end :: "command_key \<Rightarrow> nat \<Rightarrow> (rpc_packet, client) op" where
  "control_end key ticket c =
     (let c' = c\<lparr>cl_commands := pop_pending key (cl_commands c)\<rparr>;
          command = show_nat (fst key) in
      (case slots (cl_commands c) ticket of
         None \<Rightarrow> (Inl (TimeoutError (''camera did not answer control command '' @ command)), c')
       | Some s \<Rightarrow>
           if \<not> pc_event s
             then (Inl (TimeoutError (''camera did not answer control command '' @ command)), c')
           else
             (case pc_error s of
                Some e \<Rightarrow> (Inl e, c')
              | None \<Rightarrow>
                  (case pc_response s of
                     None \<Rightarrow> (Inl (CameraError ''control command completed without a response''), c')
                   | Some response \<Rightarrow>
                       if rpc_response_code response \<noteq> Some 0
                       then (Inl (CameraError (concat [''command '', command, '' returned code '',
                                    show_code (rpc_response_code response)])), c')
                       else (Inr response, c')))))"

text \<open>
  The whole call; \<open>others\<close> is what the other threads do to the client while the event is waited for,
  given the timeout.
\<close>

definition send_control :: "cipher_suite \<Rightarrow> (nat \<Rightarrow> client \<Rightarrow> client) \<Rightarrow> json \<Rightarrow> bytes option \<Rightarrow> int option
    \<Rightarrow> (rpc_packet, client) op" where
  "send_control cs others command_id payload timeout c =
     (case check_command command_id payload of
        Inl e \<Rightarrow> (Inl e, c)
      | Inr (command, data) \<Rightarrow>
          let wait_timeout = (case timeout of None \<Rightarrow> int (cl_control_timeout c) | Some t \<Rightarrow> t) in
          if wait_timeout \<le> 0 then (Inl (ValueError ''timeout must be positive''), c)
          else
            seq_state (control_begin cs command data) (\<lambda>(key, ticket) c.
              control_end key ticket (others (nat wait_timeout) c)) c)"

definition send_command :: "cipher_suite \<Rightarrow> json \<Rightarrow> bytes option \<Rightarrow> (unit, client) op" where
  "send_command cs command_id payload c =
     (case check_command command_id payload of
        Inl e \<Rightarrow> (Inl e, c)
      | Inr (command, data) \<Rightarrow>
          (case allocate_sequence c of (sequence, c) \<Rightarrow> send_request cs sequence command data c))"

end
