(* ===== verification/Client_Correct.thy ===== *)
theory Client_Correct
  imports Client_Run Mjpeg_Frames Camera_Proto_Correct
begin

text \<open>
  Correctness of \<open>CameraClient\<close>: what \<open>connect\<close> leaves behind when it succeeds and when it fails, and
  how long it can take. The frame loop and the control commands follow in their own theories.
\<close>

section \<open>What the handshake changes\<close>

definition only_talks :: "client \<Rightarrow> client \<Rightarrow> bool" where
  "only_talks c c' \<longleftrightarrow>
     c' = c\<lparr>cl_sends := cl_sends c', cl_sent := cl_sent c', cl_pending := cl_pending c',
           cl_now := cl_now c', cl_inbox := cl_inbox c', cl_buffer := cl_buffer c',
           cl_session := cl_session c'\<rparr> \<and>
     suffix (cl_sends c') (cl_sends c)"

lemma only_talks_trans: "only_talks c d \<Longrightarrow> only_talks d e \<Longrightarrow> only_talks c e"
  by (cases c; cases d; cases e) (auto simp: only_talks_def intro: suffix_order.trans)

lemma only_talks_order: "reflp only_talks" "transp only_talks"
  by (rule reflpI, simp add: only_talks_def) (rule transpI, erule only_talks_trans)

lemma only_talks_sorts: "only_sorts c d \<Longrightarrow> only_talks c d"
  by (cases c; cases d) (auto simp: only_talks_def only_sorts_def)

lemma only_talks_sends: "only_sends c d \<Longrightarrow> only_talks c d"
  by (rule only_talks_sorts [OF only_sorts_sends])

lemma only_talks_receive: "receive deadline c = (r, c') \<Longrightarrow> only_talks c c'"
  by (drule receive_frame, cases c; cases c') (auto simp: only_talks_def)

lemma only_talksD:
  assumes "only_talks c c'"
  shows "cl_open c' = cl_open c" "cl_credentials c' = cl_credentials c"
    "cl_commands c' = cl_commands c" "cl_next_sequence c' = cl_next_sequence c"
    "cl_dials c' = cl_dials c" "cl_connect_timeout c' = cl_connect_timeout c"
    "cl_frame_timeout c' = cl_frame_timeout c" "cl_control_timeout c' = cl_control_timeout c"
  using assms unfolding only_talks_def by (cases c; cases c'; simp)+

text \<open>Reads and sends with the session kept.\<close>

definition talks_on :: "client \<Rightarrow> client \<Rightarrow> bool" where
  "talks_on c c' \<longleftrightarrow> only_talks c c' \<and> cl_session c' = cl_session c"

lemma talks_on_order: "reflp talks_on" "transp talks_on"
  by (rule reflpI, simp add: talks_on_def only_talks_def)
    (rule transpI, unfold talks_on_def, metis only_talks_trans)

lemma talks_on_basic:
  "keeps talks_on (receive deadline)"
  "keeps talks_on (sort_packets cs sequence command_id ps found)"
  "keeps talks_on (answer_packets cs ps replies)"
proof -
  show "keeps talks_on (receive deadline)"
    unfolding keeps_def talks_on_def
    by (metis prod.collapse only_talks_receive receive_fields(4))
  show "keeps talks_on (sort_packets cs sequence command_id ps found)"
    using keeps_sort_packets only_talks_sorts only_sortsD(5) unfolding keeps_def talks_on_def by blast
  show "keeps talks_on (answer_packets cs ps replies)"
    using keeps_answer_packets only_talks_sorts only_sortsD(5) unfolding keeps_def talks_on_def by blast
qed

text \<open>Whatever every read and every handled batch keeps, the two waiting loops keep.\<close>

lemma wait_loop_keeps:
  assumes R: "reflp R" "transp R" and rc: "keeps R (receive deadline)"
    and so: "\<And>cs sequence command_id ps. keeps R (sort_packets cs sequence command_id ps None)"
  shows "R c (snd (wait_loop cs deadline sequence command_id c))"
  using rc
proof (induction cs deadline sequence command_id c rule: wait_loop.induct)
  case (1 cs deadline sequence command_id c)
  note unfold = wait_loop.simps [of cs deadline sequence command_id c]
  show ?case
  proof (cases "cl_now c < deadline")
    case True
    obtain x c1 where r: "receive deadline c = (x, c1)" by fastforce
    note first = keepsD [OF 1(2) r]
    show ?thesis
    proof (cases x)
      case (Inl e)
      with True r first show ?thesis by (simp add: unfold)
    next
      case (Inr packets)
      obtain y c2 where s: "sort_packets cs sequence command_id packets None c1 = (y, c2)" by fastforce
      have second: "R c c2" by (rule transpD [OF R(2) first keepsD [OF so s]])
      show ?thesis
      proof (cases "y = Inr None")
        case none: True
        from transpD [OF R(2) second 1(1) [OF True r [symmetric] Inr s [symmetric] none refl 1(2)]]
        show ?thesis using True r Inr s none by (simp add: unfold)
      next
        case False
        with True r Inr s have "snd (wait_loop cs deadline sequence command_id c) = c2"
          by (cases y; cases "projr y") (simp_all add: unfold)
        with second show ?thesis by simp
      qed
    qed
  next
    case False
    then show ?thesis by (simp add: unfold reflpD [OF R(1)])
  qed
qed

lemma answer_loop_keeps:
  assumes R: "reflp R" "transp R" and rc: "keeps R (receive deadline)"
    and an: "\<And>cs ps replies. keeps R (answer_packets cs ps replies)"
  shows "R c (snd (answer_loop cs deadline replies c))"
  using rc
proof (induction cs deadline replies c rule: answer_loop.induct)
  case (1 cs deadline replies c)
  note unfold = answer_loop.simps [of cs deadline replies c]
  show ?case
  proof (cases "cl_now c < deadline \<and> replies < 2")
    case True
    obtain x c1 where r: "receive deadline c = (x, c1)" by fastforce
    note first = keepsD [OF 1(2) r]
    show ?thesis
    proof (cases x)
      case (Inl e)
      with True r first show ?thesis by (simp add: unfold)
    next
      case (Inr packets)
      obtain y c2 where s: "answer_packets cs packets replies c1 = (y, c2)" by fastforce
      have second: "R c c2" by (rule transpD [OF R(2) first keepsD [OF an s]])
      show ?thesis
      proof (cases y)
        case (Inl e)
        with True r Inr s second show ?thesis by (simp add: unfold)
      next
        case more: (Inr n)
        from transpD [OF R(2) second 1(1) [OF True r [symmetric] Inr s [symmetric] more 1(2)]]
        show ?thesis using True r Inr s more by (simp add: unfold)
      qed
    qed
  next
    case False
    then have "answer_loop cs deadline replies c = (Inr (), c)"
      unfolding unfold by (simp only: if_False)
    then show ?thesis by (simp add: reflpD [OF R(1)])
  qed
qed

lemma keeps_talks_on:
  "keeps talks_on (wait_response cs sequence command_id)"
  "keeps talks_on (answer_initial_time_syncs cs)"
  "keeps talks_on (send_request cs n command_id plaintext)"
  "keeps talks_on (lift_result r)"
proof -
  show "keeps talks_on (wait_response cs sequence command_id)"
    unfolding keeps_def wait_response_def
    by (rule allI, rule wait_loop_keeps [OF talks_on_order talks_on_basic(1,2)])
  show "keeps talks_on (answer_initial_time_syncs cs)"
    unfolding keeps_def answer_initial_time_syncs_def
    by (rule allI, rule answer_loop_keeps [OF talks_on_order talks_on_basic(1,3)])
  show "keeps talks_on (send_request cs n command_id plaintext)"
    using keeps_send_request [of cs n command_id plaintext] only_talks_sends only_sendsD(5)
    unfolding keeps_def talks_on_def by blast
  show "keeps talks_on (lift_result r)"
    by (rule keeps_lift [OF talks_on_order(1)])
qed

lemma keeps_talks_session: "keeps only_talks (\<lambda>c. (Inr (), c\<lparr>cl_session := s\<rparr>))"
  by (simp add: keeps_def only_talks_def)

lemma keeps_talks: "keeps talks_on m \<Longrightarrow> keeps only_talks m"
  by (simp add: keeps_def talks_on_def)

lemma keeps_start_stream: "keeps talks_on (start_stream cs)"
  unfolding start_stream_def by (intro keeps_seq [OF talks_on_order(2)] keeps_talks_on)

lemma keeps_authenticate: "keeps only_talks (authenticate cs)"
proof -
  have "keeps only_talks
    (seq_state (lift_result (build_lan_auth_request creds)) (\<lambda>request.
     seq_state (send_request cs 1 LAN_AUTH_COMMAND request) (\<lambda>_.
     seq_state (wait_response cs 1 LAN_AUTH_COMMAND) (\<lambda>auth.
     seq_state (lift_result (read_session_prefix cs creds auth)) (\<lambda>pfx c.
       (Inr (), c\<lparr>cl_session := Some pfx\<rparr>))))))" for creds
    by (intro keeps_seq [OF only_talks_order(2)] keeps_talks keeps_talks_on keeps_talks_session)
  then show ?thesis by (simp add: keeps_def authenticate_def)
qed

lemma keeps_handshake: "keeps only_talks (handshake cs)"
  unfolding handshake_def
  by (intro keeps_seq [OF only_talks_order(2)] keeps_authenticate keeps_talks [OF keeps_start_stream])

definition valid_session :: "bytes option \<Rightarrow> bool" where
  "valid_session s \<longleftrightarrow> (case s of None \<Rightarrow> False | Some pfx \<Rightarrow> length pfx = 32 \<and> list_all is_hex_byte pfx)"

lemma read_session_prefix_valid:
  "read_session_prefix cs creds auth = Inr pfx \<Longrightarrow> valid_session (Some pfx)"
  by (auto simp: read_session_prefix_def valid_session_def result_iff split: if_splits)

lemma handshake_session:
  assumes "handshake cs c = (Inr u, c')"
  shows "valid_session (cl_session c')"
proof -
  from assms obtain v c1 where a: "authenticate cs c = (Inr v, c1)" and s: "start_stream cs c1 = (Inr u, c')"
    by (auto simp: handshake_def seq_state_Inr_iff)
  have "cl_session c' = cl_session c1"
    using keepsD [OF keeps_start_stream s] by (simp add: talks_on_def)
  moreover have "valid_session (cl_session c1)"
    using a by (auto simp: authenticate_def seq_state_Inr_iff lift_result_def dest!: read_session_prefix_valid)
  ultimately show ?thesis by simp
qed

section \<open>The outcome of connect\<close>

text \<open>Whoever waited under an entry is awake.\<close>

definition woken :: "pending_table \<Rightarrow> pending_table \<Rightarrow> bool" where
  "woken t t' \<longleftrightarrow> list_all (\<lambda>(key, ticket). \<not> waiting t' ticket) (entries t)"

lemma fail_pending_woken: "woken t (fail_pending e t)"
  by (auto simp: woken_def list_all_iff waiting_def fail_pending_def image_iff
      split: option.splits)

text \<open>The states of the client between calls.\<close>

definition disconnected :: "client \<Rightarrow> bool" where
  "disconnected c \<longleftrightarrow> \<not> cl_open c \<and> cl_session c = None \<and> cl_buffer c = [] \<and> cl_pending c = [] \<and>
     entries (cl_commands c) = []"

definition connected :: "client \<Rightarrow> bool" where
  "connected c \<longleftrightarrow> cl_open c \<and> valid_session (cl_session c) \<and> cl_next_sequence c = 5 \<and>
     entries (cl_commands c) = []"

lemma disconnected_close: "disconnected (close_client c)"
  by (simp add: disconnected_def close_client_def fail_pending_def)

lemma dial_cases:
  obtains (refused) e dials where "dial c = (Inl e, c\<lparr>cl_dials := dials\<rparr>)"
  | (opened) c' where "dial c = (Inr (), c')" and "cl_open c'" and "cl_commands c' = cl_commands c"
      and "cl_next_sequence c' = 5" and "cl_now c' = cl_now c"
      and "cl_connect_timeout c' = cl_connect_timeout c" and "cl_sent c' = cl_sent c"
proof (cases "cl_dials c")
  case Nil
  then have "dial c = (Inl (OSError ''connection refused''), c\<lparr>cl_dials := []\<rparr>)"
    by (cases c) (simp add: dial_def)
  then show thesis by (rule refused)
next
  case (Cons d dials)
  show thesis
  proof (cases d)
    case (Inl e)
    with Cons show thesis by (intro refused [of e dials]) (simp add: dial_def)
  next
    case (Inr events)
    with Cons show thesis by (intro opened [of "snd (dial c)"]) (simp_all add: dial_def)
  qed
qed

lemma connect_outcome:
  "(case connect cs c of
      (Inr _, c') \<Rightarrow> connected c' \<and> woken (cl_commands c) (cl_commands c')
    | (Inl _, c') \<Rightarrow> disconnected c' \<and> woken (cl_commands c) (cl_commands c'))"
proof -
  let ?c = "close_client c"
  have t: "cl_commands ?c = fail_pending (CameraError ''camera connection closed'') (cl_commands c)"
    by (simp add: close_client_def)
  have closed_again: "cl_commands (close_client c') = fail_pending (CameraError ''camera connection closed'') (cl_commands ?c)"
    if "cl_commands c' = cl_commands ?c" for c'
    by (simp add: close_client_def that)
  have none: "entries (cl_commands ?c) = []" by (simp add: t fail_pending_def)
  have woken: "woken (cl_commands c) (cl_commands ?c)"
    unfolding t by (rule fail_pending_woken)
  with none have woken': "woken (cl_commands c) (fail_pending e (cl_commands ?c))" for e
    by (simp add: woken_def waiting_def fail_pending_def)
  show ?thesis
  proof (cases rule: dial_cases [of ?c])
    case (refused e dials)
    have "disconnected (?c\<lparr>cl_dials := dials\<rparr>)"
      using disconnected_close [of c] by (simp add: disconnected_def)
    with refused woken show ?thesis by (simp add: connect_def)
  next
    case (opened c1)
    obtain r c2 where h: "handshake cs c1 = (r, c2)" by fastforce
    note c2 = only_talksD [OF keepsD [OF keeps_handshake h]]
    show ?thesis
    proof (cases r)
      case (Inl e)
      have "cl_commands c2 = cl_commands ?c" using c2(3) opened(3) by simp
      then have "woken (cl_commands c) (cl_commands (close_client c2))"
        using closed_again woken' by metis
      moreover have "connect cs c = (Inl e, close_client c2)"
        using opened(1) h Inl by (simp add: connect_def)
      ultimately show ?thesis using disconnected_close [of c2] by simp
    next
      case (Inr u)
      have "connect cs c = (Inr (), c2)"
        using opened(1) h Inr by (simp add: connect_def)
      moreover have "connected c2"
        using handshake_session [of cs c1 u c2] h Inr none c2 opened(2-4) by (simp add: connected_def)
      moreover have "cl_commands c2 = cl_commands ?c" using c2(3) opened(3) by simp
      ultimately show ?thesis using woken by simp
    qed
  qed
qed

text \<open>
  C11. \<open>connect\<close> either leaves a usable connection, with a session prefix of 32 hexadecimal digits and
  sequence numbers that start at 5, or it raises and leaves the client closed, with no session, no
  buffered bytes and no packets put aside. In both cases every command that waited on the previous
  connection has been woken, and none is registered.
\<close>

theorem connect_all_or_nothing:
  "(case connect cs c of
      (Inr _, c') \<Rightarrow> connected c' \<and> woken (cl_commands c) (cl_commands c')
    | (Inl _, c') \<Rightarrow> disconnected c' \<and> woken (cl_commands c) (cl_commands c'))"
  by (rule connect_outcome)

section \<open>How long connect takes\<close>

lemma receive_once_time:
  "receive_once deadline c = (r, c') \<Longrightarrow> cl_now c < deadline \<Longrightarrow> cl_now c' \<le> deadline + 49"
  by (drule receive_once_progress) (auto simp: remaining_time_def)

lemma receive_time:
  assumes "receive deadline c = (r, c')"
  shows "cl_now c' \<le> max (cl_now c) (deadline + 49)"
proof -
  have "receive_loop deadline c = (r, c') \<Longrightarrow> ?thesis"
  proof (induction deadline c rule: receive_loop.induct)
    case (1 deadline c)
    show ?case
    proof (cases "cl_now c < deadline")
      case True
      obtain x c1 where once: "receive_once deadline c = (x, c1)" by fastforce
      with True 1 receive_once_time [OF once] show ?thesis
        by (cases x) (auto simp: receive_loop.simps [of deadline c])
    qed (use 1(2) in \<open>simp add: receive_loop.simps\<close>)
  qed
  with assms show ?thesis by (auto simp: receive_def split: if_splits)
qed

text \<open>The clock passes \<open>D\<close> by at most 49 ms: a read blocks for at least 50 ms.\<close>

definition stays_before :: "nat \<Rightarrow> client \<Rightarrow> client \<Rightarrow> bool" where
  "stays_before D c c' \<longleftrightarrow> cl_now c \<le> cl_now c' \<and> cl_now c' \<le> max (cl_now c) (D + 49)"

lemma stays_before_order: "reflp (stays_before D)" "transp (stays_before D)"
  by (auto simp: stays_before_def intro!: reflpI transpI)

lemma stays_before_basic:
  "keeps (stays_before D) (receive D)"
  "keeps (stays_before D) (sort_packets cs sequence command_id ps found)"
  "keeps (stays_before D) (answer_packets cs ps replies)"
proof -
  show "keeps (stays_before D) (receive D)"
    unfolding keeps_def stays_before_def by (metis prod.collapse receive_time receive_fields(1))
  show "keeps (stays_before D) (sort_packets cs sequence command_id ps found)"
    by (rule keeps_mono [OF keeps_sort_packets]) (simp add: stays_before_def only_sortsD(1))
  show "keeps (stays_before D) (answer_packets cs ps replies)"
    by (rule keeps_mono [OF keeps_answer_packets]) (simp add: stays_before_def only_sortsD(1))
qed

definition takes :: "nat \<Rightarrow> nat \<Rightarrow> ('a, client) op \<Rightarrow> bool" where
  "takes T k m \<longleftrightarrow> (\<forall>c. cl_connect_timeout c = T \<longrightarrow>
     cl_connect_timeout (snd (m c)) = T \<and> cl_now c \<le> cl_now (snd (m c)) \<and> cl_now (snd (m c)) \<le> cl_now c + k)"

lemma takesD: "takes T k m \<Longrightarrow> m c = (r, c') \<Longrightarrow> cl_connect_timeout c = T \<Longrightarrow>
    cl_connect_timeout c' = T \<and> cl_now c \<le> cl_now c' \<and> cl_now c' \<le> cl_now c + k"
  unfolding takes_def by (metis snd_conv)

lemma takes_seq:
  assumes "takes T k m" and "\<And>x. takes T l (f x)"
  shows "takes T (k + l) (seq_state m f)"
  unfolding takes_def
proof (intro allI impI)
  fix c :: client assume c: "cl_connect_timeout c = T"
  obtain r c1 where m: "m c = (r, c1)" by fastforce
  note c1 = takesD [OF assms(1) m c]
  show "cl_connect_timeout (snd (seq_state m f c)) = T \<and> cl_now c \<le> cl_now (snd (seq_state m f c)) \<and>
      cl_now (snd (seq_state m f c)) \<le> cl_now c + (k + l)"
  proof (cases r)
    case (Inl e)
    with m c1 show ?thesis by (simp add: seq_state_def)
  next
    case (Inr x)
    obtain r2 c2 where f: "f x c1 = (r2, c2)" by fastforce
    from takesD [OF assms(2) f] c1 m Inr f show ?thesis by (simp add: seq_state_def)
  qed
qed

lemma keeps_timeout:
  "keeps talks_on m \<Longrightarrow> keeps (\<lambda>c c'. cl_connect_timeout c' = cl_connect_timeout c) m"
  by (erule keeps_mono) (simp add: talks_on_def only_talksD)

lemma takes_basic:
  "takes T 0 (lift_result r)" "takes T 0 (send_request cs n command_id plaintext)"
  "takes T (T + 49) (wait_response cs sequence command_id)"
  "takes T 2049 (answer_initial_time_syncs cs)"
  "takes T 0 (\<lambda>c. (Inr (), c\<lparr>cl_session := s\<rparr>))"
proof -
  show "takes T 0 (send_request cs n command_id plaintext)"
  proof -
    have "keeps (\<lambda>c c'. cl_now c' = cl_now c \<and> cl_connect_timeout c' = cl_connect_timeout c)
        (send_request cs n command_id plaintext)"
      by (rule keeps_mono [OF keeps_send_request]) (simp add: only_sendsD)
    then show ?thesis by (simp add: keeps_def takes_def)
  qed
  show "takes T (T + 49) (wait_response cs sequence command_id)"
    unfolding takes_def
  proof (intro allI impI conjI)
    fix c :: client assume c: "cl_connect_timeout c = T"
    show "cl_connect_timeout (snd (wait_response cs sequence command_id c)) = T"
      using keeps_timeout [OF keeps_talks_on(1)] c by (simp add: keeps_def)
    have "cl_now c \<le> cl_now (snd (wait_response cs sequence command_id c)) \<and>
        cl_now (snd (wait_response cs sequence command_id c)) \<le> cl_now c + (T + 49)"
    proof -
      have "stays_before (cl_now c + T) c (snd (wait_loop cs (cl_now c + T) sequence command_id c))"
        by (rule wait_loop_keeps [OF stays_before_order stays_before_basic(1,2)])
      with c show ?thesis by (simp add: wait_response_def stays_before_def)
    qed
    then show "cl_now c \<le> cl_now (snd (wait_response cs sequence command_id c))"
      "cl_now (snd (wait_response cs sequence command_id c)) \<le> cl_now c + (T + 49)" by blast+
  qed
  show "takes T 2049 (answer_initial_time_syncs cs)"
    unfolding takes_def
  proof (intro allI impI conjI)
    fix c :: client assume c: "cl_connect_timeout c = T"
    show "cl_connect_timeout (snd (answer_initial_time_syncs cs c)) = T"
      using keeps_timeout [OF keeps_talks_on(2)] c by (simp add: keeps_def)
    have "cl_now c \<le> cl_now (snd (answer_initial_time_syncs cs c)) \<and>
        cl_now (snd (answer_initial_time_syncs cs c)) \<le> cl_now c + 2049"
    proof -
      have "stays_before (cl_now c + 2000) c (snd (answer_loop cs (cl_now c + 2000) 0 c))"
        by (rule answer_loop_keeps [OF stays_before_order stays_before_basic(1,3)])
      then show ?thesis by (simp add: answer_initial_time_syncs_def stays_before_def)
    qed
    then show "cl_now c \<le> cl_now (snd (answer_initial_time_syncs cs c))"
      "cl_now (snd (answer_initial_time_syncs cs c)) \<le> cl_now c + 2049" by blast+
  qed
qed (simp_all add: takes_def)

lemma takes_handshake: "takes T ((T + 49) + ((T + 49) + (2049 + (T + 49)))) (handshake cs)"
proof -
  have "takes T (0 + (0 + ((T + 49) + (0 + 0))))
    (seq_state (lift_result (build_lan_auth_request creds)) (\<lambda>request.
     seq_state (send_request cs 1 LAN_AUTH_COMMAND request) (\<lambda>_.
     seq_state (wait_response cs 1 LAN_AUTH_COMMAND) (\<lambda>auth.
     seq_state (lift_result (read_session_prefix cs creds auth)) (\<lambda>pfx c.
       (Inr (), c\<lparr>cl_session := Some pfx\<rparr>))))))" for creds
    by (intro takes_seq takes_basic)
  then have 1: "takes T (T + 49) (authenticate cs)"
    by (simp add: takes_def authenticate_def)
  have "takes T (0 + (0 + ((T + 49) + (2049 + (0 + (0 + ((T + 49) + 0))))))) (start_stream cs)"
    unfolding start_stream_def by (intro takes_seq takes_basic)
  then have 2: "takes T ((T + 49) + (2049 + (T + 49))) (start_stream cs)" by simp
  show ?thesis
    unfolding handshake_def by (rule takes_seq [OF 1 2])
qed

lemma connect_time:
  "cl_now c \<le> cl_now (snd (connect cs c)) \<and> cl_now (snd (connect cs c)) \<le> cl_now c + 3 * cl_connect_timeout c + 2196 \<and>
   cl_connect_timeout (snd (connect cs c)) = cl_connect_timeout c"
proof -
  let ?c = "close_client c"
  show ?thesis
  proof (cases rule: dial_cases [of ?c])
    case (refused e dials)
    then show ?thesis by (simp add: connect_def close_client_def)
  next
    case (opened c1)
    obtain r c2 where h: "handshake cs c1 = (r, c2)" by fastforce
    have "cl_now c \<le> cl_now c2 \<and> cl_now c2 \<le> cl_now c + 3 * cl_connect_timeout c + 2196 \<and> cl_connect_timeout c2 = cl_connect_timeout c"
      using takesD [OF takes_handshake h] opened(5,6) by (simp add: close_client_def)
    with opened(1) h show ?thesis
      by (cases r) (simp_all add: connect_def close_client_def)
  qed
qed

lemma takes_with_client:
  assumes "takes T k block"
  shows "takes T (3 * T + 2196 + k) (with_client cs block)"
  unfolding takes_def
proof (intro allI impI)
  fix c :: client assume c: "cl_connect_timeout c = T"
  obtain r c1 where m: "connect cs c = (r, c1)" by fastforce
  obtain x c2 where b: "block c1 = (x, c2)" by fastforce
  from takesD [OF assms b] connect_time [of c cs] m b c
  show "cl_connect_timeout (snd (with_client cs block c)) = T \<and> cl_now c \<le> cl_now (snd (with_client cs block c)) \<and>
      cl_now (snd (with_client cs block c)) \<le> cl_now c + (3 * T + 2196 + k)"
    by (cases r) (simp_all add: with_client_def close_client_def)
qed

lemma with_client_disconnects: "disconnected (snd (with_client cs block c))"
  using connect_outcome [of c cs] disconnected_close
  by (auto simp: with_client_def split: prod.split sum.splits)

text \<open>
  C28. However the camera behaves - silent, trickling bytes, sending packets of other kinds without
  end - \<open>connect\<close> returns within three connect timeouts, the two seconds of the time-sync phase and
  the 50 ms granularity of the reads, once the socket is open.
\<close>

theorem connect_duration:
  "cl_now (snd (connect cs c)) \<le> cl_now c + 3 * cl_connect_timeout c + 2196"
  using connect_time by blast

end
