(* ===== verification/Client_Stream.thy ===== *)
theory Client_Stream
  imports Client_Correct
begin

text \<open>
  The packets of \<open>CameraClient\<close>: what the handshake does with packets that are not for it, and when
  the frame loop gives a stalled stream up.
\<close>

section \<open>The handshake loses no packet\<close>

fun awaited :: "nat \<Rightarrow> nat \<Rightarrow> packet \<Rightarrow> bool" where
  "awaited sequence command_id (RPC p) \<longleftrightarrow>
     rpc_rpc_type p = RPC_RESPONSE \<and> rpc_sequence p = sequence \<and> rpc_command_id p = command_id"
| "awaited sequence command_id _ \<longleftrightarrow> False"

fun time_request :: "packet \<Rightarrow> bool" where
  "time_request (RPC p) \<longleftrightarrow> rpc_rpc_type p = RPC_REQUEST \<and> rpc_command_id p = TIME_SYNC_COMMAND"
| "time_request _ \<longleftrightarrow> False"

lemma send_data_Inr:
  "send_data data c = (Inr u, c') \<Longrightarrow> cl_sent c' = cl_sent c @ [data]"
  by (auto simp: send_data_def split: if_splits list.splits option.splits)

lemma handle_rpc_request_Inr:
  assumes "handle_rpc_request cs p c = (Inr handled, c')"
  shows "handled = time_request (RPC p)" and "\<not> handled \<Longrightarrow> c' = c"
    and "handled \<Longrightarrow> length (cl_sent c') = length (cl_sent c) + 1"
  using assms
  by (auto simp: handle_rpc_request_def Let_def seq_state_Inr_iff lift_result_def dest!: send_data_Inr
      split: if_splits)

text \<open>
  While the handshake waits for the response to one of its requests, a batch of packets is
  sorted without loss: the response that is waited for is returned (the last one when it comes
  twice), every time-sync request of the camera is answered with one message, and every other
  packet is put aside for the frame loop, in its order.
\<close>

theorem handshake_sorts_packets:
  assumes "sort_packets cs sequence command_id ps found c = (Inr result, c')"
  shows "result = (case filter (awaited sequence command_id) ps of [] \<Rightarrow> found
                   | qs \<Rightarrow> (case last qs of RPC p \<Rightarrow> Some p | _ \<Rightarrow> None)) \<and>
    cl_pending c' = cl_pending c @ filter (\<lambda>p. \<not> awaited sequence command_id p \<and> \<not> time_request p) ps \<and>
    length (cl_sent c') = length (cl_sent c) + length (filter time_request ps)"
  using assms
proof (induction cs sequence command_id ps found c arbitrary: c' rule: sort_packets.induct)
  case (1 cs sequence command_id found c)
  then show ?case by simp
next
  case (2 cs sequence command_id p ps found c)
  show ?case
  proof (cases "awaited sequence command_id (RPC p)")
    case True
    then have cond: "rpc_rpc_type p = RPC_RESPONSE \<and> rpc_sequence p = sequence \<and> rpc_command_id p = command_id"
      by simp
    then have "\<not> time_request (RPC p)" by (simp add: RPC_REQUEST_def RPC_RESPONSE_def)
    with 2(1) [OF cond, of c'] 2(3) cond True show ?thesis
      by (simp add: last.simps split: list.splits)
  next
    case notmine: False
    then have cond: "\<not> (rpc_rpc_type p = RPC_RESPONSE \<and> rpc_sequence p = sequence \<and> rpc_command_id p = command_id)"
      by simp
    obtain r c1 where h: "handle_rpc_request cs p c = (r, c1)" by fastforce
    with 2(3) cond obtain handled where r: "r = Inr handled"
      by (cases r) (simp_all only: sort_packets.simps if_False prod.case sum.case prod.inject sum.distinct simp_thms)
    note handled = handle_rpc_request_Inr [OF h [unfolded r]]
    note served = only_sendsD(8) [OF keepsD [OF keeps_handle_rpc_request h]]
    let ?c1 = "if handled then c1 else append_pending (RPC p) c1"
    have "sort_packets cs sequence command_id ps found ?c1 = (Inr result, c')"
      using 2(3) by (simp only: sort_packets.simps cond if_False h r prod.case sum.case)
    from 2(2) [OF cond h [symmetric] r this] handled served notmine show ?thesis
      by (cases handled) (simp_all add: append_pending_def del: awaited.simps time_request.simps)
  qed
qed (simp_all add: append_pending_def)

lemma handshake_sorts_packets_witness:
  "\<exists>c'. sort_packets demo_suite 1 2650 [AV (demo_fragment 1 0 []), AV (demo_fragment 2 0 [])] None
     (projr (camera_client demo_credentials 10 10 None)) = (Inr None, c') \<and>
     cl_pending c' = [AV (demo_fragment 1 0 []), AV (demo_fragment 2 0 [])]"
proof -
  let ?c = "projr (camera_client demo_credentials 10 10 None)"
  let ?ps = "[AV (demo_fragment 1 0 []), AV (demo_fragment 2 0 [])]"
  obtain c' where run: "sort_packets demo_suite 1 2650 ?ps None ?c = (Inr None, c')" by simp
  have "cl_pending ?c = []" by (simp add: camera_client_def)
  with run handshake_sorts_packets [OF run] show ?thesis by auto
qed

section \<open>Stalled streams\<close>

lemma frames_av_video:
  assumes "frames_av cs audio p fs c = (out, Inr fs')"
  shows "fs_frame_deadline fs' = (if \<exists>v. Video v \<in> set out then cl_now c + cl_frame_timeout c else fs_frame_deadline fs)"
  using assms by (auto simp: frames_av_def Let_def split: prod.splits sum.splits option.splits if_splits)

lemma frames_packets_RPC:
  obtains e c1 where "frames_packets cs audio (RPC p # ps) fs c = ([], Inl e, c1)"
  | c1 where "frames_packets cs audio (RPC p # ps) fs c = frames_packets cs audio ps fs c1"
proof -
  obtain found table where t: "(if rpc_rpc_type p = RPC_RESPONSE then resolve_pending p (cl_commands c)
      else (False, cl_commands c)) = (found, table)" by fastforce
  obtain h c1 where h: "handle_rpc_request cs p c = (h, c1)" by fastforce
  show thesis
  proof (cases found)
    case True
    with t show thesis by (intro that(2) [of "c\<lparr>cl_commands := table\<rparr>"]) simp
  next
    case False
    with t h show thesis
      by (cases h) (intro that(1) [of _ c1] that(2) [of c1]; simp)+
  qed
qed

lemma frames_packets_video:
  "frames_packets cs audio ps fs c = (out, Inr fs', c') \<Longrightarrow> \<forall>v. Video v \<notin> set out \<Longrightarrow>
     fs_frame_deadline fs' = fs_frame_deadline fs"
proof (induction ps arbitrary: fs c out)
  case (Cons p ps)
  show ?case
  proof (cases p)
    case (RPC q)
    show ?thesis
    proof (cases rule: frames_packets_RPC [of cs audio q ps fs c])
      case (1 e c1)
      with Cons.prems(1) show ?thesis unfolding RPC 1 by simp
    next
      case (2 c1)
      show ?thesis by (rule Cons.IH [OF Cons.prems(1) [unfolded RPC 2] Cons.prems(2)])
    qed
  next
    case (AV q)
    obtain o1 x where av: "frames_av cs audio q fs c = (o1, x)" by fastforce
    with Cons.prems AV obtain fs1 where fs1: "x = Inr fs1" by (cases x) auto
    obtain o2 y c2 where rest: "frames_packets cs audio ps fs1 c = (o2, y, c2)"
      by (cases "frames_packets cs audio ps fs1 c") auto
    with Cons.prems(1) AV av fs1 have eq: "out = o1 @ o2" "y = Inr fs'" by auto
    with Cons.IH [of fs1 c o2] rest Cons.prems AV av fs1 frames_av_video [OF av [unfolded fs1]]
    show ?thesis by auto
  next
    case (Raw q)
    with Cons show ?thesis by simp
  qed
qed simp

text \<open>One iteration takes at most the heartbeat interval and the granularity of a read.\<close>

lemma frames_iteration_time:
  assumes "frames_iteration cs audio fs c = (out, r, c')"
    and "fs_next_heartbeat fs \<le> cl_now c + 500"
  shows "cl_now c \<le> cl_now c'" and "cl_now c' \<le> cl_now c + 549"
    and "cl_open c' = cl_open c" and "cl_frame_timeout c' = cl_frame_timeout c"
    and "r = Inr fs' \<Longrightarrow> fs_next_heartbeat fs' \<le> cl_now c' + 500 \<and> cl_now c' < fs_frame_deadline fs'"
    and "r = Inr fs' \<Longrightarrow> (\<And>v. Video v \<notin> set out) \<Longrightarrow> fs_frame_deadline fs' = fs_frame_deadline fs"
proof -
  obtain x c1 where h: "heartbeat cs fs c = (x, c1)" by fastforce
  note c1 = only_servesD [OF heartbeat_serves [OF h]]
  have goal: "cl_now c \<le> cl_now c' \<and> cl_now c' \<le> cl_now c + 549 \<and> cl_open c' = cl_open c \<and>
      cl_frame_timeout c' = cl_frame_timeout c \<and>
      (r = Inr fs' \<longrightarrow> fs_next_heartbeat fs' \<le> cl_now c' + 500 \<and> cl_now c' < fs_frame_deadline fs') \<and>
      (r = Inr fs' \<longrightarrow> (\<forall>v. Video v \<notin> set out) \<longrightarrow> fs_frame_deadline fs' = fs_frame_deadline fs)"
  proof (cases x)
    case (Inl e)
    with assms(1) h c1 show ?thesis by (auto simp: frames_iteration_def seq_state_def)
  next
    case (Inr fs1)
    note hb = heartbeat_fields [OF h [unfolded Inr]]
    from hb(3) have fs1: "fs_frame_deadline fs1 = fs_frame_deadline fs"
      by (metis frames_state.select_convs(3) frames_state.surjective frames_state.update_convs(4))
    have next1: "fs_next_heartbeat fs1 \<le> cl_now c + 500"
      using hb(2) assms(2) by (simp add: HEARTBEAT_INTERVAL_def)
    obtain y c2 where n: "next_packets fs1 c1 = (y, c2)" by fastforce
    have c2: "cl_now c \<le> cl_now c2 \<and> cl_now c2 \<le> cl_now c + 549 \<and> cl_open c2 = cl_open c \<and>
        cl_frame_timeout c2 = cl_frame_timeout c"
    proof (cases "cl_pending c1")
      case (Cons p ps)
      have "next_packets fs1 c1 = (Inr [p], c1\<lparr>cl_pending := ps\<rparr>)"
        by (simp add: next_packets_def Cons)
      with n c1 show ?thesis by auto
    next
      case Nil
      with n have rc: "receive (min (min (cl_now c1 + 2000) (fs_activity_deadline fs1)) (fs_next_heartbeat fs1)) c1 = (y, c2)"
        by (simp add: next_packets_def)
      from receive_time [OF rc] receive_fields [OF rc] next1 c1 show ?thesis by auto
    qed
    show ?thesis
    proof (cases y)
      case (Inl e)
      with assms(1) h \<open>x = Inr fs1\<close> n c2 show ?thesis
        by (auto simp: frames_iteration_def seq_state_def)
    next
      case (Inr packets)
      let ?fs = "if packets \<noteq> [] then fs1\<lparr>fs_activity_deadline := cl_now c2 + cl_frame_timeout c2\<rparr> else fs1"
      obtain o3 z c3 where f: "frames_packets cs audio packets ?fs c2 = (o3, z, c3)"
        by (cases "frames_packets cs audio packets ?fs c2") auto
      note c3 = only_servesD [OF frames_packets_serves [OF f]]
      have run: "frames_iteration cs audio fs c =
          (case z of Inl e \<Rightarrow> (o3, Inl e, c3) | Inr fs2 \<Rightarrow> (o3, watchdog fs2 c3, c3))"
        using h \<open>x = Inr fs1\<close> n Inr f
        by (simp add: frames_iteration_def seq_state_def lift_result_def split: sum.split)
      show ?thesis
      proof (cases z)
        case (Inl e)
        with run assms(1) c2 c3 show ?thesis by auto
      next
        case fs2: (Inr fs2)
        note nh = frames_packets_deadline [OF f [unfolded fs2]]
        have nh': "fs_next_heartbeat fs2 \<le> cl_now c3 + 500"
          using nh next1 c2 c3(1) by (auto split: if_splits)
        have "watchdog fs2 c3 = Inr fs' \<Longrightarrow> fs' = fs2 \<and> cl_now c3 < fs_frame_deadline fs2"
          by (auto simp: watchdog_def split: if_splits)
        moreover have "(\<forall>v. Video v \<notin> set o3) \<longrightarrow> fs_frame_deadline fs2 = fs_frame_deadline fs"
          using frames_packets_video [OF f [unfolded fs2]] fs1 by (auto split: if_splits)
        ultimately show ?thesis
          using run assms(1) fs2 c2 c3 nh' by auto
      qed
    qed
  qed
  then show "cl_now c \<le> cl_now c'" and "cl_now c' \<le> cl_now c + 549"
    and "cl_open c' = cl_open c" and "cl_frame_timeout c' = cl_frame_timeout c"
    and "r = Inr fs' \<Longrightarrow> fs_next_heartbeat fs' \<le> cl_now c' + 500 \<and> cl_now c' < fs_frame_deadline fs'"
    and "r = Inr fs' \<Longrightarrow> (\<And>v. Video v \<notin> set out) \<Longrightarrow> fs_frame_deadline fs' = fs_frame_deadline fs"
    by blast+
qed

lemma frames_loop_stall:
  assumes "frames_loop cs audio fs c = (out, r, c')" and "cl_open c"
    and "fs_next_heartbeat fs \<le> cl_now c + 500" and "cl_now c < fs_frame_deadline fs"
  shows "(\<exists>e. r = Inl e) \<and>
    ((\<forall>v. Video v \<notin> set out) \<longrightarrow> cl_now c' < fs_frame_deadline fs + 549)"
  using assms
proof (induction cs audio fs c arbitrary: out r c' rule: frames_loop.induct)
  case (1 cs audio fs c)
  obtain o1 x c1 where i: "frames_iteration cs audio fs c = (o1, x, c1)"
    by (cases "frames_iteration cs audio fs c") auto
  note time = frames_iteration_time [OF i 1(4)]
  show ?case
  proof (cases x)
    case (Inl e)
    with 1(2,3) i have "out = o1 \<and> r = Inl e \<and> c' = c1"
      by (simp add: frames_loop.simps [of cs audio fs c])
    with time(2) 1(5) show ?thesis by simp
  next
    case (Inr fs1)
    obtain o2 y c2 where rec: "frames_loop cs audio fs1 c1 = (o2, y, c2)"
      by (cases "frames_loop cs audio fs1 c1") auto
    with 1(2,3) i Inr have eq: "out = o1 @ o2 \<and> r = y \<and> c' = c2"
      by (simp add: frames_loop.simps [of cs audio fs c])
    have "\<not> \<not> cl_open c" using 1(3) by simp
    from 1(1) [OF this i [symmetric] refl Inr rec] time(3) time(5,6) [of fs1] 1(3) Inr eq
    show ?thesis by auto
  qed
qed

lemma frames_outcome:
  assumes "connected c" and "0 < cl_frame_timeout c" and "frames cs audio budget c = (out, r, c')"
  shows "\<exists>e. r = Inl e" and "entries (cl_commands c') = []"
    and "\<forall>v. Video v \<notin> set out \<Longrightarrow> cl_now c' < cl_now c + cl_frame_timeout c + 549"
proof -
  from assms(1) obtain pfx where pfx: "cl_session c = Some pfx" "length pfx = 32" and "cl_open c"
    by (auto simp: connected_def valid_session_def split: option.splits)
  then obtain fs where start: "frames_start budget c = (Inr fs, c)"
    and fs: "fs_next_heartbeat fs = cl_now c + 500" "fs_frame_deadline fs = cl_now c + cl_frame_timeout c"
    by (simp add: frames_start_def mjpeg_reassembler_Inr HEARTBEAT_INTERVAL_def mjpeg_reassembler_def)
  obtain c1 where loop: "frames_loop cs audio fs c = (out, r, c1)"
    and c': "c' = c1\<lparr>cl_commands := fail_pending (CameraError ''camera stream stopped'') (cl_commands c1)\<rparr>"
    using assms(3) start by (auto simp: frames_def split: prod.splits)
  from frames_loop_stall [OF loop \<open>cl_open c\<close>] fs assms(2) c'
  show "\<exists>e. r = Inl e" and "entries (cl_commands c') = []"
    and "\<forall>v. Video v \<notin> set out \<Longrightarrow> cl_now c' < cl_now c + cl_frame_timeout c + 549"
    by (simp_all add: fail_pending_def)
qed

text \<open>
  C1. The stream loop ends for every network: it never returns normally on an open connection, and
  when the camera sends no complete frame - nothing at all, or audio only, or fragments of frames
  that never end - it is given up with an exception within the frame timeout and 549 ms. Every
  control command that was registered then is awake.
\<close>

theorem stalled_stream_given_up:
  assumes "connected c" and "0 < cl_frame_timeout c" and "frames cs audio budget c = (out, r, c')"
  shows "(\<exists>e. r = Inl e) \<and> entries (cl_commands c') = [] \<and>
    ((\<forall>v. Video v \<notin> set out) \<longrightarrow> cl_now c' < cl_now c + cl_frame_timeout c + 549)"
  using frames_outcome [OF assms] by blast

definition demo_client :: client where
  "demo_client = (projr (camera_client demo_credentials 100 2000 None))
     \<lparr>cl_open := True, cl_session := Some (replicate 32 48)\<rparr>"

lemma demo_client_connected: "connected demo_client" "0 < cl_frame_timeout demo_client"
proof -
  have "is_hex_byte 48" by (simp add: is_hex_byte_def str_encode_def)
  then show "connected demo_client" "0 < cl_frame_timeout demo_client"
    by (simp_all add: demo_client_def camera_client_def connected_def valid_session_def empty_table_def list_all_iff)
qed

lemma stalled_stream_given_up_witness:
  "\<exists>e. fst (snd (frames demo_suite True None demo_client)) = Inl e"
proof -
  obtain out r c' where "frames demo_suite True None demo_client = (out, r, c')"
    by (cases "frames demo_suite True None demo_client") auto
  with stalled_stream_given_up [OF demo_client_connected, of demo_suite True None out r c'] show ?thesis
    by auto
qed

end
