(* ===== verification/Client_Control.thy ===== *)
theory Client_Control
  imports Client_Stream
begin

text \<open>
  Control commands of \<open>CameraClient\<close> against the reader thread: between the begin and the end of a
  command the reader takes any number of steps. The command gets its own answer or an error, and it
  is never left asleep by a connection that is gone.
\<close>

text \<open>
  The steps of the reader thread, as \<open>CameraSession\<close> drives it: reconnecting, asking for audio,
  iterations of the frame loop, the end of the stream, closing.
\<close>

inductive reader_step :: "cipher_suite \<Rightarrow> client \<Rightarrow> client \<Rightarrow> bool" for cs where
  Reconnect: "connect cs c = (r, c') \<Longrightarrow> reader_step cs c c'"
| Ask_Audio: "start_audio cs c = (r, c') \<Longrightarrow> reader_step cs c c'"
| Iterate: "frames_iteration cs audio fs c = (out, x, c') \<Longrightarrow> reader_step cs c c'"
| Stream_End: "reader_step cs c (c\<lparr>cl_commands := fail_pending (CameraError ''camera stream stopped'') (cl_commands c)\<rparr>)"
| Close: "reader_step cs c (close_client c)"

inductive_cases reader_stepE: "reader_step cs c c'"

text \<open>Each of them changes the table by resolving responses and by failing everything.\<close>

inductive table_step :: "pending_table \<Rightarrow> pending_table \<Rightarrow> bool" where
  Resolve: "rpc_rpc_type p = RPC_RESPONSE \<Longrightarrow> table_step t (snd (resolve_pending p t))"
| Fail: "is_camera_error e \<Longrightarrow> table_step t (fail_pending e t)"

inductive_cases table_stepE: "table_step t t'"

lemma frames_packets_table:
  "frames_packets cs audio ps fs c = (out, r, c') \<Longrightarrow> table_step\<^sup>*\<^sup>* (cl_commands c) (cl_commands c')"
proof (induction ps arbitrary: fs c out)
  case (Cons p ps)
  show ?case
  proof (cases p)
    case (RPC q)
    obtain found table where t: "(if rpc_rpc_type q = RPC_RESPONSE then resolve_pending q (cl_commands c)
        else (False, cl_commands c)) = (found, table)" by fastforce
    obtain h c1 where h: "handle_rpc_request cs q c = (h, c1)" by fastforce
    note c1 = only_sendsD(6) [OF keepsD [OF keeps_handle_rpc_request h]]
    show ?thesis
    proof (cases found)
      case True
      with t have "rpc_rpc_type q = RPC_RESPONSE" and "resolve_pending q (cl_commands c) = (found, table)"
        by (auto split: if_splits)
      with Resolve [of q "cl_commands c"] have "table_step (cl_commands c) table" by simp
      moreover have "table_step\<^sup>*\<^sup>* table (cl_commands c')"
        using Cons.IH [of fs "c\<lparr>cl_commands := table\<rparr>" out] Cons.prems RPC t True by simp
      ultimately show ?thesis by (rule converse_rtranclp_into_rtranclp)
    next
      case False
      with Cons.IH [of fs c1 out] Cons.prems RPC t h c1 show ?thesis by (cases h) auto
    qed
  next
    case (AV q)
    obtain o1 x where av: "frames_av cs audio q fs c = (o1, x)" by fastforce
    show ?thesis
    proof (cases x)
      case (Inr fs1)
      obtain o2 y c2 where rest: "frames_packets cs audio ps fs1 c = (o2, y, c2)"
        by (cases "frames_packets cs audio ps fs1 c") auto
      with Cons.prems AV av Inr have "y = r" "c2 = c'" by auto
      with Cons.IH [of fs1 c o2] rest show ?thesis by simp
    qed (use Cons.prems AV av in auto)
  next
    case (Raw q)
    with Cons show ?thesis by simp
  qed
qed simp

lemma frames_iteration_table:
  assumes "frames_iteration cs audio fs c = (out, x, c')"
  shows "table_step\<^sup>*\<^sup>* (cl_commands c) (cl_commands c')"
proof -
  obtain h c1 where h: "heartbeat cs fs c = (h, c1)" by fastforce
  have c1: "cl_commands c1 = cl_commands c"
  proof (cases "cl_now c < fs_next_heartbeat fs")
    case False
    obtain n c0 where a: "allocate_sequence c = (n, c0)" by fastforce
    obtain y c2 where s: "send_heartbeat cs n (fs_latest fs) c0 = (y, c2)" by fastforce
    have "cl_commands c2 = cl_commands c"
      using only_sendsD(6) [OF keepsD [OF keeps_send_heartbeat s]] a by (auto simp: allocate_sequence_def)
    with h False a s show ?thesis by (cases y) (auto simp: heartbeat_def)
  qed (use h in \<open>simp add: heartbeat_def\<close>)
  show ?thesis
  proof (cases h)
    case (Inl e)
    with assms h c1 show ?thesis by (auto simp: frames_iteration_def seq_state_def)
  next
    case (Inr fs1)
    obtain y c2 where n: "next_packets fs1 c1 = (y, c2)" by fastforce
    have c2: "cl_commands c2 = cl_commands c"
      using n c1 by (auto simp: next_packets_def dest!: receive_fields(7) split: list.splits)
    show ?thesis
    proof (cases y)
      case (Inl e)
      with assms h Inr n c2 show ?thesis by (auto simp: frames_iteration_def seq_state_def)
    next
      case packets: (Inr packets)
      let ?fs = "if packets \<noteq> [] then fs1\<lparr>fs_activity_deadline := cl_now c2 + cl_frame_timeout c2\<rparr> else fs1"
      obtain o3 z c3 where f: "frames_packets cs audio packets ?fs c2 = (o3, z, c3)"
        by (cases "frames_packets cs audio packets ?fs c2") auto
      have "c' = c3"
        using assms h Inr n packets f
        by (cases z) (simp_all add: frames_iteration_def seq_state_def lift_result_def)
      with frames_packets_table [OF f] c2 show ?thesis by simp
    qed
  qed
qed

lemma keeps_start_audio: "start_audio cs c = (r, c') \<Longrightarrow> talks_on c c'"
proof -
  have "keeps talks_on (seq_state (send_request cs 4 AUDIO_START_COMMAND []) (\<lambda>_.
        seq_state (wait_response cs 4 AUDIO_START_COMMAND) (\<lambda>response.
        seq_state (lift_result (decrypt_rpc_payload cs response pfx)) (\<lambda>payload.
        seq_state (lift_result (first_varint_field payload 5)) (\<lambda>media_format.
        seq_state (lift_result (first_varint_field payload 6)) (\<lambda>sample_rate.
          lift_result (k media_format sample_rate)))))))" for pfx and k :: "nat \<Rightarrow> nat \<Rightarrow> unit result"
    by (intro keeps_seq [OF talks_on_order(2)] keeps_talks_on)
  from keepsD [OF this] show "start_audio cs c = (r, c') \<Longrightarrow> talks_on c c'"
    by (auto simp: start_audio_def reflpD [OF talks_on_order(1)] split: if_splits)
qed

lemma connect_commands:
  assumes "connect cs c = (r, c')"
  shows "cl_commands c' = cl_commands (close_client c) \<or>
    cl_commands c' = fail_pending (CameraError ''camera connection closed'') (cl_commands (close_client c))"
proof -
  let ?c = "close_client c"
  show ?thesis
  proof (cases rule: dial_cases [of ?c])
    case (refused e dials)
    with assms show ?thesis by (auto simp: connect_def)
  next
    case (opened c1)
    obtain x c2 where h: "handshake cs c1 = (x, c2)" by fastforce
    have c2: "cl_commands c2 = cl_commands ?c"
      using only_talksD(3) [OF keepsD [OF keeps_handshake h]] opened(3) by simp
    have "c' = c2 \<or> c' = close_client c2"
      using assms opened(1) h by (cases x) (auto simp: connect_def)
    then show ?thesis
    proof
      assume "c' = close_client c2"
      then have "cl_commands c' = fail_pending (CameraError ''camera connection closed'') (cl_commands c2)"
        by (simp add: close_client_def)
      with c2 show ?thesis by simp
    qed (simp add: c2)
  qed
qed

lemma close_client_commands:
  "cl_commands (close_client c) = fail_pending (CameraError ''camera connection closed'') (cl_commands c)"
  by (simp add: close_client_def)

lemma connect_table:
  assumes "connect cs c = (r, c')"
  shows "table_step\<^sup>*\<^sup>* (cl_commands c) (cl_commands c')"
proof -
  have first: "table_step (cl_commands c) (cl_commands (close_client c))"
    unfolding close_client_commands by (rule Fail) simp
  from connect_commands [OF assms] show ?thesis
  proof
    assume "cl_commands c' = cl_commands (close_client c)"
    with first show ?thesis by simp
  next
    assume "cl_commands c' = fail_pending (CameraError ''camera connection closed'') (cl_commands (close_client c))"
    then have "table_step (cl_commands (close_client c)) (cl_commands c')" by (simp add: Fail)
    with first show ?thesis by (rule converse_rtranclp_into_rtranclp [OF _ r_into_rtranclp])
  qed
qed

lemma reader_step_table:
  "reader_step cs c c' \<Longrightarrow> table_step\<^sup>*\<^sup>* (cl_commands c) (cl_commands c')"
proof (induction rule: reader_step.induct)
  case (Ask_Audio c r c')
  from keeps_start_audio [OF this] have "cl_commands c' = cl_commands c"
    by (simp add: talks_on_def only_talksD)
  then show ?case by simp
next
  case (Close c)
  show ?case by (rule r_into_rtranclp) (simp add: close_client_def Fail)
next
  case (Stream_End c)
  show ?case by (rule r_into_rtranclp) (simp add: Fail)
qed (auto intro: connect_table frames_iteration_table)

text \<open>
  What no step of the reader changes: the timeout of controls; and the failures of \<open>sendall\<close> still
  to come are among those there were.
\<close>

definition same_setup :: "client \<Rightarrow> client \<Rightarrow> bool" where
  "same_setup c c' \<longleftrightarrow> suffix (cl_sends c') (cl_sends c) \<and> cl_control_timeout c' = cl_control_timeout c"

lemma same_setup_refl [simp]: "same_setup c c"
  by (simp add: same_setup_def)

lemma same_setup_trans: "same_setup c d \<Longrightarrow> same_setup d e \<Longrightarrow> same_setup c e"
  by (auto simp: same_setup_def intro: suffix_order.trans)

lemma same_setup_basic:
  "only_serves c c' \<Longrightarrow> same_setup c c'" "only_talks c c' \<Longrightarrow> same_setup c c'"
  "same_setup c (close_client c)"
  by (cases c; cases c'; simp add: same_setup_def only_serves_def only_talks_def close_client_def)+

lemma frames_iteration_setup:
  assumes "frames_iteration cs audio fs c = (out, x, c')"
  shows "same_setup c c'"
proof -
  obtain h c1 where h: "heartbeat cs fs c = (h, c1)" by fastforce
  note c1 = same_setup_basic(1) [OF heartbeat_serves [OF h]]
  show ?thesis
  proof (cases h)
    case (Inl e)
    with assms h c1 show ?thesis by (auto simp: frames_iteration_def seq_state_def)
  next
    case (Inr fs1)
    obtain y c2 where n: "next_packets fs1 c1 = (y, c2)" by fastforce
    have c2: "same_setup c1 c2"
      using n receive_fields(12,13) [of _ c1 y c2] by (auto simp: next_packets_def same_setup_def split: list.splits)
    show ?thesis
    proof (cases y)
      case (Inl e)
      with assms h Inr n show ?thesis
        using same_setup_trans [OF c1 c2] by (auto simp: frames_iteration_def seq_state_def)
    next
      case packets: (Inr packets)
      let ?fs = "if packets \<noteq> [] then fs1\<lparr>fs_activity_deadline := cl_now c2 + cl_frame_timeout c2\<rparr> else fs1"
      obtain o3 z c3 where f: "frames_packets cs audio packets ?fs c2 = (o3, z, c3)"
        by (cases "frames_packets cs audio packets ?fs c2") auto
      have "c' = c3"
        using assms h Inr n packets f
        by (cases z) (simp_all add: frames_iteration_def seq_state_def lift_result_def)
      with same_setup_basic(1) [OF frames_packets_serves [OF f]] c1 c2 show ?thesis
        by (auto intro: same_setup_trans)
    qed
  qed
qed

lemma connect_setup:
  assumes "connect cs c = (r, c')"
  shows "same_setup c c'"
proof (cases rule: dial_cases [of "close_client c"])
  case (refused e dials)
  with assms show ?thesis by (auto simp: connect_def close_client_def same_setup_def)
next
  case (opened c1)
  obtain x c2 where h: "handshake cs c1 = (x, c2)" by fastforce
  note talks = same_setup_basic(2) [OF keepsD [OF keeps_handshake h]]
  have "c' = c2 \<or> c' = close_client c2"
    using assms opened(1) h by (cases x) (auto simp: connect_def)
  moreover have "same_setup c c1"
    using opened(1) by (auto simp: dial_def close_client_def same_setup_def split: list.splits sum.splits)
  ultimately show ?thesis
    using talks by (auto intro: same_setup_trans same_setup_basic(3))
qed

lemma reader_step_setup: "reader_step cs c c' \<Longrightarrow> same_setup c c'"
proof (induction rule: reader_step.induct)
  case (Ask_Audio c r c')
  from keeps_start_audio [OF this] show ?case by (simp add: talks_on_def same_setup_basic)
next
  case (Stream_End c)
  show ?case by (simp add: same_setup_def)
qed (auto intro: connect_setup frames_iteration_setup same_setup_basic)

lemma reader_steps_setup: "(reader_step cs)\<^sup>*\<^sup>* c c' \<Longrightarrow> same_setup c c'"
  by (induction rule: rtranclp_induct) (auto dest: reader_step_setup intro: same_setup_trans)

text \<open>The answers of failed commands are camera errors.\<close>

definition camera_failures :: "pending_table \<Rightarrow> bool" where
  "camera_failures t \<longleftrightarrow> (\<forall>ticket s e. slots t ticket = Some s \<longrightarrow> pc_error s = Some e \<longrightarrow> is_camera_error e)"

lemma camera_failures_step: "table_step t t' \<Longrightarrow> camera_failures t \<Longrightarrow> camera_failures t'"
  by (erule table_stepE) (auto simp: camera_failures_def resolve_pending_def fail_pending_def
      split: option.splits if_splits)

lemma camera_failures_steps: "table_step\<^sup>*\<^sup>* t t' \<Longrightarrow> camera_failures t \<Longrightarrow> camera_failures t'"
  by (induction rule: rtranclp_induct) (auto intro: camera_failures_step)

lemma table_inv_steps: "table_step\<^sup>*\<^sup>* t t' \<Longrightarrow> table_inv t \<Longrightarrow> table_inv t'"
  by (induction rule: rtranclp_induct) (auto elim!: table_stepE intro: table_inv_resolve table_inv_fail)

lemma reader_steps_table:
  "(reader_step cs)\<^sup>*\<^sup>* c c' \<Longrightarrow> table_step\<^sup>*\<^sup>* (cl_commands c) (cl_commands c')"
  by (induction rule: rtranclp_induct) (auto intro: reader_step_table rtranclp_trans)

section \<open>A command owns its slot\<close>

definition own_slot :: "command_key \<Rightarrow> bool \<Rightarrow> pending_command \<Rightarrow> bool" where
  "own_slot key registered s \<longleftrightarrow> (pc_event s \<or> registered) \<and>
     (case pc_response s of None \<Rightarrow> True
      | Some p \<Rightarrow> rpc_command_id p = fst key \<and> rpc_sequence p = snd key \<and> rpc_rpc_type p = RPC_RESPONSE)"

definition owned :: "command_key \<Rightarrow> nat \<Rightarrow> pending_table \<Rightarrow> bool" where
  "owned key ticket t \<longleftrightarrow> table_inv t \<and>
     (\<forall>k. map_of (entries t) k = Some ticket \<longrightarrow> k = key) \<and>
     (\<exists>s. slots t ticket = Some s \<and> own_slot key (map_of (entries t) key = Some ticket) s)"

lemma own_slotD:
  assumes "own_slot key registered s"
  shows "\<not> pc_event s \<Longrightarrow> registered"
    and "pc_response s = Some p \<Longrightarrow> rpc_command_id p = fst key \<and> rpc_sequence p = snd key \<and>
      rpc_rpc_type p = RPC_RESPONSE"
  using assms by (auto simp: own_slot_def)

lemma owned_resolve:
  assumes "owned key ticket t" and "rpc_rpc_type p = RPC_RESPONSE"
  shows "owned key ticket (snd (resolve_pending p t))"
proof (cases "map_of (entries t) (rpc_command_id p, rpc_sequence p)")
  case None
  with assms show ?thesis by (simp add: resolve_pending_def)
next
  case (Some other)
  let ?t = "snd (resolve_pending p t)"
  from assms(1) obtain s where s: "slots t ticket = Some s"
    "own_slot key (map_of (entries t) key = Some ticket) s" and inv: "table_inv t"
    and only: "\<forall>k. map_of (entries t) k = Some ticket \<longrightarrow> k = key"
    unfolding owned_def by blast
  have t: "entries ?t = entries t" "slots ?t = (slots t)(other :=
      map_option (\<lambda>s. s\<lparr>pc_response := Some p, pc_event := True\<rparr>) (slots t other))"
    using Some by (simp_all add: resolve_pending_def)
  have "\<exists>s'. slots ?t ticket = Some s' \<and> own_slot key (map_of (entries ?t) key = Some ticket) s'"
  proof (cases "other = ticket")
    case True
    with only Some have "key = (rpc_command_id p, rpc_sequence p)" by metis
    with s assms(2) True t show ?thesis by (simp add: own_slot_def)
  next
    case False
    with s t show ?thesis by simp
  qed
  with only table_inv_resolve [OF inv, of p] show ?thesis
    unfolding owned_def t(1) by blast
qed

lemma registered_ticket: "map_of (entries t) key = Some ticket \<Longrightarrow> ticket \<in> snd ` set (entries t)"
  by (metis image_eqI map_of_SomeD snd_conv)

lemma fail_pending_slot:
  "slots t ticket = Some s \<Longrightarrow> slots (fail_pending e t) ticket =
     Some (if ticket \<in> snd ` set (entries t) then s\<lparr>pc_error := Some e, pc_event := True\<rparr> else s)"
  by (simp add: fail_pending_def)

lemma owned_fail:
  assumes "owned key ticket t"
  shows "owned key ticket (fail_pending e t)"
proof -
  from assms obtain s where s: "slots t ticket = Some s"
    "own_slot key (map_of (entries t) key = Some ticket) s" and inv: "table_inv t"
    unfolding owned_def by blast
  from s(2) registered_ticket [of t key ticket]
  have "own_slot key False (if ticket \<in> snd ` set (entries t) then s\<lparr>pc_error := Some e, pc_event := True\<rparr> else s)"
    by (auto simp: own_slot_def)
  moreover have "entries (fail_pending e t) = []" by (simp add: fail_pending_def)
  ultimately show ?thesis
    using table_inv_fail [OF inv, of e] fail_pending_slot [OF s(1), of e] by (simp add: owned_def)
qed

lemma owned_steps: "table_step\<^sup>*\<^sup>* t t' \<Longrightarrow> owned key ticket t \<Longrightarrow> owned key ticket t'"
  by (induction rule: rtranclp_induct) (auto elim!: table_stepE intro: owned_resolve owned_fail)

lemma owned_fail_wakes:
  assumes "owned key ticket t"
  shows "\<not> waiting (fail_pending e t) ticket"
proof -
  from assms obtain s where s: "slots t ticket = Some s"
    "own_slot key (map_of (entries t) key = Some ticket) s"
    unfolding owned_def by blast
  with own_slotD(1) [OF s(2)] registered_ticket [of t key ticket] show ?thesis
    by (auto simp: waiting_def fail_pending_slot [OF s(1)])
qed

lemma control_begin_cases:
  assumes "control_begin cs command payload c = (Inr (key, ticket), c')"
  shows "key = (command, cl_next_sequence c)" and "ticket = next_ticket (cl_commands c)"
    and "cl_commands c' = snd (register_pending key (cl_commands c))"
proof -
  let ?key = "(command, cl_next_sequence c)"
  let ?c = "c\<lparr>cl_next_sequence := cl_next_sequence c + 1, cl_commands := snd (register_pending ?key (cl_commands c))\<rparr>"
  obtain r c1 where s: "send_request cs (cl_next_sequence c) command payload ?c = (r, c1)" by fastforce
  note same = only_sendsD(6) [OF keepsD [OF keeps_send_request s]]
  have run: "control_begin cs command payload c =
      (case r of Inl e \<Rightarrow> (Inl e, c1\<lparr>cl_commands := pop_pending ?key (cl_commands c1)\<rparr>)
       | Inr _ \<Rightarrow> (Inr (?key, next_ticket (cl_commands c)), c1))"
    unfolding control_begin_def allocate_sequence_def prod.case Let_def
    using s by (simp add: register_pending_def split: sum.split)
  from assms run same show "key = ?key" and "ticket = next_ticket (cl_commands c)"
    and "cl_commands c' = snd (register_pending key (cl_commands c))"
    by (auto split: sum.splits)
qed

lemma control_begin_owned:
  assumes "table_inv (cl_commands c)" and "control_begin cs command payload c = (Inr (key, ticket), c')"
  shows "owned key ticket (cl_commands c')"
proof -
  note begun = control_begin_cases [OF assms(2)]
  have fresh: "map_of (entries (cl_commands c)) k \<noteq> Some ticket" for k
    using table_inv_fresh [OF assms(1)] begun(2) registered_ticket by metis
  have "own_slot key True \<lparr>pc_event = False, pc_response = None, pc_error = None\<rparr>"
    by (simp add: own_slot_def)
  with fresh table_inv_register [OF assms(1), of key] show ?thesis
    by (simp add: owned_def begun(2,3)) (simp add: register_pending_def)
qed

text \<open>
  C2. Under every interleaving with the reader thread - reconnections, frames, heartbeats, responses
  to other commands, the end of the stream - a control command that returns a packet returns the
  response with its own command number and the sequence number it was sent with, with code 0.
\<close>

theorem control_answer_is_own:
  assumes "table_inv (cl_commands c)"
    and "control_begin cs command payload c = (Inr (key, ticket), c1)"
    and "(reader_step cs)\<^sup>*\<^sup>* c1 c2"
    and "control_end key ticket c2 = (Inr response, c3)"
  shows "rpc_command_id response = command \<and> rpc_sequence response = cl_next_sequence c \<and>
    rpc_rpc_type response = RPC_RESPONSE \<and> rpc_response_code response = Some 0"
proof -
  have "owned key ticket (cl_commands c2)"
    by (rule owned_steps [OF reader_steps_table [OF assms(3)] control_begin_owned [OF assms(1,2)]])
  then obtain s where s: "slots (cl_commands c2) ticket = Some s"
    and own: "own_slot key (map_of (entries (cl_commands c2)) key = Some ticket) s"
    unfolding owned_def by blast
  from assms(4) s have "pc_response s = Some response" "rpc_response_code response = Some 0"
    by (auto simp: control_end_def Let_def split: option.splits if_splits)
  with own_slotD(2) [OF own] control_begin_cases(1) [OF assms(2)] show ?thesis by simp
qed

text \<open>
  C24. A waiting command is never forgotten: as long as it sleeps, its response would still find it
  and be returned, and a close or a reconnection of the connection wakes it.
\<close>

theorem control_never_forgotten:
  assumes "table_inv (cl_commands c)"
    and "control_begin cs command payload c = (Inr (key, ticket), c1)"
    and "(reader_step cs)\<^sup>*\<^sup>* c1 c2"
  shows "\<not> waiting (cl_commands (close_client c2)) ticket \<and>
    \<not> waiting (cl_commands (snd (connect cs c2))) ticket \<and>
    (waiting (cl_commands c2) ticket \<longrightarrow>
      rpc_rpc_type response = RPC_RESPONSE \<longrightarrow> rpc_command_id response = command \<longrightarrow>
      rpc_sequence response = cl_next_sequence c \<longrightarrow> rpc_response_code response = Some 0 \<longrightarrow>
      fst (control_end key ticket (snd (snd (frames_packets cs audio [RPC response] fs c2)))) = Inr response)"
proof (intro conjI impI)
  have owned: "owned key ticket (cl_commands c2)"
    by (rule owned_steps [OF reader_steps_table [OF assms(3)] control_begin_owned [OF assms(1,2)]])
  show closed: "\<not> waiting (cl_commands (close_client c2)) ticket"
    unfolding close_client_commands by (rule owned_fail_wakes [OF owned])
  have again: "\<not> waiting (fail_pending e (cl_commands (close_client c2))) ticket" for e
    unfolding close_client_commands by (rule owned_fail_wakes [OF owned_fail [OF owned]])
  show "\<not> waiting (cl_commands (snd (connect cs c2))) ticket"
    using connect_commands [OF surjective_pairing, of cs c2] closed again by metis
  assume w: "waiting (cl_commands c2) ticket" and r: "rpc_rpc_type response = RPC_RESPONSE"
    "rpc_command_id response = command" "rpc_sequence response = cl_next_sequence c"
    "rpc_response_code response = Some 0"
  from owned obtain s where s: "slots (cl_commands c2) ticket = Some s"
    and own: "own_slot key (map_of (entries (cl_commands c2)) key = Some ticket) s" and inv: "table_inv (cl_commands c2)"
    unfolding owned_def by blast
  with w have "\<not> pc_event s" by (simp add: waiting_def)
  with inv s have "pc_error s = None" unfolding table_inv_def by blast
  moreover have "map_of (entries (cl_commands c2)) (rpc_command_id response, rpc_sequence response) = Some ticket"
    using own_slotD(1) [OF own \<open>\<not> pc_event s\<close>] control_begin_cases(1) [OF assms(2)] r by simp
  ultimately show "fst (control_end key ticket (snd (snd (frames_packets cs audio [RPC response] fs c2)))) = Inr response"
    using r s by (simp add: resolve_pending_def control_end_def Let_def)
qed

text \<open>A command whose answer is the next packet that the frame loop takes up.\<close>

definition demo_response :: rpc_packet where
  "demo_response =
     \<lparr>rpc_header = \<lparr>fh_message_type = 4, fh_flag = 8, fh_length = 5, fh_is_udp = False, fh_size = 2\<rparr>,
      rpc_sequence = 5, rpc_command_id = 2636, rpc_encryption_type = 3, rpc_rpc_type = 1,
      rpc_response_code = Some 0, rpc_payload = []\<rparr>"

definition demo_frames :: frames_state where
  "demo_frames =
     \<lparr>fs_reassembler = empty_reassembler [] 0, fs_activity_deadline = 1000, fs_frame_deadline = 1000,
      fs_next_heartbeat = 500, fs_latest = None, fs_budget = None\<rparr>"

definition demo_waiting :: client where
  "demo_waiting = demo_client\<lparr>cl_pending := [RPC demo_response]\<rparr>"

lemma demo_waiting_simps:
  "table_inv (cl_commands demo_waiting)" "cl_next_sequence demo_waiting = 5"
  "cl_now demo_waiting = 0" "cl_commands demo_waiting = empty_table"
  "cl_pending demo_waiting = [RPC demo_response]" "cl_open demo_waiting" "cl_sends demo_waiting = []"
  by (simp_all add: demo_waiting_def demo_client_def camera_client_def)

lemma demo_begin:
  obtains c1 where "control_begin demo_suite 2636 [] demo_waiting = (Inr ((2636, 5), 0), c1)"
    and "cl_pending c1 = [RPC demo_response]" and "cl_now c1 = 0" and "cl_open c1"
    and "cl_commands c1 = snd (register_pending (2636, 5) empty_table)"
proof -
  obtain data where "pack_rpc demo_suite 5 2636 [] pfx RPC_REQUEST 0 = Inr data" for pfx
    by (simp add: pack_rpc_def Let_def RPC_REQUEST_def RPC_RESPONSE_def)
  then show thesis
    by (intro that [of "snd (control_begin demo_suite 2636 [] demo_waiting)"])
      (simp_all add: control_begin_def allocate_sequence_def demo_waiting_simps register_pending_def
        send_request_def send_data_def empty_table_def Let_def)
qed

lemma demo_iterate:
  assumes "cl_pending c1 = [RPC demo_response]" and "cl_now c1 = 0" and "cl_open c1"
    and "cl_commands c1 = snd (register_pending (2636, 5) empty_table)"
  shows "\<exists>out x c2. frames_iteration demo_suite True demo_frames c1 = (out, x, c2) \<and>
    control_end (2636, 5) 0 c2 = (Inr demo_response, snd (control_end (2636, 5) 0 c2))"
  using assms
  by (simp add: frames_iteration_def heartbeat_def demo_frames_def next_packets_def seq_state_def
      lift_result_def demo_response_def RPC_RESPONSE_def resolve_pending_def register_pending_def
      empty_table_def control_end_def Let_def prod_eq_iff)

lemma control_answer_is_own_witness:
  "\<exists>c1 c2 response c3. control_begin demo_suite 2636 [] demo_waiting = (Inr ((2636, 5), 0), c1) \<and>
     (reader_step demo_suite)\<^sup>*\<^sup>* c1 c2 \<and> control_end (2636, 5) 0 c2 = (Inr response, c3) \<and>
     rpc_command_id response = 2636 \<and> rpc_sequence response = 5"
proof -
  obtain c1 where begun: "control_begin demo_suite 2636 [] demo_waiting = (Inr ((2636, 5), 0), c1)"
    and c1: "cl_pending c1 = [RPC demo_response]" "cl_now c1 = 0" "cl_open c1"
      "cl_commands c1 = snd (register_pending (2636, 5) empty_table)"
    by (rule demo_begin)
  obtain out x c2 where it: "frames_iteration demo_suite True demo_frames c1 = (out, x, c2)"
    and ended: "control_end (2636, 5) 0 c2 = (Inr demo_response, snd (control_end (2636, 5) 0 c2))"
    using demo_iterate [OF c1] by blast
  have steps: "(reader_step demo_suite)\<^sup>*\<^sup>* c1 c2"
    by (rule r_into_rtranclp, rule Iterate [OF it])
  from control_answer_is_own [OF demo_waiting_simps(1) begun steps ended] begun steps ended
  show ?thesis by (auto simp: demo_waiting_simps)
qed

lemma control_never_forgotten_witness:
  "\<exists>c1. control_begin demo_suite 2636 [] demo_waiting = (Inr ((2636, 5), 0), c1) \<and>
     \<not> waiting (cl_commands (close_client c1)) 0"
proof -
  obtain c1 where begun: "control_begin demo_suite 2636 [] demo_waiting = (Inr ((2636, 5), 0), c1)"
    by (rule demo_begin)
  from control_never_forgotten [OF demo_waiting_simps(1) begun rtranclp.rtrancl_refl,
      of demo_response True demo_frames] begun
  show ?thesis by blast
qed

end
