(* ===== verification/Session.thy ===== *)
theory Session
  imports Client_Control Commands_Correct
begin

text \<open>
  \<open>CameraSession\<close> of \<open>ino_a9_bridge/src/wificam_bridge/session.py\<close>: one reader thread that connects,
  streams and reconnects, and the control operations that share its connection.

  The reader thread is cut into its cycles. How the stop event is set by another thread is an
  argument of a cycle: the frame at which the reader sees it, if any. A control operation takes what
  the other threads do to the client while it waits as the function \<open>others\<close>.
\<close>

record session =
  ss_client :: client
  ss_start_audio :: bool
  ss_reconnect_delay :: nat
  ss_stop :: bool
  ss_connected :: bool
  ss_started :: bool
  ss_on_frame :: bool
  ss_on_audio :: bool
  ss_error :: "exn option"

definition camera_session :: "client \<Rightarrow> bool \<Rightarrow> int \<Rightarrow> session result" where
  "camera_session c audio reconnect_delay =
     (if reconnect_delay < 0 then Inl (ValueError ''reconnect_delay must not be negative'')
      else Inr
        \<lparr>ss_client = c, ss_start_audio = audio, ss_reconnect_delay = nat reconnect_delay,
         ss_stop = False, ss_connected = False, ss_started = False,
         ss_on_frame = False, ss_on_audio = False, ss_error = None\<rparr>)"

text \<open>\<open>open_session\<close> of \<open>CameraClient\<close>, and the properties \<open>connected\<close> and \<open>error\<close>.\<close>

definition open_session :: "client \<Rightarrow> bool \<Rightarrow> session result" where
  "open_session c audio = camera_session c audio 1000"

definition session_connected :: "session \<Rightarrow> bool" where
  [simp]: "session_connected s = ss_connected s"

definition session_error :: "session \<Rightarrow> exn option" where
  [simp]: "session_error s = ss_error s"

text \<open>\<open>start\<close>; whether callbacks are given is what the model needs of them.\<close>

definition session_start :: "bool \<Rightarrow> bool \<Rightarrow> (unit, session) op" where
  "session_start on_frame on_audio s =
     (if ss_started s then (Inl (CameraError ''camera session has already started''), s)
      else (Inr (), s\<lparr>ss_started := True, ss_on_frame := on_frame, ss_on_audio := on_audio\<rparr>))"

definition session_close :: "session \<Rightarrow> session" where
  "session_close s =
     s\<lparr>ss_stop := True, ss_client := close_client (ss_client s), ss_connected := False\<rparr>"

section \<open>The reader thread\<close>

text \<open>The \<open>try\<close> block up to the point where controls become available.\<close>

definition reader_connect :: "cipher_suite \<Rightarrow> (unit, session) op" where
  "reader_connect cs s =
     (case connect cs (ss_client s) of
        (Inl e, c) \<Rightarrow> (Inl e, s\<lparr>ss_client := c\<rparr>)
      | (Inr _, c) \<Rightarrow>
          (case (if ss_start_audio s then start_audio cs c else (Inr (), c)) of
             (Inl e, c) \<Rightarrow> (Inl e, s\<lparr>ss_client := c\<rparr>)
           | (Inr _, c) \<Rightarrow> (Inr (), s\<lparr>ss_client := c, ss_connected := True\<rparr>)))"

text \<open>The \<open>except\<close> and \<open>finally\<close> clauses: the exception, if any, is kept.\<close>

definition reader_end :: "exn option \<Rightarrow> session \<Rightarrow> session" where
  "reader_end error s =
     s\<lparr>ss_error := (case error of None \<Rightarrow> ss_error s | Some e \<Rightarrow> Some e),
       ss_connected := False, ss_client := close_client (ss_client s)\<rparr>"

text \<open>
  One turn of \<open>while not self._stop.is_set()\<close>: what the callbacks are given, whether the loop over the
  frames was left because of the stop event, and the state.
\<close>

definition heard_by :: "session \<Rightarrow> media list \<Rightarrow> media list" where
  "heard_by s out = filter (\<lambda>m. case m of Video _ \<Rightarrow> ss_on_frame s | Audio _ \<Rightarrow> ss_on_audio s) out"

definition reader_stream :: "cipher_suite \<Rightarrow> nat option \<Rightarrow> session \<Rightarrow> media list \<times> bool \<times> session" where
  "reader_stream cs stop_at s =
     (case frames cs (ss_on_audio s) stop_at (ss_client s) of
        (out, r, c) \<Rightarrow>
          (heard_by s out, r = Inl GeneratorExit,
           reader_end (case r of Inl e \<Rightarrow> if e = GeneratorExit then None else Some e | Inr _ \<Rightarrow> None)
             (s\<lparr>ss_client := c\<rparr>)))"

definition reader_cycle :: "cipher_suite \<Rightarrow> nat option \<Rightarrow> session \<Rightarrow> media list \<times> bool \<times> session" where
  "reader_cycle cs stop_at s =
     (case reader_connect cs s of
        (Inl e, s) \<Rightarrow> ([], False, reader_end (Some e) s)
      | (Inr _, s) \<Rightarrow> reader_stream cs stop_at s)"

text \<open>
  \<open>_reader_main\<close>, one turn for each element of the plan; the plan ends, or a frame is met at which
  the reader sees the stop event.
\<close>

fun reader_main :: "cipher_suite \<Rightarrow> nat option list \<Rightarrow> session \<Rightarrow> media list \<times> session" where
  "reader_main cs [] s = ([], s)"
| "reader_main cs (stop_at # plan) s =
     (if ss_stop s then ([], s)
      else
        (case reader_cycle cs stop_at s of
           (out, True, s) \<Rightarrow> (out, s\<lparr>ss_stop := True\<rparr>)
         | (out, False, s) \<Rightarrow>
             let c = ss_client s in
             (case reader_main cs plan
                (s\<lparr>ss_client := c\<lparr>cl_now := cl_now c + ss_reconnect_delay s\<rparr>\<rparr>) of
                (out', s) \<Rightarrow> (out @ out', s))))"

section \<open>Controls\<close>

definition require_connected :: "session \<Rightarrow> unit result" where
  "require_connected s =
     (if \<not> ss_started s \<or> \<not> ss_connected s
      then Inl (CameraUnavailable ''camera session is reconnecting'') else Inr ())"

definition session_send :: "cipher_suite \<Rightarrow> (nat \<Rightarrow> client \<Rightarrow> client) \<Rightarrow> int \<Rightarrow> bytes \<Rightarrow> (rpc_packet, session) op" where
  "session_send cs others command payload s =
     seq_state (lift_result (require_connected s)) (\<lambda>_.
     seq_state (lift_result (require_connected s)) (\<lambda>_ s.
       (case send_control cs others (JInt command) (Some payload) None (ss_client s) of
          (r, c) \<Rightarrow> (r, s\<lparr>ss_client := c\<rparr>)))) s"

definition session_reboot :: "cipher_suite \<Rightarrow> (unit, session) op" where
  "session_reboot cs s =
     seq_state (lift_result (require_connected s)) (\<lambda>_ s.
       (case send_command cs (JInt REBOOT_COMMAND) (Some []) (ss_client s) of
          (r, c) \<Rightarrow> (r, s\<lparr>ss_client := c\<rparr>))) s"

text \<open>The arguments are evaluated before the call, so a bad value raises first.\<close>

definition session_set :: "cipher_suite \<Rightarrow> (nat \<Rightarrow> client \<Rightarrow> client) \<Rightarrow> int \<Rightarrow> bytes result \<Rightarrow> (unit, session) op" where
  "session_set cs others command payload =
     seq_state (lift_result payload) (\<lambda>data.
     seq_state (session_send cs others command data) (\<lambda>_. lift_result (Inr ())))"

definition set_status_led where
  "set_status_led cs others enabled = session_set cs others STATUS_LED_COMMAND (build_led_payload enabled)"

definition set_night_vision where
  "set_night_vision cs others v = session_set cs others NIGHT_SET_COMMAND (build_night_payload v)"

definition set_flip where
  "set_flip cs others v = session_set cs others FLIP_SET_COMMAND (build_flip_payload v)"

definition set_video_quality where
  "set_video_quality cs others v =
     session_set cs others VIDEO_QUALITY_COMMAND (build_video_quality_payload v)"

definition set_motion where
  "set_motion cs others v = session_set cs others MOTION_COMMAND (build_motion_payload v)"

definition set_intrusion where
  "set_intrusion cs others enabled sched =
     session_set cs others INTRUSION_COMMAND (build_intrusion_payload enabled sched)"

text \<open>The second half of \<open>_get\<close>: the name of the value in a response.\<close>

definition name_of_value :: "enum_values \<Rightarrow> string \<Rightarrow> bytes \<Rightarrow> string result" where
  "name_of_value values label payload =
     bind (read_response_value payload) (\<lambda>wire_value.
       (case (case wire_value of None \<Rightarrow> None
              | Some n \<Rightarrow> map_of (rev (map (\<lambda>(name, wire). (wire, name)) values)) (int n)) of
          None \<Rightarrow> Inl (CameraError (concat [''unsupported '', label, '' response'']))
        | Some name \<Rightarrow> Inr name))"

definition session_get :: "cipher_suite \<Rightarrow> (nat \<Rightarrow> client \<Rightarrow> client) \<Rightarrow> int \<Rightarrow> enum_values \<Rightarrow> string \<Rightarrow> (string, session) op" where
  "session_get cs others command values label =
     seq_state (session_send cs others command []) (\<lambda>response s.
     seq_state (lift_result (decrypt_rpc_payload cs response
         (bootstrap_prefix (cl_credentials (ss_client s))))) (\<lambda>payload.
       lift_result (name_of_value values label payload)) s)"

definition get_night_vision where
  "get_night_vision cs others = session_get cs others NIGHT_GET_COMMAND NIGHT_VALUES ''night vision''"

definition get_flip where
  "get_flip cs others = session_get cs others FLIP_GET_COMMAND FLIP_VALUES ''flip''"

section \<open>Correctness\<close>

lemma reverse_lookup:
  assumes "distinct (map snd values)"
  shows "map_of (rev (map (\<lambda>(name, wire). (wire, name)) values)) w = Some name \<longleftrightarrow> (name, w) \<in> set values"
proof -
  have "distinct (map fst (rev (map (\<lambda>(name, wire). (wire, name)) values)))"
    using assms by (simp add: rev_map [symmetric] comp_def case_prod_unfold)
  then show ?thesis by (subst map_of_eq_Some_iff) force+
qed

text \<open>
  C35. Reading a setting back inverts writing it. For the two settings the camera reports, a response
  is read as a name exactly when its first field 1 carries the number that the set command for this
  name sends, whatever fields come with it; every other response is refused.
\<close>

theorem setting_read_back:
  assumes "values = NIGHT_VALUES \<or> values = FLIP_VALUES" and "\<forall>f \<in> set fs. field_wf f"
  shows "(name_of_value values label (encode_message fs) = Inr name \<longleftrightarrow>
      (\<exists>wire. first_value fs = Some wire \<and>
        enum_payload (JStr name) values label = Inr (value_message (int wire)))) \<and>
    (ok (name_of_value values label (encode_message fs)) \<or>
      name_of_value values label (encode_message fs) =
        Inl (CameraError (concat [''unsupported '', label, '' response''])))"
proof -
  have eok: "enum_ok values" using assms(1) by auto
  then have dist: "distinct (map snd values)" "distinct (map fst values)" by (simp_all add: enum_ok_def)
  have read: "read_response_value (encode_message fs) = Inr (first_value fs)"
    using read_response_loop_message [of 0 "encode_message fs" fs] assms(2)
    by (simp add: read_response_value_def)
  have entry: "(name, int w) \<in> set values \<longleftrightarrow>
      enum_payload (JStr name) values label = Inr (value_message (int w))" for w name
  proof
    assume "(name, int w) \<in> set values"
    with dist(2) show "enum_payload (JStr name) values label = Inr (value_message (int w))"
      by (simp add: enum_payload_Inr_iff [OF eok])
  next
    assume "enum_payload (JStr name) values label = Inr (value_message (int w))"
    then obtain v where v: "map_of values name = Some v" and eq: "value_message (int w) = value_message v"
      by (auto simp: enum_payload_Inr_iff [OF eok])
    have "0 \<le> v \<and> v < 128"
      using enum_lookup_range [OF eok, of "JStr name" v] v by simp
    moreover have "encode_message [VarintF 2 w] = encode_message [VarintF 2 (nat v)]"
      using eq by (simp add: value_message_def)
    ultimately have "w = nat v"
      using varint_inj [of w "[]" "nat v" "[]"]
      by (simp add: encode_message_def encode_field_def varint_inj)
    with v \<open>0 \<le> v \<and> v < 128\<close> show "(name, int w) \<in> set values"
      by (auto dest: map_of_SomeD)
  qed
  show ?thesis
  proof (cases "first_value fs")
    case None
    then show ?thesis by (simp add: name_of_value_def read)
  next
    case (Some wire)
    then show ?thesis
      by (cases "map_of (rev (map (\<lambda>(name, wire). (wire, name)) values)) (int wire)")
        (auto simp: name_of_value_def read entry [symmetric] reverse_lookup [OF dist(1), symmetric])
  qed
qed

lemma setting_read_back_witness:
  "name_of_value NIGHT_VALUES ''night vision'' (encode_message [BytesF 3 [1], VarintF 1 3]) = Inr ''automatic''"
  using setting_read_back [of NIGHT_VALUES "[BytesF 3 [1], VarintF 1 3]" "''night vision''" "''automatic''"]
  by (simp add: enum_payload_def NIGHT_VALUES_def value_payload_message)

text \<open>
  Without a live connection no control does anything: each of the set operations, the two reads
  and the reboot leaves the session and its client exactly as they were, sends nothing, and raises
  (\<open>CameraUnavailable\<close>, or the \<open>ValueError\<close> of a bad argument, which is checked first).
\<close>

theorem controls_need_connection:
  assumes "\<not> (ss_started s \<and> ss_connected s)"
  shows "list_all (\<lambda>(operation, data). snd (operation s) = s \<and>
      fst (operation s) = (case data of Inl e \<Rightarrow> Inl e
         | Inr _ \<Rightarrow> Inl (CameraUnavailable ''camera session is reconnecting'')))
    [(set_status_led cs others v, build_led_payload v), (set_night_vision cs others v, build_night_payload v),
     (set_flip cs others v, build_flip_payload v), (set_video_quality cs others v, build_video_quality_payload v),
     (set_motion cs others v, build_motion_payload v),
     (set_intrusion cs others v sched, build_intrusion_payload v sched), (session_reboot cs, Inr [])] \<and>
    get_night_vision cs others s = (Inl (CameraUnavailable ''camera session is reconnecting''), s) \<and>
    get_flip cs others s = (Inl (CameraUnavailable ''camera session is reconnecting''), s)"
proof -
  have req: "require_connected s = Inl (CameraUnavailable ''camera session is reconnecting'')"
    using assms by (simp add: require_connected_def)
  then have send: "session_send cs others command data s =
      (Inl (CameraUnavailable ''camera session is reconnecting''), s)" for command data
    by (simp add: session_send_def)
  have set: "session_set cs others command payload s =
      ((case payload of Inl e \<Rightarrow> Inl e
        | Inr _ \<Rightarrow> Inl (CameraUnavailable ''camera session is reconnecting'')), s)" for command payload
    by (cases payload) (simp_all add: session_set_def seq_state_def send)
  show ?thesis
    by (simp add: set_status_led_def set_night_vision_def set_flip_def set_video_quality_def set_motion_def
        set_intrusion_def session_reboot_def set req get_night_vision_def get_flip_def session_get_def
        seq_state_def [of "session_send _ _ _ _"] send)
qed

definition demo_session :: session where
  "demo_session = projr (camera_session demo_client True 1000)"

lemma controls_need_connection_witness:
  "set_flip demo_suite (\<lambda>t c. c) (JStr ''upright'') demo_session =
     (Inl (CameraUnavailable ''camera session is reconnecting''), demo_session)"
proof -
  have "ok (build_flip_payload (JStr ''upright''))"
    by (simp add: build_flip_payload_def enum_payload_def FLIP_VALUES_def value_payload_message)
  then show ?thesis
    using controls_need_connection [of demo_session demo_suite "\<lambda>t c. c" "JStr ''upright''" None]
    by (auto simp: demo_session_def camera_session_def ok_iff prod_eq_iff)
qed

section \<open>The reader's cycles\<close>

text \<open>A connection on which audio was started is still usable.\<close>

lemma reader_connect_connected:
  assumes "reader_connect cs s = (Inr u, s')"
  shows "ss_connected s'" and "connected (ss_client s')"
proof -
  obtain c1 where c1: "connect cs (ss_client s) = (Inr (), c1)"
    using assms by (auto simp: reader_connect_def split: prod.splits sum.splits)
  have conn: "connected c1"
    using connect_outcome [of "ss_client s" cs] c1 by simp
  show "ss_connected s'"
    using assms by (auto simp: reader_connect_def split: prod.splits sum.splits if_splits)
  show "connected (ss_client s')"
  proof (cases "ss_start_audio s")
    case False
    with assms c1 conn show ?thesis by (auto simp: reader_connect_def)
  next
    case True
    obtain r c2 where a: "start_audio cs c1 = (r, c2)" by fastforce
    have "talks_on c1 c2" by (rule keeps_start_audio [OF a])
    then have "connected c2"
      using conn by (auto simp: talks_on_def connected_def only_talksD)
    with assms c1 a True show ?thesis by (auto simp: reader_connect_def split: sum.splits)
  qed
qed

text \<open>
  One turn of the reader thread never raises and never leaves anything half open: at its end the
  session is not connected, its client is closed with no registered command, an exception of the
  connection or of the stream is kept in \<open>error\<close>, and a stop event leaves the previous error alone.
  Controls are available only between a successful handshake, with audio started when asked for, and
  the end of the stream.
\<close>

theorem reader_cycle_restores:
  assumes "reader_cycle cs stop_at s = (out, stopped, s')"
  shows "\<not> ss_connected s' \<and> disconnected (ss_client s') \<and> ss_started s' = ss_started s \<and>
    (stopped \<longrightarrow> ss_error s' = ss_error s) \<and>
    (case reader_connect cs s of
       (Inl e, _) \<Rightarrow> out = [] \<and> \<not> stopped \<and> ss_error s' = Some e
     | (Inr _, s1) \<Rightarrow> ss_connected s1 \<and> connected (ss_client s1) \<and>
         (\<not> stopped \<longrightarrow> 0 < cl_frame_timeout (ss_client s1) \<longrightarrow> (\<exists>e. ss_error s' = Some e)))"
proof -
  obtain r s1 where rc: "reader_connect cs s = (r, s1)" by fastforce
  have kept: "ss_started s1 = ss_started s" "ss_error s1 = ss_error s"
    using rc by (auto simp: reader_connect_def split: prod.splits sum.splits if_splits)
  show ?thesis
  proof (cases r)
    case (Inl e)
    with assms rc kept show ?thesis
      by (auto simp: reader_cycle_def reader_end_def disconnected_close)
  next
    case (Inr u)
    note live = reader_connect_connected [OF rc [unfolded Inr]]
    obtain out1 r1 c1 where fr: "frames cs (ss_on_audio s1) stop_at (ss_client s1) = (out1, r1, c1)"
      by (cases "frames cs (ss_on_audio s1) stop_at (ss_client s1)") auto
    have "\<exists>e. r1 = Inl e" if "0 < cl_frame_timeout (ss_client s1)"
      by (rule frames_outcome(1) [OF live(2) that fr])
    with assms rc Inr fr kept live show ?thesis
      by (auto simp: reader_cycle_def reader_stream_def reader_end_def disconnected_close split: sum.splits)
  qed
qed

lemma reader_cycle_restores_witness:
  "\<not> ss_connected (snd (snd (reader_cycle demo_suite None demo_session)))"
  using reader_cycle_restores [of demo_suite None demo_session] by (metis prod.collapse)

end
