(* ===== verification/Camera_State.thy ===== *)
theory Camera_State
  imports Prelude
begin

text \<open>
  \<open>CameraState\<close> of \<open>ino_a9_bridge/src/wificam_bridge/bridge.py\<close>: the latest frame, a bounded queue of
  audio chunks, and the threads that wait for either.

  Every method holds the condition's lock, so the state only changes by whole methods; those that
  change it are the constructors of \<open>media_event\<close>. While a thread waits, the others run: a waiting
  method takes the script of what happens and when, as delays in milliseconds since the event before.
  \<open>time.time()\<close> is an argument, in milliseconds; \<open>time.monotonic()\<close> is the \<open>now\<close> of the waiting
  methods.
\<close>

record camera_state =
  st_frame :: "bytes option"
  st_frame_id :: nat
  st_audio_chunks :: "(nat \<times> bytes) list"
  st_audio_id :: nat
  st_connected :: bool
  st_last_frame_at :: "int option"
  st_last_audio_at :: "int option"
  st_error :: "string option"

definition new_camera_state :: camera_state where
  "new_camera_state =
     \<lparr>st_frame = None, st_frame_id = 0, st_audio_chunks = [], st_audio_id = 0,
      st_connected = False, st_last_frame_at = None, st_last_audio_at = None, st_error = None\<rparr>"

text \<open>\<open>deque(maxlen=n).append\<close>.\<close>

definition AUDIO_CHUNKS :: nat where
  "AUDIO_CHUNKS = 128"

definition deque_append :: "nat \<Rightarrow> 'a list \<Rightarrow> 'a \<Rightarrow> 'a list" where
  "deque_append n xs x = (let ys = xs @ [x] in drop (length ys - n) ys)"

definition set_connected :: "bool \<Rightarrow> string option \<Rightarrow> camera_state \<Rightarrow> camera_state" where
  "set_connected live error st = st\<lparr>st_connected := live, st_error := error\<rparr>"

definition publish :: "int \<Rightarrow> bytes \<Rightarrow> camera_state \<Rightarrow> camera_state" where
  "publish now frame st =
     st\<lparr>st_frame := Some frame, st_frame_id := st_frame_id st + 1, st_connected := True,
        st_error := None, st_last_frame_at := Some now\<rparr>"

definition publish_audio :: "int \<Rightarrow> bytes \<Rightarrow> camera_state \<Rightarrow> camera_state" where
  "publish_audio now chunk st =
     (let audio_id = st_audio_id st + 1 in
      st\<lparr>st_audio_id := audio_id,
         st_audio_chunks := deque_append AUDIO_CHUNKS (st_audio_chunks st) (audio_id, chunk),
         st_last_audio_at := Some now\<rparr>)"

datatype media_event =
    Connection bool "string option"
  | Frame int bytes
  | Chunk int bytes

fun apply_event :: "media_event \<Rightarrow> camera_state \<Rightarrow> camera_state" where
  "apply_event (Connection live error) = set_connected live error"
| "apply_event (Frame now frame) = publish now frame"
| "apply_event (Chunk now chunk) = publish_audio now chunk"

section \<open>Waiting\<close>

text \<open>
  \<open>Condition.wait(remaining)\<close>: the next event, if it comes in time, or the deadline. The result is
  what was waited for, the time, what is left of the script, and the state.
\<close>

type_synonym wakes = "(nat \<times> media_event) list"

fun wait_until :: "(camera_state \<Rightarrow> 'a option) \<Rightarrow> nat \<Rightarrow> nat \<Rightarrow> wakes \<Rightarrow> camera_state
    \<Rightarrow> 'a option \<times> nat \<times> wakes \<times> camera_state" where
  "wait_until ready deadline now wakes st =
     (case ready st of
        Some x \<Rightarrow> (Some x, now, wakes, st)
      | None \<Rightarrow>
          if deadline \<le> now then (None, now, wakes, st)
          else
            (case wakes of
               [] \<Rightarrow> (None, deadline, [], st)
             | (delay, event) # later \<Rightarrow>
                 if deadline - now < delay
                 then (None, deadline, (delay - (deadline - now), event) # later, st)
                 else wait_until ready deadline (now + delay) later (apply_event event st)))"

declare wait_until.simps [simp del]

definition frame_ready :: "int \<Rightarrow> camera_state \<Rightarrow> (nat \<times> bytes) option" where
  "frame_ready after st =
     (case st_frame st of
        None \<Rightarrow> None
      | Some frame \<Rightarrow> if int (st_frame_id st) = after then None else Some (st_frame_id st, frame))"

definition wait_for_frame :: "int \<Rightarrow> nat \<Rightarrow> nat \<Rightarrow> wakes \<Rightarrow> camera_state
    \<Rightarrow> (nat \<times> bytes) option \<times> nat \<times> wakes \<times> camera_state" where
  "wait_for_frame after timeout now = wait_until (frame_ready after) (now + timeout) now"

definition audio_cursor :: "camera_state \<Rightarrow> nat" where
  "audio_cursor st = st_audio_id st"

definition audio_ready :: "nat \<Rightarrow> camera_state \<Rightarrow> (nat \<times> bytes) list option" where
  "audio_ready after st =
     (if st_audio_id st \<le> after then None
      else Some (filter (\<lambda>(item_id, chunk). after < item_id) (st_audio_chunks st)))"

definition wait_for_audio :: "nat \<Rightarrow> nat \<Rightarrow> nat \<Rightarrow> wakes \<Rightarrow> camera_state
    \<Rightarrow> (nat \<times> bytes) list option \<times> nat \<times> wakes \<times> camera_state" where
  "wait_for_audio after timeout now = wait_until (audio_ready after) (now + timeout) now"

section \<open>The status\<close>

definition RECENT_ACTIVITY_GRACE :: int where
  "RECENT_ACTIVITY_GRACE = 15000"

definition timestamp :: "int option \<Rightarrow> json" where
  "timestamp t = (case t of None \<Rightarrow> JNull | Some ms \<Rightarrow> JFloat (of_int ms / 1000))"

definition last_activity :: "camera_state \<Rightarrow> int option" where
  "last_activity st =
     (case (st_last_frame_at st, st_last_audio_at st) of
        (None, a) \<Rightarrow> a
      | (Some f, None) \<Rightarrow> Some f
      | (Some f, Some a) \<Rightarrow> Some (max f a))"

definition state_status :: "int \<Rightarrow> camera_state \<Rightarrow> dict" where
  "state_status now st =
     (let recently_active =
        (case last_activity st of None \<Rightarrow> False | Some t \<Rightarrow> now - t \<le> RECENT_ACTIVITY_GRACE) in
      [(''connected'', JBool (st_connected st \<or> recently_active)),
       (''has_frame'', JBool (st_frame st \<noteq> None)),
       (''has_audio'', JBool (st_audio_chunks st \<noteq> [])),
       (''last_frame_at'', timestamp (st_last_frame_at st)),
       (''last_audio_at'', timestamp (st_last_audio_at st)),
       (''error'', (case st_error st of None \<Rightarrow> JNull | Some e \<Rightarrow> JStr e))])"

section \<open>The audio queue implements the recent history\<close>

text \<open>
  The history of a state: every chunk published since it was made. The queue holds the last
  \<open>AUDIO_CHUNKS\<close> of it, numbered from 1 on.
\<close>

definition numbered :: "bytes list \<Rightarrow> (nat \<times> bytes) list" where
  "numbered h = enumerate 1 h"

definition audio_inv :: "bytes list \<Rightarrow> camera_state \<Rightarrow> bool" where
  "audio_inv h st \<longleftrightarrow> st_audio_id st = length h \<and>
     st_audio_chunks st = drop (length h - AUDIO_CHUNKS) (numbered h)"

definition heard :: "media_event list \<Rightarrow> bytes list" where
  "heard es = concat (map (\<lambda>e. case e of Chunk now c \<Rightarrow> [c] | _ \<Rightarrow> []) es)"

lemma length_numbered [simp]: "length (numbered h) = length h"
  by (simp add: numbered_def)

lemma numbered_snoc: "numbered (h @ [c]) = numbered h @ [(Suc (length h), c)]"
  by (simp add: numbered_def enumerate_append_eq)

lemma nth_numbered: "i < length h \<Longrightarrow> numbered h ! i = (Suc i, h ! i)"
  by (simp add: numbered_def nth_enumerate_eq)

lemma heard_simps [simp]:
  "heard [] = []" "heard (Connection b e # es) = heard es" "heard (Frame now f # es) = heard es"
  "heard (Chunk now c # es) = c # heard es" "heard (es @ es') = heard es @ heard es'"
  by (simp_all add: heard_def)

lemma audio_inv_new: "audio_inv [] new_camera_state"
  by (simp add: audio_inv_def new_camera_state_def numbered_def)

lemma audio_inv_publish: "audio_inv h st \<Longrightarrow> audio_inv (h @ [c]) (publish_audio now c st)"
  by (cases "length h < AUDIO_CHUNKS")
    (auto simp: audio_inv_def publish_audio_def deque_append_def Let_def numbered_snoc AUDIO_CHUNKS_def
      intro!: arg_cong [of _ _ "\<lambda>n. drop n (numbered h)"])

lemma audio_inv_event: "audio_inv h st \<Longrightarrow> audio_inv (h @ heard [e]) (apply_event e st)"
  by (cases e) (simp_all add: audio_inv_publish, simp_all add: audio_inv_def set_connected_def publish_def)

lemma audio_inv_events: "audio_inv h st \<Longrightarrow> audio_inv (h @ heard es) (fold apply_event es st)"
proof (induction es arbitrary: h st)
  case (Cons e es)
  from Cons.IH [OF audio_inv_event [OF Cons.prems, of e]] show ?case
    by (cases e) simp_all
qed simp

lemma filter_numbered: "filter (\<lambda>(i, c). k < i) (numbered h) = drop k (numbered h)"
proof (induction h rule: rev_induct)
  case (snoc c h)
  then show ?case by (cases "k \<le> length h") (auto simp: numbered_snoc)
qed (simp add: numbered_def)

lemma filter_recent:
  "filter (\<lambda>(i, c). k < i) (drop n (numbered h)) = drop (max k n) (numbered h)"
proof -
  have "drop (max k n) (numbered h) = filter (\<lambda>(i, c). max k n < i) (numbered h)"
    by (rule filter_numbered [symmetric])
  also have "\<dots> = filter (\<lambda>(i, c). k < i) (filter (\<lambda>(i, c). n < i) (numbered h))"
    by (auto simp: case_prod_unfold intro!: filter_cong)
  also have "\<dots> = filter (\<lambda>(i, c). k < i) (drop n (numbered h))"
    by (simp only: filter_numbered)
  finally show ?thesis ..
qed

lemma audio_ready_history:
  assumes "audio_inv h st"
  shows "audio_ready after st =
    (if length h \<le> after then None else Some (drop (max after (length h - AUDIO_CHUNKS)) (numbered h)))"
  using assms by (simp add: audio_ready_def audio_inv_def filter_recent)

text \<open>
  C31. The audio queue implements the recent history of the microphone. After any events, a reader with
  cursor \<open>after\<close> gets at once, in their order and with their numbers, exactly the chunks published
  after it that are among the last 128; the numbers it gets are those of the history, so it can
  see a gap; and it is made to wait only when nothing was published after its cursor.
\<close>

theorem audio_queue_is_recent_history:
  "audio_ready after (fold apply_event es new_camera_state) =
      (if length (heard es) \<le> after then None
       else Some (map (\<lambda>i. (Suc i, heard es ! i)) [max after (length (heard es) - 128)..<length (heard es)])) \<and>
    audio_cursor (fold apply_event es new_camera_state) = length (heard es)"
proof -
  let ?h = "heard es"
  have inv: "audio_inv ?h (fold apply_event es new_camera_state)"
    using audio_inv_events [OF audio_inv_new, of es] by simp
  have "drop n (numbered ?h) = map (\<lambda>i. (Suc i, ?h ! i)) [n..<length ?h]" for n
    by (rule nth_equalityI) (simp_all add: nth_numbered)
  with audio_ready_history [OF inv] inv show ?thesis
    by (simp add: audio_inv_def audio_cursor_def AUDIO_CHUNKS_def)
qed

section \<open>Waiting ends\<close>

lemma wait_until_result:
  assumes "wait_until ready deadline now wakes st = (x, now', wakes', st')" and "now \<le> deadline"
  shows "now \<le> now' \<and> now' \<le> deadline \<and> (x = None \<longrightarrow> now' = deadline \<and> ready st' = None) \<and>
    (\<forall>y. x = Some y \<longrightarrow> ready st' = Some y) \<and>
    (\<exists>es. st' = fold apply_event es st \<and> prefix es (map snd wakes))"
  using assms
proof (induction wakes arbitrary: now st)
  case Nil
  then show ?case
    by (auto simp: wait_until.simps [of _ _ _ "[]"] split: option.splits if_splits intro: exI [of _ "[]"])
next
  case (Cons w wakes)
  obtain delay event where w: "w = (delay, event)" by fastforce
  show ?case
  proof (cases "ready st = None \<and> now < deadline \<and> delay \<le> deadline - now")
    case True
    with Cons.prems w have "wait_until ready deadline (now + delay) wakes (apply_event event st) = (x, now', wakes', st')"
      by (simp add: wait_until.simps [of _ _ _ "_ # _"])
    moreover from True have "now + delay \<le> deadline" by (elim conjE) linarith
    ultimately obtain es where
      "now + delay \<le> now'" "now' \<le> deadline" "x = None \<longrightarrow> now' = deadline \<and> ready st' = None"
      "\<forall>y. x = Some y \<longrightarrow> ready st' = Some y" "st' = fold apply_event es (apply_event event st)" "prefix es (map snd wakes)"
      using Cons.IH by blast
    then show ?thesis by (auto simp: w intro!: exI [of _ "event # es"])
  next
    case False
    with Cons.prems w show ?thesis
      by (auto simp: wait_until.simps [of _ _ _ "_ # _"] split: option.splits if_splits intro!: exI [of _ "[]"])
  qed
qed

lemma wait_for_frame_result:
  assumes "wait_for_frame after timeout now wakes st = (x, now', wakes', st')"
  shows "now \<le> now' \<and> now' \<le> now + timeout \<and>
      (case x of
         None \<Rightarrow> now' = now + timeout \<and> (st_frame st' = None \<or> int (st_frame_id st') = after)
       | Some (frame_id, frame) \<Rightarrow>
           st_frame st' = Some frame \<and> frame_id = st_frame_id st' \<and> int frame_id \<noteq> after)"
  using wait_until_result [OF assms [unfolded wait_for_frame_def]]
  by (auto simp: frame_ready_def split: option.splits if_splits)

lemma wait_for_audio_result:
  assumes "wait_for_audio cursor timeout now wakes st = (y, now', wakes', st')"
  shows "now \<le> now' \<and> now' \<le> now + timeout \<and>
      (case y of
         None \<Rightarrow> now' = now + timeout \<and> st_audio_id st' \<le> cursor
       | Some chunks \<Rightarrow> chunks = filter (\<lambda>(item_id, chunk). cursor < item_id) (st_audio_chunks st') \<and>
           cursor < st_audio_id st')"
  using wait_until_result [OF assms [unfolded wait_for_audio_def]]
  by (auto simp: audio_ready_def split: option.splits if_splits)

text \<open>
  C30. A waiting HTTP thread is always released, by its deadline at the latest, whatever the camera
  does: \<open>wait_for_frame\<close> and \<open>wait_for_audio\<close> give up exactly at the deadline, and only when there
  still is nothing new; a frame they return is the latest one and not the one the caller already has;
  a list of chunks holds what the queue has after the cursor, and the cursor is behind the last one.
\<close>

theorem waiting_is_bounded:
  "(case wait_for_frame after timeout now wakes st of (x, now', wakes', st') \<Rightarrow>
      now \<le> now' \<and> now' \<le> now + timeout \<and>
      (case x of
         None \<Rightarrow> now' = now + timeout \<and> (st_frame st' = None \<or> int (st_frame_id st') = after)
       | Some (frame_id, frame) \<Rightarrow>
           st_frame st' = Some frame \<and> frame_id = st_frame_id st' \<and> int frame_id \<noteq> after)) \<and>
   (case wait_for_audio cursor timeout now wakes st of (y, now', wakes', st') \<Rightarrow>
      now \<le> now' \<and> now' \<le> now + timeout \<and>
      (case y of
         None \<Rightarrow> now' = now + timeout \<and> st_audio_id st' \<le> cursor
       | Some chunks \<Rightarrow> chunks = filter (\<lambda>(item_id, chunk). cursor < item_id) (st_audio_chunks st') \<and>
           cursor < st_audio_id st'))"
proof -
  obtain x a b c where "wait_for_frame after timeout now wakes st = (x, a, b, c)"
    by (metis prod.collapse)
  moreover obtain y d e f where "wait_for_audio cursor timeout now wakes st = (y, d, e, f)"
    by (metis prod.collapse)
  ultimately show ?thesis
    using wait_for_frame_result [of after timeout now wakes st]
      wait_for_audio_result [of cursor timeout now wakes st] by auto
qed

end
