(* ===== verification/Worker.thy ===== *)
theory Worker
  imports Session Camera_State Control_API_Correct
begin

text \<open>
  \<open>CameraWorker\<close> of \<open>ino_a9_bridge/src/wificam_bridge/bridge.py\<close>: the thread that owns the session of
  a camera, feeds its state, and passes the controls on; and the workers as the cameras of the
  control API.
\<close>

section \<open>The reader while a control waits\<close>

text \<open>
  What the reader thread does to the client while a control command waits for its answer: any
  sequence of its steps, as a list that can be run. It says the same as \<open>reader_step\<close>.
\<close>

datatype reader_act = Connects | Asks_Audio | Iterates bool frames_state | Ends_Stream | Closes

fun act :: "cipher_suite \<Rightarrow> reader_act \<Rightarrow> client \<Rightarrow> client" where
  "act cs Connects c = snd (connect cs c)"
| "act cs Asks_Audio c = snd (start_audio cs c)"
| "act cs (Iterates audio fs) c = snd (snd (frames_iteration cs audio fs c))"
| "act cs Ends_Stream c = c\<lparr>cl_commands := fail_pending (CameraError ''camera stream stopped'') (cl_commands c)\<rparr>"
| "act cs Closes c = close_client c"

definition meanwhile :: "cipher_suite \<Rightarrow> (nat \<Rightarrow> reader_act list) \<Rightarrow> nat \<Rightarrow> client \<Rightarrow> client" where
  "meanwhile cs plan timeout c = fold (act cs) (plan timeout) c"

lemma reader_step_act: "reader_step cs c c' \<longleftrightarrow> (\<exists>a. c' = act cs a c)"
proof
  assume "reader_step cs c c'"
  then show "\<exists>a. c' = act cs a c"
  proof cases
    case (Reconnect r)
    then have "c' = act cs Connects c" by simp
    then show ?thesis ..
  next
    case (Ask_Audio r)
    then have "c' = act cs Asks_Audio c" by simp
    then show ?thesis ..
  next
    case (Iterate audio fs out x)
    then have "c' = act cs (Iterates audio fs) c" by simp
    then show ?thesis ..
  next
    case Stream_End
    then have "c' = act cs Ends_Stream c" by simp
    then show ?thesis ..
  next
    case Close
    then have "c' = act cs Closes c" by simp
    then show ?thesis ..
  qed
next
  assume "\<exists>a. c' = act cs a c"
  then obtain a where a: "c' = act cs a c" ..
  show "reader_step cs c c'"
  proof (cases a)
    case Connects
    with a show ?thesis by (auto intro: reader_step.Reconnect prod.collapse [symmetric])
  next
    case Asks_Audio
    with a show ?thesis by (auto intro: reader_step.Ask_Audio prod.collapse [symmetric])
  next
    case (Iterates audio fs)
    with a show ?thesis
      by (cases "frames_iteration cs audio fs c") (auto intro: reader_step.Iterate)
  qed (use a in \<open>auto intro: reader_step.intros\<close>)
qed

lemma reader_steps_meanwhile: "(reader_step cs)\<^sup>*\<^sup>* c (meanwhile cs plan timeout c)"
proof -
  have "(reader_step cs)\<^sup>*\<^sup>* c (fold (act cs) as c)" for as
  proof (induction as arbitrary: c)
    case (Cons a as)
    have "reader_step cs c (act cs a c)" using reader_step_act by blast
    from converse_rtranclp_into_rtranclp [OF this Cons] show ?case by simp
  qed simp
  then show ?thesis by (simp add: meanwhile_def)
qed

section \<open>What a control of the session may raise\<close>

fun is_protocol_error :: "exn \<Rightarrow> bool" where
  "is_protocol_error (PacketError m) = True"
| "is_protocol_error (ValueError m) = True"
| "is_protocol_error _ = False"

text \<open>A client whose table is consistent and whose socket only fails the way sockets do.\<close>

definition client_ok :: "client \<Rightarrow> bool" where
  "client_ok c \<longleftrightarrow> 0 < cl_control_timeout c \<and> table_inv (cl_commands c) \<and> camera_failures (cl_commands c) \<and>
     (\<forall>e. Some e \<in> set (cl_sends c) \<longrightarrow> is_os_error e)"

definition set_raises :: "exn \<Rightarrow> bool" where
  "set_raises e \<longleftrightarrow> is_camera_error e \<or> is_os_error e"

definition control_raises :: "exn \<Rightarrow> bool" where
  "control_raises e \<longleftrightarrow> set_raises e \<or> is_protocol_error e"

lemma set_suffixD: "suffix xs ys \<Longrightarrow> x \<in> set xs \<Longrightarrow> x \<in> set ys"
  by (auto simp: suffix_def)

lemma client_ok_reader:
  assumes "client_ok c" and "(reader_step cs)\<^sup>*\<^sup>* c c'"
  shows "client_ok c'"
  using assms reader_steps_table [OF assms(2)] reader_steps_setup [OF assms(2)]
  by (auto simp: client_ok_def same_setup_def intro: table_inv_steps camera_failures_steps dest: set_suffixD)

lemma client_ok_sends: "client_ok c \<Longrightarrow> only_sends c c' \<Longrightarrow> client_ok c'"
  by (cases c; cases c') (auto simp: client_ok_def only_sends_def dest: set_suffixD)

lemma pack_request_ok: "\<exists>data. pack_rpc cs s c plaintext pfx RPC_REQUEST code = Inr data"
  by (simp add: pack_rpc_def RPC_REQUEST_def RPC_RESPONSE_def Let_def aes_cbc_encrypt_padded_def)

lemma send_data_raises:
  assumes "client_ok c" and "send_data data c = (Inl e, c')"
  shows "set_raises e"
  using assms by (auto simp: send_data_def client_ok_def set_raises_def split: list.splits option.splits if_splits)

lemma behaves_send_request: "behaves client_ok set_raises (send_request cs sequence command payload)"
proof (rule behavesI)
  fix c r c' assume c: "client_ok c" "send_request cs sequence command payload c = (r, c')"
  obtain data where "pack_rpc cs sequence command payload (bootstrap_prefix (cl_credentials c)) RPC_REQUEST 0 = Inr data"
    using pack_request_ok by blast
  with c(2) have "send_data data c = (r, c')" by (simp add: send_request_def)
  with c(1) send_data_raises keepsD [OF keeps_send_request c(2)]
  show "client_ok c' \<and> (\<forall>e. r = Inl e \<longrightarrow> set_raises e)" by (auto intro: client_ok_sends)
qed

lemma client_ok_register: "client_ok c \<Longrightarrow> client_ok (c\<lparr>cl_commands := snd (register_pending key (cl_commands c))\<rparr>)"
  by (simp add: client_ok_def table_inv_register) (auto simp: camera_failures_def register_pending_def)

lemma client_ok_pop: "client_ok c \<Longrightarrow> client_ok (c\<lparr>cl_commands := pop_pending key (cl_commands c)\<rparr>)"
  by (simp add: client_ok_def table_inv_pop) (auto simp: camera_failures_def pop_pending_def)

lemma client_ok_next [simp]: "client_ok (c\<lparr>cl_next_sequence := n\<rparr>) = client_ok c"
  by (simp add: client_ok_def)

lemma behaves_control_begin: "behaves client_ok set_raises (control_begin cs command payload)"
proof (rule behavesI)
  fix c r c' assume c: "client_ok c" "control_begin cs command payload c = (r, c')"
  define key where "key = (command, cl_next_sequence c)"
  define c1 where "c1 = c\<lparr>cl_next_sequence := cl_next_sequence c + 1,
    cl_commands := snd (register_pending key (cl_commands c))\<rparr>"
  obtain x c2 where s: "send_request cs (cl_next_sequence c) command payload c1 = (x, c2)" by fastforce
  have "client_ok c1"
    using client_ok_register [of "c\<lparr>cl_next_sequence := cl_next_sequence c + 1\<rparr>" key] c(1) by (simp add: c1_def)
  from behavesD [OF behaves_send_request this s] c(2) s
  show "client_ok c' \<and> (\<forall>e. r = Inl e \<longrightarrow> set_raises e)"
    by (cases x) (auto simp: control_begin_def allocate_sequence_def register_pending_def Let_def c1_def key_def
        intro: client_ok_pop)
qed

lemma behaves_control_end: "behaves client_ok set_raises (control_end key ticket)"
proof (rule behavesI)
  fix c r c' assume "client_ok c" "control_end key ticket c = (r, c')"
  then show "client_ok c' \<and> (\<forall>e. r = Inl e \<longrightarrow> set_raises e)"
    using client_ok_pop [of c key]
    by (auto simp: control_end_def Let_def client_ok_def camera_failures_def set_raises_def
        split: option.splits if_splits)
qed

lemma behaves_send_control:
  assumes "0 \<le> i"
  shows "behaves client_ok set_raises (send_control cs (meanwhile cs plan) (JInt i) (Some payload) None)"
proof (rule behavesI)
  fix c r c' assume c: "client_ok c" "send_control cs (meanwhile cs plan) (JInt i) (Some payload) None c = (r, c')"
  have check: "check_command (JInt i) (Some payload) = Inr (nat i, payload)"
    using assms by (simp add: check_command_def)
  have timeout: "0 < cl_control_timeout c" using c(1) by (simp add: client_ok_def)
  obtain x c1 where b: "control_begin cs (nat i) payload c = (x, c1)" by fastforce
  note first = behavesD [OF behaves_control_begin c(1) b]
  show "client_ok c' \<and> (\<forall>e. r = Inl e \<longrightarrow> set_raises e)"
  proof (cases x)
    case (Inl e)
    with timeout c(2) b first show ?thesis by (auto simp: send_control_def check seq_state_def)
  next
    case (Inr kt)
    obtain key ticket where kt: "kt = (key, ticket)" by fastforce
    let ?c2 = "meanwhile cs plan (cl_control_timeout c) c1"
    have "control_end key ticket ?c2 = (r, c')"
      using timeout c(2) b Inr kt by (simp add: send_control_def check seq_state_def)
    with behavesD [OF behaves_control_end client_ok_reader [OF _ reader_steps_meanwhile]] first
    show ?thesis by blast
  qed
qed

section \<open>The controls of a session\<close>

definition session_ok :: "session \<Rightarrow> bool" where
  "session_ok s \<longleftrightarrow> client_ok (ss_client s)"

lemma behaves_mono: "behaves good raises m \<Longrightarrow> (\<And>e. raises e \<Longrightarrow> raises' e) \<Longrightarrow> behaves good raises' m"
  by (auto simp: behaves_def)

text \<open>An operation of the client as one of the session that owns it.\<close>

lemma behaves_session_client:
  assumes "behaves client_ok raises m"
  shows "behaves session_ok raises (\<lambda>s. case m (ss_client s) of (r, c) \<Rightarrow> (r, s\<lparr>ss_client := c\<rparr>))"
  using assms by (auto simp: behaves_def session_ok_def split: prod.split)

lemma behaves_require: "behaves session_ok set_raises (\<lambda>s. (require_connected s, s))"
  by (simp add: behaves_def require_connected_def set_raises_def)

lemma session_send_seq:
  "session_send cs others command payload =
     seq_state (\<lambda>s. (require_connected s, s)) (\<lambda>_ s.
       case send_control cs others (JInt command) (Some payload) None (ss_client s) of
         (r, c) \<Rightarrow> (r, s\<lparr>ss_client := c\<rparr>))"
  by (auto simp: fun_eq_iff session_send_def seq_state_def lift_result_def require_connected_def)

lemma behaves_session_send:
  assumes "0 \<le> command"
  shows "behaves session_ok set_raises (session_send cs (meanwhile cs plan) command payload)"
  unfolding session_send_seq
  by (intro behaves_seq behaves_require behaves_session_client behaves_send_control assms)

lemma behaves_session_set:
  "0 \<le> command \<Longrightarrow> ok payload \<Longrightarrow> behaves session_ok set_raises (session_set cs (meanwhile cs plan) command payload)"
  unfolding session_set_def
  by (intro behaves_seq behaves_lift behaves_session_send) (auto simp: ok_iff)

lemma behaves_session_reboot: "behaves session_ok set_raises (session_reboot cs)"
proof -
  have "behaves client_ok set_raises (send_command cs (JInt REBOOT_COMMAND) (Some []))"
  proof (rule behavesI)
    fix c r c' assume c: "client_ok c" "send_command cs (JInt REBOOT_COMMAND) (Some []) c = (r, c')"
    then have "send_request cs (cl_next_sequence c) (nat REBOOT_COMMAND) []
        (c\<lparr>cl_next_sequence := cl_next_sequence c + 1\<rparr>) = (r, c')"
      by (simp add: send_command_def check_command_def allocate_sequence_def REBOOT_COMMAND_def)
    from behavesD [OF behaves_send_request _ this] c(1)
    show "client_ok c' \<and> (\<forall>e. r = Inl e \<longrightarrow> set_raises e)" by simp
  qed
  note send = behaves_session_client [OF this]
  have "session_reboot cs =
     seq_state (\<lambda>s. (require_connected s, s)) (\<lambda>_ s.
       case send_command cs (JInt REBOOT_COMMAND) (Some []) (ss_client s) of (r, c) \<Rightarrow> (r, s\<lparr>ss_client := c\<rparr>))"
    by (auto simp: fun_eq_iff session_reboot_def seq_state_def lift_result_def require_connected_def)
  with behaves_seq [OF behaves_require send] show ?thesis by simp
qed

text \<open>Reading a response can also fail because of what it holds.\<close>

lemma decrypt_raises: "decrypt_rpc_payload cs p pfx = Inl e \<Longrightarrow> control_raises e"
  by (auto simp: decrypt_rpc_payload_def aes_cbc_decrypt_padded_def validate_def result_iff Let_def control_raises_def
      set_raises_def split: if_splits option.splits)

lemma decode_loop_raises: "decode_varint_loop data offset v i n = Inl e \<Longrightarrow> is_protocol_error e"
  by (induction n arbitrary: offset v i) (auto simp: decode_varint_loop.simps(2) Let_def split: if_splits)

lemma decode_raises: "decode_varint data offset n = Inl e \<Longrightarrow> is_protocol_error e"
  unfolding decode_varint_def by (rule decode_loop_raises)

lemma read_response_raises: "read_response_loop payload offset = Inl e \<Longrightarrow> is_protocol_error e"
proof (induction payload offset rule: read_response_loop.induct)
  case (1 payload offset)
  from 1(2) have "offset < length payload" by (auto simp: read_response_loop.simps [of payload offset] split: if_splits)
  from 1(2) this consider (tag) "decode_varint payload offset MAX_VARINT_BYTES = Inl e"
    | (tail) tag off where "decode_varint payload offset MAX_VARINT_BYTES = Inr (tag, off)"
    by (cases "decode_varint payload offset MAX_VARINT_BYTES") (auto simp: read_response_loop.simps [of payload offset])
  then show ?case
  proof cases
    case tag
    then show ?thesis by (rule decode_raises)
  next
    case (tail tag off)
    let ?step = "if tag AND 7 = 0 then
                bind (decode_varint payload off MAX_VARINT_BYTES) (\<lambda>(v, offset).
                  Inr (if drop_bit 3 tag = 1 then Some v else None, offset))
              else if tag AND 7 = 1 then Inr (None, off + 8)
              else if tag AND 7 = 2 then
                bind (decode_varint payload off MAX_VARINT_BYTES) (\<lambda>(len, offset).
                  Inr (None, offset + len))
              else if tag AND 7 = 5 then Inr (None, off + 4)
              else Inl (ValueError ''unsupported protobuf wire type'')"
    note run = 1(2) [unfolded read_response_loop.simps [of payload offset], simplified tail \<open>offset < length payload\<close>
        if_True bind.simps prod.case Let_def]
    show ?thesis
    proof (cases ?step)
      case (Inl x)
      then have "is_protocol_error x"
        by (auto simp: result_iff dest: decode_raises split: if_splits)
      with run Inl show ?thesis by simp
    next
      case (Inr fo)
      obtain found off' where fo: "fo = (found, off')" by fastforce
      with run Inr have "found = None"
        "(if length payload < off' then Inl (ValueError ''truncated protobuf field'') else read_response_loop payload off') = Inl e"
        by (auto split: option.splits)
      moreover note 1(1) [OF \<open>offset < length payload\<close> tail refl refl refl Inr fo [symmetric]]
      ultimately show ?thesis by (auto split: if_splits)
    qed
  qed
qed

lemma name_of_value_raises: "name_of_value values label payload = Inl e \<Longrightarrow> control_raises e"
  by (auto simp: name_of_value_def read_response_value_def result_iff control_raises_def set_raises_def
      dest: read_response_raises split: option.splits)

lemma behaves_session_get:
  assumes "0 \<le> command"
  shows "behaves session_ok control_raises (session_get cs (meanwhile cs plan) command values label)"
proof -
  have "behaves session_ok control_raises (\<lambda>s.
      seq_state (lift_result (decrypt_rpc_payload cs response (bootstrap_prefix (cl_credentials (ss_client s)))))
        (\<lambda>payload. lift_result (name_of_value values label payload)) s)" for response
    by (auto simp: behaves_def seq_state_def dest: decrypt_raises name_of_value_raises split: sum.split)
  moreover have "behaves session_ok control_raises (session_send cs (meanwhile cs plan) command [])"
    by (rule behaves_mono [OF behaves_session_send [OF assms]]) (simp add: control_raises_def)
  ultimately show ?thesis
    unfolding session_get_def by (intro behaves_seq)
qed

lemma payload_ok:
  "ok (build_led_payload (JBool b))"
  "n \<in> fst ` set NIGHT_VALUES \<Longrightarrow> ok (build_night_payload (JStr n))"
  "n \<in> fst ` set FLIP_VALUES \<Longrightarrow> ok (build_flip_payload (JStr n))"
  "n \<in> fst ` set VIDEO_QUALITY_VALUES \<Longrightarrow> ok (build_video_quality_payload (JStr n))"
  "n \<in> fst ` set MOTION_VALUES \<Longrightarrow> ok (build_motion_payload (JStr n))"
  "schedule_sound sched \<Longrightarrow> ok (build_intrusion_payload (JBool b) (Some sched))"
proof -
  have enum: "ok (enum_payload (JStr n) vs label)" if "enum_ok vs" "n \<in> fst ` set vs" for vs label
    using that by (auto simp: ok_iff enum_payload_Inr_iff dest: weak_map_of_SomeI)
  show "ok (build_led_payload (JBool b))" by (simp add: build_led_payload_def value_payload_message)
  show "n \<in> fst ` set NIGHT_VALUES \<Longrightarrow> ok (build_night_payload (JStr n))"
    "n \<in> fst ` set FLIP_VALUES \<Longrightarrow> ok (build_flip_payload (JStr n))"
    "n \<in> fst ` set VIDEO_QUALITY_VALUES \<Longrightarrow> ok (build_video_quality_payload (JStr n))"
    by (simp_all add: build_night_payload_def build_flip_payload_def build_video_quality_payload_def enum)
  show "n \<in> fst ` set MOTION_VALUES \<Longrightarrow> ok (build_motion_payload (JStr n))"
    by (auto simp: ok_iff build_motion_Inr_iff dest: weak_map_of_SomeI)
  show "schedule_sound sched \<Longrightarrow> ok (build_intrusion_payload (JBool b) (Some sched))"
    by (simp add: build_intrusion_message schedule_sound_def)
qed

lemmas command_numbers = STATUS_LED_COMMAND_def NIGHT_SET_COMMAND_def NIGHT_GET_COMMAND_def FLIP_SET_COMMAND_def
  FLIP_GET_COMMAND_def VIDEO_QUALITY_COMMAND_def INTRUSION_COMMAND_def MOTION_COMMAND_def REBOOT_COMMAND_def

section \<open>The worker\<close>

record worker =
  wk_session :: "session option"
  wk_state :: camera_state
  wk_wall :: int

definition new_worker :: worker where
  "new_worker = \<lparr>wk_session = None, wk_state = new_camera_state, wk_wall = 0\<rparr>"

text \<open>
  The beginning of \<open>run\<close>: a client with the default timeouts, a session with audio, both callbacks
  publishing to the state. \<open>dials\<close> and \<open>sends\<close> are what the network will do.
\<close>

definition worker_begin :: "credentials \<Rightarrow> (exn + net_event list) list \<Rightarrow> exn option list \<Rightarrow> (unit, worker) op" where
  "worker_begin creds dials sends w =
     (case camera_client creds 5000 DEFAULT_FRAME_TIMEOUT None of
        Inl e \<Rightarrow> (Inl e, w)
      | Inr c \<Rightarrow>
          (case open_session (c\<lparr>cl_dials := dials, cl_sends := sends\<rparr>) True of
             Inl e \<Rightarrow> (Inl e, w)
           | Inr s \<Rightarrow>
               (case session_start True True s of
                  (r, s) \<Rightarrow> (r, w\<lparr>wk_session := Some s\<rparr>))))"

text \<open>\<open>type(error).__name__\<close>; the other subclasses of \<open>OSError\<close> are one class here.\<close>

fun exn_class :: "exn \<Rightarrow> string" where
  "exn_class (PacketError m) = ''PacketError''"
| "exn_class (ValueError m) = ''ValueError''"
| "exn_class (UnicodeDecodeError m) = ''UnicodeDecodeError''"
| "exn_class (JSONDecodeError m) = ''JSONDecodeError''"
| "exn_class InvalidRequest = ''InvalidRequest''"
| "exn_class (TypeError m) = ''TypeError''"
| "exn_class (CameraError m) = ''CameraError''"
| "exn_class (CameraUnavailable m) = ''CameraUnavailable''"
| "exn_class (TimeoutError m) = ''TimeoutError''"
| "exn_class (LookupError m) = ''LookupError''"
| "exn_class (OSError m) = ''OSError''"
| "exn_class (FileNotFoundError m) = ''FileNotFoundError''"
| "exn_class (NameError m) = ''NameError''"
| "exn_class GeneratorExit = ''GeneratorExit''"

text \<open>One turn of the loop in \<open>run\<close>, and its \<open>finally\<close> clause, which also gives the closed session.\<close>

definition worker_poll :: "worker \<Rightarrow> worker" where
  "worker_poll w =
     (case wk_session w of
        None \<Rightarrow> w
      | Some s \<Rightarrow>
          w\<lparr>wk_state :=
            (if session_connected s then set_connected True None (wk_state w)
             else set_connected False
               (case session_error s of None \<Rightarrow> None
                | Some e \<Rightarrow> Some (concat [exn_class e, '': '', exn_message e])) (wk_state w))\<rparr>)"

definition worker_end :: "worker \<Rightarrow> session option \<times> worker" where
  "worker_end w = (map_option session_close (wk_session w), w\<lparr>wk_session := None\<rparr>)"

text \<open>
  What the session's reader hears is published; \<open>clock i\<close> is what \<open>time.time()\<close> returns at the
  publication number \<open>i\<close> of a stream.
\<close>

definition published :: "(nat \<Rightarrow> int) \<Rightarrow> media list \<Rightarrow> media_event list" where
  "published clock out =
     map (\<lambda>(i, m). case m of Video f \<Rightarrow> Frame (clock i) f | Audio a \<Rightarrow> Chunk (clock i) a) (enumerate 0 out)"

text \<open>
  The whole of \<open>run\<close>. Between two polls the reader thread goes on: it opens a connection, or it streams
  over the one it has, to the end of the stream. \<open>rounds\<close> says what it does after each poll; the stop event is
  set when the rounds end.
\<close>

datatype reader_turn = Opens | Streams "nat \<Rightarrow> int" "nat option"

fun worker_reads :: "cipher_suite \<Rightarrow> reader_turn \<Rightarrow> worker \<Rightarrow> worker" where
  "worker_reads cs Opens w =
     (case wk_session w of
        None \<Rightarrow> w
      | Some s \<Rightarrow>
          if ss_stop s \<or> ss_connected s then w
          else
            (case reader_connect cs s of
               (Inl e, s) \<Rightarrow> w\<lparr>wk_session := Some (reader_end (Some e) s)\<rparr>
             | (Inr _, s) \<Rightarrow> w\<lparr>wk_session := Some s\<rparr>))"
| "worker_reads cs (Streams clock stop_at) w =
     (case wk_session w of
        None \<Rightarrow> w
      | Some s \<Rightarrow>
          if \<not> ss_connected s then w
          else
            (case reader_stream cs stop_at s of
               (out, stopped, s) \<Rightarrow>
                 w\<lparr>wk_session := Some (s\<lparr>ss_stop := ss_stop s \<or> stopped\<rparr>),
                   wk_state := fold apply_event (published clock out) (wk_state w)\<rparr>))"

fun worker_loop :: "cipher_suite \<Rightarrow> reader_turn list list \<Rightarrow> worker \<Rightarrow> worker" where
  "worker_loop cs [] w = w"
| "worker_loop cs (turns # rounds) w = worker_loop cs rounds (fold (worker_reads cs) turns (worker_poll w))"

definition worker_run :: "cipher_suite \<Rightarrow> credentials \<Rightarrow> (exn + net_event list) list \<Rightarrow> exn option list
    \<Rightarrow> reader_turn list list \<Rightarrow> (session option, worker) op" where
  "worker_run cs creds dials sends rounds w =
     (case worker_begin creds dials sends w of
        (Inl e, w) \<Rightarrow> (Inl e, w)
      | (Inr _, w) \<Rightarrow> (case worker_end (worker_loop cs rounds w) of (ended, w) \<Rightarrow> (Inr ended, w)))"

text \<open>\<open>_active_session\<close>, and the operations that pass a call on.\<close>

definition on_session :: "('a, session) op \<Rightarrow> ('a, worker) op" where
  "on_session m w =
     (case wk_session w of
        None \<Rightarrow> (Inl (CameraUnavailable ''camera worker is stopped''), w)
      | Some s \<Rightarrow> (case m s of (r, s) \<Rightarrow> (r, w\<lparr>wk_session := Some s\<rparr>)))"

definition worker_status :: "worker \<Rightarrow> dict" where
  "worker_status w = state_status (wk_wall w) (wk_state w)"

text \<open>The workers of the bridge, by name; a call to one leaves the others alone.\<close>

type_synonym workers = "string \<Rightarrow> worker"

definition at_worker :: "string \<Rightarrow> ('a, worker) op \<Rightarrow> ('a, workers) op" where
  "at_worker name m ws = (case m (ws name) of (r, w) \<Rightarrow> (r, ws(name := w)))"

definition worker_ops :: "cipher_suite \<Rightarrow> (nat \<Rightarrow> reader_act list) \<Rightarrow> string \<Rightarrow> workers camera_ops" where
  "worker_ops cs plan name =
     (let others = meanwhile cs plan in
      \<lparr>co_status = (\<lambda>ws. worker_status (ws name)),
       co_set_status_led = (\<lambda>v. at_worker name (on_session (set_status_led cs others v))),
       co_set_night_vision = (\<lambda>v. at_worker name (on_session (set_night_vision cs others v))),
       co_get_night_vision = at_worker name (on_session (get_night_vision cs others)),
       co_set_flip = (\<lambda>v. at_worker name (on_session (set_flip cs others v))),
       co_get_flip = at_worker name (on_session (get_flip cs others)),
       co_set_video_quality = (\<lambda>v. at_worker name (on_session (set_video_quality cs others v))),
       co_set_motion = (\<lambda>v. at_worker name (on_session (set_motion cs others v))),
       co_set_intrusion = (\<lambda>enabled s. at_worker name (on_session (set_intrusion cs others enabled s))),
       co_reboot = at_worker name (on_session (session_reboot cs))\<rparr>)"

text \<open>The \<open>controls\<close> argument of the server, and the API on it.\<close>

definition worker_api :: "cipher_suite \<Rightarrow> (nat \<Rightarrow> reader_act list) \<Rightarrow> string list \<Rightarrow> string result
    \<Rightarrow> (bytes \<Rightarrow> json option) \<Rightarrow> workers api" where
  "worker_api cs plan names token ld =
     \<lparr>api_cameras = map (\<lambda>name. (name, worker_ops cs plan name)) names, token_file = token, loads = ld\<rparr>"

section \<open>The workers keep the interface of the API\<close>

definition worker_ok :: "worker \<Rightarrow> bool" where
  "worker_ok w \<longleftrightarrow> (\<forall>s. wk_session w = Some s \<longrightarrow> session_ok s)"

definition workers_ok :: "workers \<Rightarrow> bool" where
  "workers_ok ws \<longleftrightarrow> (\<forall>name. worker_ok (ws name))"

lemma behaves_at_worker:
  assumes "behaves session_ok raises m" and "\<And>e. raises e \<Longrightarrow> control_raises e"
  shows "behaves workers_ok control_raises (at_worker name (on_session m))"
proof (rule behavesI)
  fix ws r ws' assume ws: "workers_ok ws" "at_worker name (on_session m) ws = (r, ws')"
  show "workers_ok ws' \<and> (\<forall>e. r = Inl e \<longrightarrow> control_raises e)"
  proof (cases "wk_session (ws name)")
    case None
    with ws show ?thesis
      by (auto simp: at_worker_def on_session_def control_raises_def set_raises_def)
  next
    case (Some s)
    obtain x s' where m: "m s = (x, s')" by fastforce
    have "session_ok s" using ws(1) Some by (simp add: workers_ok_def worker_ok_def)
    from behavesD [OF assms(1) this m] ws Some m assms(2) show ?thesis
      by (auto simp: at_worker_def on_session_def workers_ok_def worker_ok_def split: if_splits)
  qed
qed

lemma control_raises_set: "set_raises e \<Longrightarrow> control_raises e"
  by (simp add: control_raises_def)

interpretation worker_port: camera_port "worker_ops cs plan name" workers_ok control_raises for cs plan name
  by unfold_locales
    (simp_all add: worker_ops_def Let_def set_status_led_def set_night_vision_def set_flip_def set_video_quality_def
      set_motion_def set_intrusion_def get_night_vision_def get_flip_def payload_ok command_numbers
      behaves_at_worker [OF behaves_session_set control_raises_set]
      behaves_at_worker [OF behaves_session_reboot control_raises_set] behaves_at_worker [OF behaves_session_get])

interpretation worker_fleet: camera_fleet "worker_api cs plan names token ld" workers_ok control_raises
  for cs plan names token ld
  by (rule camera_fleet.intro) (auto simp: worker_api_def intro: worker_port.camera_port_axioms)

end
