(* ===== verification/Worker_Correct.thy ===== *)
theory Worker_Correct
  imports Worker
begin

text \<open>
  Correctness of the workers as the cameras of the control API: the outcome of every request, what the
  camera state ever holds, and what a malformed reply of the camera does to a request.
\<close>

section \<open>The outcome of a request\<close>

text \<open>
  C7. The bridge keeps its state consistent under every request and every behaviour of the network:
  whatever the method, path, header and body, whatever the reader threads do while a control waits
  and wherever a socket or the file system fails, \<open>handle\<close> leaves every client's table and the store
  consistent. Nearly every failure becomes an HTTP status; what can still leave \<open>handle\<close> as an
  exception is an \<open>OSError\<close> of a socket or of the store, a \<open>PacketError\<close> or \<open>ValueError\<close> for a
  malformed reply of the camera, the \<open>TypeError\<close> of a header or a token that is not ASCII, and what
  reading the token file raises other than an \<open>OSError\<close>.
\<close>

theorem bridge_request_outcome:
  assumes "workers_ok (as_camera a)" and "store_ok (as_store a)"
    and "\<forall>e. Some e \<in> set (cs_writes (as_store a)) \<longrightarrow> is_os_error e"
  shows "case handle (worker_api cs plan names token ld) verb path header raw_body a of (r, a') \<Rightarrow>
    workers_ok (as_camera a') \<and> store_ok (as_store a') \<and>
    (\<forall>e. r = Inl e \<longrightarrow> (is_os_error e \<and> \<not> is_timeout e) \<or> is_protocol_error e \<or> token_raises token header e)"
proof -
  obtain r a' where run: "handle (worker_api cs plan names token ld) verb path header raw_body a = (r, a')"
    by fastforce
  have "api_inv workers_ok is_os_error a" using assms by (simp add: api_inv_def)
  from behavesD [OF worker_fleet.handled this run]
  have "api_inv workers_ok is_os_error a'"
    and e: "\<forall>e. r = Inl e \<longrightarrow> (api_raises control_raises is_os_error e \<and> \<not> answered e) \<or> token_raises token header e"
    by (auto simp: worker_api_def)
  moreover have "(is_os_error e \<and> \<not> is_timeout e) \<or> is_protocol_error e"
    if "api_raises control_raises is_os_error e" "\<not> answered e" for e
    using that by (cases e) (auto simp: api_raises_def control_raises_def set_raises_def answered_def)
  ultimately show ?thesis by (auto simp: run api_inv_def)
qed

lemma workers_ok_new: "workers_ok (\<lambda>name. new_worker)"
  by (simp add: workers_ok_def worker_ok_def new_worker_def)

lemma demo_writes: "Some e \<notin> set (cs_writes demo_store)"
  by (simp add: demo_store_def)

lemma bridge_request_outcome_witness:
  "store_ok (as_store (snd (handle (worker_api demo_suite (\<lambda>t. []) [''cam''] (Inr ''secret'') (\<lambda>b. None))
     ''GET'' ''/api/v1/cameras/cam'' (Some ''Bearer secret'') [] \<lparr>as_camera = \<lambda>name. new_worker, as_store = demo_store\<rparr>)))"
  using demo_store_ok workers_ok_new demo_writes
    bridge_request_outcome [where a = "\<lparr>as_camera = \<lambda>name. new_worker, as_store = demo_store\<rparr>" and cs = demo_suite
      and plan = "\<lambda>t. []" and names = "[''cam'']" and token = "Inr ''secret''" and ld = "\<lambda>b. None"
      and verb = "''GET''" and path = "''/api/v1/cameras/cam''" and header = "Some ''Bearer secret''" and raw_body = "[]"]
  by (simp split: prod.splits)

section \<open>The life of a worker\<close>

text \<open>The two turns of the reader are the turn of its loop.\<close>

lemma reader_cycle_turns:
  "wk_session w = Some s \<Longrightarrow> \<not> ss_stop s \<Longrightarrow> \<not> ss_connected s \<Longrightarrow>
     worker_reads cs (Streams clock stop_at) (worker_reads cs Opens w) =
       (case reader_cycle cs stop_at s of
          (out, stopped, s) \<Rightarrow>
            w\<lparr>wk_session := Some (s\<lparr>ss_stop := ss_stop s \<or> stopped\<rparr>),
              wk_state := fold apply_event (published clock out) (wk_state w)\<rparr>)"
  using reader_connect_connected(1) [of cs s]
  by (auto simp: reader_cycle_def reader_end_def published_def split: prod.splits sum.splits)

lemma worker_reads_session:
  "wk_session (worker_reads cs t w) = None \<longleftrightarrow> wk_session w = None"
  by (cases t) (auto split: option.splits prod.splits sum.splits)

lemma worker_loop_session: "wk_session (worker_loop cs rounds w) = None \<longleftrightarrow> wk_session w = None"
proof (induction cs rounds w rule: worker_loop.induct)
  case (2 cs turns rounds w)
  have "wk_session (fold (worker_reads cs) turns v) = None \<longleftrightarrow> wk_session v = None" for v
    by (induction turns arbitrary: v) (simp_all add: worker_reads_session)
  with 2 show ?case by (simp add: worker_poll_def split: option.split)
qed simp

text \<open>What a poll makes visible.\<close>

definition shows_session :: "session \<Rightarrow> camera_state \<Rightarrow> bool" where
  "shows_session s st \<longleftrightarrow> st_connected st = ss_connected s \<and>
     st_error st = (if ss_connected s then None
       else map_option (\<lambda>e. concat [exn_class e, '': '', exn_message e]) (ss_error s))"

lemma worker_poll_shows:
  "wk_session w = Some s \<Longrightarrow> shows_session s (wk_state (worker_poll w)) \<and> wk_session (worker_poll w) = Some s"
  by (auto simp: worker_poll_def shows_session_def set_connected_def split: option.split)



section \<open>Every frame the bridge serves is a complete JPEG\<close>

definition complete_jpeg :: "bytes \<Rightarrow> bool" where
  "complete_jpeg f \<longleftrightarrow> prefix SOI f \<and> suffix EOI f \<and> find_from f EOI 2 = Some (length f - 2)"

lemma push_jpeg:
  assumes "push cs r p = (Inr (Some f), r')"
  shows "complete_jpeg f"
proof -
  obtain pfx m assembled where "finish_frame cs pfx m assembled = Inr (Some f)"
    using assms by (auto simp: push_def Let_def split: if_splits option.splits)
  with finish_frame_ok [of cs pfx m assembled] show ?thesis by (simp add: complete_jpeg_def)
qed

lemma frames_av_jpeg: "frames_av cs audio p fs c = (out, r) \<Longrightarrow> Video f \<in> set out \<Longrightarrow> complete_jpeg f"
  by (auto simp: frames_av_def Let_def dest: push_jpeg split: prod.splits sum.splits option.splits if_splits)

lemma frames_packets_jpeg: "frames_packets cs audio ps fs c = (out, r, c') \<Longrightarrow> Video f \<in> set out \<Longrightarrow> complete_jpeg f"
proof (induction cs audio ps fs c arbitrary: out r c' rule: frames_packets.induct)
  case (2 cs audio p ps fs c)
  then show ?case by (auto split: prod.splits bool.splits sum.splits)
next
  case (3 cs audio p ps fs c)
  obtain o1 x where av: "frames_av cs audio p fs c = (o1, x)" by fastforce
  show ?case
  proof (cases x)
    case (Inl e)
    with 3(2,3) av frames_av_jpeg [OF av] show ?thesis by auto
  next
    case (Inr fs1)
    obtain o2 y c2 where rest: "frames_packets cs audio ps fs1 c = (o2, y, c2)"
      by (cases "frames_packets cs audio ps fs1 c") auto
    with 3(2,3) av Inr have "Video f \<in> set o1 \<or> Video f \<in> set o2" by auto
    with frames_av_jpeg [OF av] 3(1) [OF av [symmetric] Inr rest] show ?thesis by blast
  qed
qed simp_all

lemma frames_iteration_jpeg:
  "frames_iteration cs audio fs c = (out, r, c') \<Longrightarrow> Video f \<in> set out \<Longrightarrow> complete_jpeg f"
  by (auto simp: frames_iteration_def Let_def dest: frames_packets_jpeg split: prod.splits sum.splits)

lemma frames_loop_jpeg: "frames_loop cs audio fs c = (out, r, c') \<Longrightarrow> Video f \<in> set out \<Longrightarrow> complete_jpeg f"
proof (induction cs audio fs c arbitrary: out r c' rule: frames_loop.induct)
  case (1 cs audio fs c)
  show ?case
  proof (cases "cl_open c")
    case False
    with 1(2,3) show ?thesis by (simp add: frames_loop.simps [of cs audio fs c])
  next
    case True
    obtain o1 x c1 where i: "frames_iteration cs audio fs c = (o1, x, c1)"
      by (cases "frames_iteration cs audio fs c") auto
    show ?thesis
    proof (cases x)
      case (Inl e)
      with 1(2,3) i True frames_iteration_jpeg [OF i] show ?thesis
        by (simp add: frames_loop.simps [of cs audio fs c])
    next
      case (Inr fs1)
      obtain o2 y c2 where rec: "frames_loop cs audio fs1 c1 = (o2, y, c2)"
        by (cases "frames_loop cs audio fs1 c1") auto
      with 1(2,3) i Inr True have "Video f \<in> set o1 \<or> Video f \<in> set o2"
        by (auto simp: frames_loop.simps [of cs audio fs c])
      moreover have "\<not> \<not> cl_open c" using True by simp
      ultimately show ?thesis
        using frames_iteration_jpeg [OF i] 1(1) [OF _ i [symmetric] refl Inr rec] by blast
    qed
  qed
qed

lemma reader_stream_jpeg: "reader_stream cs stop_at s = (out, stopped, s') \<Longrightarrow> Video f \<in> set out \<Longrightarrow> complete_jpeg f"
  by (auto simp: reader_stream_def heard_by_def frames_def dest: frames_loop_jpeg split: prod.splits sum.splits)

text \<open>
  The steps of the bridge on one camera: what the reader thread does, a poll of the worker thread,
  anything that happens to the session (beginning, controls, end), and the clock.
\<close>

inductive worker_step :: "cipher_suite \<Rightarrow> worker \<Rightarrow> worker \<Rightarrow> bool" for cs where
  Read: "worker_step cs w (worker_reads cs t w)"
| Poll: "worker_step cs w (worker_poll w)"
| Session: "worker_step cs w (w\<lparr>wk_session := s\<rparr>)"
| Clock: "worker_step cs w (w\<lparr>wk_wall := t\<rparr>)"

inductive_cases worker_stepE: "worker_step cs w w'"

lemma worker_loop_steps: "(worker_step cs)\<^sup>*\<^sup>* w (worker_loop cs rounds w)"
proof (induction cs rounds w rule: worker_loop.induct)
  case (2 cs turns rounds w)
  have "(worker_step cs)\<^sup>*\<^sup>* v (fold (worker_reads cs) turns v)" for v
    by (induction turns arbitrary: v) (auto intro: worker_step.Read converse_rtranclp_into_rtranclp)
  then have "(worker_step cs)\<^sup>*\<^sup>* w (fold (worker_reads cs) turns (worker_poll w))"
    by (blast intro: worker_step.Poll converse_rtranclp_into_rtranclp)
  with 2 show ?case by simp
qed simp

definition serves_jpegs :: "camera_state \<Rightarrow> bool" where
  "serves_jpegs st \<longleftrightarrow> (\<forall>f. st_frame st = Some f \<longrightarrow> complete_jpeg f)"

lemma serves_jpegs_events:
  "serves_jpegs st \<Longrightarrow> (\<And>now f. Frame now f \<in> set es \<Longrightarrow> complete_jpeg f) \<Longrightarrow> serves_jpegs (fold apply_event es st)"
proof (induction es arbitrary: st)
  case (Cons e es)
  have "serves_jpegs (apply_event e st)"
    using Cons.prems by (cases e) (auto simp: serves_jpegs_def set_connected_def publish_def publish_audio_def Let_def)
  moreover have "complete_jpeg f" if "Frame now f \<in> set es" for now f
    using Cons.prems(2) [of now f] that by simp
  ultimately have "serves_jpegs (fold apply_event es (apply_event e st))" by (rule Cons.IH)
  then show ?case by simp
qed simp

lemma serves_jpegs_step: "worker_step cs w w' \<Longrightarrow> serves_jpegs (wk_state w) \<Longrightarrow> serves_jpegs (wk_state w')"
proof (induction rule: worker_step.induct)
  case (Read w t)
  show ?case
  proof (cases t)
    case Opens
    with Read show ?thesis by (auto split: option.split prod.split sum.split)
  next
    case (Streams clock stop_at)
    have "complete_jpeg f" if "reader_stream cs stop_at s = (out, stopped, s')" "Frame now f \<in> set (published clock out)"
      for s out stopped s' now f
    proof -
      from that(2) have "Video f \<in> set out"
        by (auto simp: published_def in_set_enumerate_eq split: media.splits) (metis nth_mem)
      with reader_stream_jpeg [OF that(1)] show ?thesis .
    qed
    with Read Streams show ?thesis
      by (auto intro!: serves_jpegs_events split: option.split prod.split)
  qed
qed (auto simp: worker_poll_def serves_jpegs_def set_connected_def split: option.split)



section \<open>A malformed reply\<close>

text \<open>
  A camera that answers a setting query with garbage takes down the request instead of the reading.
  For \<open>GET\<close> of a camera with a live session, a timeout or a \<open>CameraError\<close> of the night-vision query
  falls back to the stored value, as does the query for the flip; but a reply that does not decrypt or parse raises
  \<open>PacketError\<close> or \<open>ValueError\<close>, no clause of \<open>_safe_readback\<close> or \<open>handle\<close> catches it, and there is
  no HTTP answer.
\<close>

theorem malformed_reply_unanswered:
  assumes "opens (token_file api) header" and "path_parts path = [''api'', ''v1'', ''cameras'', i]"
    and "map_of (api_cameras api) i = Some camera" and "control_values (as_store a) i = Inr controls"
    and "truthy (dict_get (co_status camera (as_camera a)) ''connected'')"
    and "dict_get (co_status camera (as_camera a)) ''error'' = JNull"
    and "co_get_night_vision camera (as_camera a) = (Inl e, s)"
  shows "(is_protocol_error e \<longrightarrow> fst (handle api ''GET'' path header raw_body a) = Inl e) \<and>
    (is_timeout e \<or> is_camera_error e \<longrightarrow> (\<forall>f s'. co_get_flip camera s = (Inr f, s') \<longrightarrow>
       fst (handle api ''GET'' path header raw_body a) =
         Inr \<lparr>status = 200, response_body = JObj
           [(''id'', JStr i), (''connected'', JBool True),
            (''media'', JObj (filter (\<lambda>(key, v). key \<noteq> ''connected'') (co_status camera (as_camera a)))),
            (''controls'', JObj (dict_set (dict_set controls ''night_vision'' (dict_get controls ''night_vision''))
               ''flip'' (known (JStr f) ''readback'')))]\<rparr>))"
proof -
  have auth: "authorized (token_file api) header = Inr True" using assms(1) by (simp add: authorized_iff)
  have "path \<noteq> ''/health''" using assms(2) by (auto simp: path_parts_def)
  then have run: "fst (handle api ''GET'' path header raw_body a) =
      answer_of (fst (route_camera api ''GET'' [''api'', ''v1'', ''cameras'', i] i camera raw_body a))"
    by (simp add: handle_def auth assms(2,3) case_prod_unfold Let_def)
  have detail: "route_camera api ''GET'' [''api'', ''v1'', ''cameras'', i] i camera raw_body a =
      seq_state (camera_detail i camera) (\<lambda>b. lift_result (Inr (Some b))) a"
    by (simp add: route_camera_def)
  note defs = camera_detail_def camera_detail_from_def seq_state_def safe_readback_def on_camera_def
    lift_result_def Let_def
  show ?thesis
  proof (intro conjI impI allI)
    assume e: "is_protocol_error e"
    then have "\<not> is_timeout e" "\<not> is_camera_error e" "answer_of (Inl e) = Inl e"
      by (cases e; simp add: answer_of_def)+
    with assms(4-7) show "fst (handle api ''GET'' path header raw_body a) = Inl e"
      by (simp add: run detail defs)
  next
    fix f s'
    assume "is_timeout e \<or> is_camera_error e" "co_get_flip camera s = (Inr f, s')"
    with assms(4-7) show "fst (handle api ''GET'' path header raw_body a) =
         Inr \<lparr>status = 200, response_body = JObj
           [(''id'', JStr i), (''connected'', JBool True),
            (''media'', JObj (filter (\<lambda>(key, v). key \<noteq> ''connected'') (co_status camera (as_camera a)))),
            (''controls'', JObj (dict_set (dict_set controls ''night_vision'' (dict_get controls ''night_vision''))
               ''flip'' (known (JStr f) ''readback'')))]\<rparr>"
      by (auto simp: run detail defs answer_of_def)
  qed
qed

text \<open>
  On the model of the bridge: the reader hands a response with code 0 to the command, but its payload is
  no cipher text.
\<close>

definition demo_garbage :: rpc_packet where
  "demo_garbage = demo_response\<lparr>rpc_payload := [1], rpc_encryption_type := AES_256_CBC\<rparr>"

definition demo_workers :: workers where
  "demo_workers = (\<lambda>name. new_worker
     \<lparr>wk_session := Some ((projr (camera_session (demo_client\<lparr>cl_pending := [RPC demo_garbage]\<rparr>) True 1000))
        \<lparr>ss_started := True, ss_connected := True\<rparr>),
      wk_state := set_connected True None new_camera_state\<rparr>)"

lemma demo_control:
  assumes "control_begin demo_suite 2636 [] c = (Inr ((2636, 5), 0), c1)"
    and "cl_pending c1 = [RPC demo_garbage]" and "cl_now c1 = 0" and "cl_open c1"
    and "cl_commands c1 = snd (register_pending (2636, 5) empty_table)" and "0 < cl_control_timeout c"
  shows "fst (send_control demo_suite (meanwhile demo_suite (\<lambda>t. [Iterates True demo_frames])) (JInt 2636) (Some []) None c)
    = Inr demo_garbage"
proof -
  have "fst (control_end (2636, 5) 0 (snd (snd (frames_iteration demo_suite True demo_frames c1)))) = Inr demo_garbage"
    using assms(2-5)
    by (simp add: frames_iteration_def heartbeat_def demo_frames_def next_packets_def seq_state_def
        lift_result_def demo_garbage_def demo_response_def RPC_RESPONSE_def resolve_pending_def register_pending_def
        empty_table_def control_end_def Let_def)
  with assms(1,6) show ?thesis
    by (simp add: send_control_def check_command_def seq_state_def meanwhile_def)
qed

lemma malformed_reply_unanswered_witness:
  "\<exists>m. fst (handle (worker_api demo_suite (\<lambda>t. [Iterates True demo_frames]) [''cam''] (Inr ''secret'') (\<lambda>b. None))
     ''GET'' ''/api/v1/cameras/cam'' (Some ''Bearer secret'') [] \<lparr>as_camera = demo_workers, as_store = demo_store\<rparr>) =
     Inl (ValueError m)"
proof -
  let ?api = "worker_api demo_suite (\<lambda>t. [Iterates True demo_frames]) [''cam''] (Inr ''secret'') (\<lambda>b. None)"
  let ?c = "demo_client\<lparr>cl_pending := [RPC demo_garbage]\<rparr>"
  have client: "cl_next_sequence ?c = 5" "cl_now ?c = 0" "cl_commands ?c = empty_table" "cl_open ?c" "cl_sends ?c = []"
    "cl_control_timeout ?c = 100"
    by (simp_all add: demo_client_def camera_client_def)
  obtain data where pack: "pack_rpc demo_suite 5 2636 [] pfx RPC_REQUEST 0 = Inr data" for pfx
    by (simp add: pack_rpc_def Let_def RPC_REQUEST_def RPC_RESPONSE_def)
  have "\<exists>c1. control_begin demo_suite 2636 [] ?c = (Inr ((2636, 5), 0), c1) \<and> cl_pending c1 = [RPC demo_garbage] \<and>
      cl_now c1 = 0 \<and> cl_open c1 \<and> cl_commands c1 = snd (register_pending (2636, 5) empty_table)"
    using client pack
    by (simp add: control_begin_def allocate_sequence_def register_pending_def send_request_def send_data_def
        empty_table_def Let_def)
  then have send: "fst (send_control demo_suite (meanwhile demo_suite (\<lambda>t. [Iterates True demo_frames])) (JInt 2636)
      (Some []) None ?c) = Inr demo_garbage"
    using demo_control client(6) by fastforce
  have garbage: "decrypt_rpc_payload demo_suite demo_garbage pfx =
      Inl (ValueError ''padded AES-CBC ciphertext must be non-empty and block-aligned'')" for pfx
    by (simp add: decrypt_rpc_payload_def demo_garbage_def demo_response_def aes_cbc_decrypt_padded_def AES_BLOCK_SIZE_def
        Let_def)
  from send obtain c3 where "send_control demo_suite (meanwhile demo_suite (\<lambda>t. [Iterates True demo_frames])) (JInt 2636)
      (Some []) None ?c = (Inr demo_garbage, c3)"
    by (metis fst_conv surj_pair)
  then obtain s where read: "co_get_night_vision (worker_ops demo_suite (\<lambda>t. [Iterates True demo_frames]) ''cam'') demo_workers =
      (Inl (ValueError ''padded AES-CBC ciphertext must be non-empty and block-aligned''), s)"
    by (simp add: worker_ops_def Let_def at_worker_def on_session_def demo_workers_def new_worker_def camera_session_def
        get_night_vision_def session_get_def NIGHT_GET_COMMAND_def session_send_def require_connected_def
        seq_state_def [of "session_send _ _ _ _"] seq_state_def [of "lift_result (decrypt_rpc_payload _ _ _)"] garbage)
  have "opens (token_file ?api) (Some ''Bearer secret'')"
    by (simp add: opens_def worker_api_def bearer_def strip_def is_space_def is_ascii_def)
  moreover have "path_parts ''/api/v1/cameras/cam'' = [''api'', ''v1'', ''cameras'', ''cam'']"
    by (simp add: path_parts_def)
  moreover have "map_of (api_cameras ?api) ''cam'' =
      Some (worker_ops demo_suite (\<lambda>t. [Iterates True demo_frames]) ''cam'')"
    by (simp add: worker_api_def)
  moreover obtain controls where "control_values demo_store ''cam'' = Inr controls"
    by (simp add: control_values_def store_values_def demo_store_def)
  moreover have "truthy (dict_get (co_status (worker_ops demo_suite (\<lambda>t. [Iterates True demo_frames]) ''cam'') demo_workers) ''connected'')"
    "dict_get (co_status (worker_ops demo_suite (\<lambda>t. [Iterates True demo_frames]) ''cam'') demo_workers) ''error'' = JNull"
    by (simp_all add: worker_ops_def Let_def worker_status_def state_status_def demo_workers_def new_worker_def
        set_connected_def new_camera_state_def dict_get_def)
  ultimately show ?thesis
    using malformed_reply_unanswered [of ?api "Some ''Bearer secret''" "''/api/v1/cameras/cam''" "''cam''" _
        "\<lparr>as_camera = demo_workers, as_store = demo_store\<rparr>"] read by fastforce
qed

end
