(* ===== verification/Bridge_Stream.thy ===== *)
theory Bridge_Stream
  imports Camera_State
begin

text \<open>
  The endless responses of \<open>BridgeHandler\<close> in \<open>ino_a9_bridge/src/wificam_bridge/bridge.py\<close>: the MJPEG
  stream, its slowed-down preview, and the audio stream.

  Each loop runs over a list of turns. A turn says what happened to the camera state, and how much time
  passed, since the last wait; what happens during the wait; and whether the write to the socket
  raises one of the exceptions that end the loop.
\<close>

record turn =
  tn_pause :: nat
  tn_before :: "media_event list"
  tn_wakes :: wakes
  tn_broken :: bool

definition BOUNDARY :: string where "BOUNDARY = ''ino-a9-frame''"

definition CRLF :: string where "CRLF = [CHR 0x0D, CHR 0x0A]"

definition PREVIEW_INTERVAL :: nat where "PREVIEW_INTERVAL = 1000"

definition part_text :: string where
  "part_text = concat [''--'', BOUNDARY, CRLF, ''Content-Type: image/jpeg'', CRLF, ''Content-Length: '']"

definition part_header :: "nat \<Rightarrow> string" where
  "part_header len = part_text @ show_nat len @ CRLF @ CRLF"

definition mjpeg_part :: "bytes \<Rightarrow> bytes" where
  "mjpeg_part frame = str_encode (part_header (length frame)) @ frame @ str_encode CRLF"

text \<open>
  \<open>_stream\<close>: when each frame was sent, its number, and the frame. What is written for it is
  \<open>mjpeg_part\<close>.
\<close>

fun stream_loop :: "nat \<Rightarrow> turn list \<Rightarrow> int \<Rightarrow> nat \<Rightarrow> nat \<Rightarrow> camera_state \<Rightarrow> (nat \<times> nat \<times> bytes) list \<times> camera_state" where
  "stream_loop interval [] frame_id next_frame_at now st = ([], st)"
| "stream_loop interval (t # ts) frame_id next_frame_at now st =
     (case wait_for_frame frame_id 15000 (now + tn_pause t) (tn_wakes t) (fold apply_event (tn_before t) st) of
        (None, now, wakes, st) \<Rightarrow> stream_loop interval ts frame_id next_frame_at now st
      | (Some (frame_id, frame), now, wakes, st) \<Rightarrow>
          if interval \<noteq> 0 \<and> now < next_frame_at
          then stream_loop interval ts (int frame_id) next_frame_at now st
          else if tn_broken t then ([], st)
          else
            (case stream_loop interval ts (int frame_id)
                (if interval \<noteq> 0 then now + interval else next_frame_at) now st of
               (sent, st) \<Rightarrow> ((now, frame_id, frame) # sent, st)))"

definition stream :: "nat \<Rightarrow> turn list \<Rightarrow> nat \<Rightarrow> camera_state \<Rightarrow> (nat \<times> nat \<times> bytes) list \<times> camera_state" where
  "stream interval ts = stream_loop interval ts (-1) 0"

definition stream_bytes :: "(nat \<times> nat \<times> bytes) list \<Rightarrow> bytes" where
  "stream_bytes sent = concat (map (\<lambda>(now, frame_id, frame). mjpeg_part frame) sent)"

text \<open>\<open>_audio\<close>.\<close>

fun audio_loop :: "turn list \<Rightarrow> nat \<Rightarrow> nat \<Rightarrow> camera_state \<Rightarrow> bytes list \<times> camera_state" where
  "audio_loop [] audio_id now st = ([], st)"
| "audio_loop (t # ts) audio_id now st =
     (case wait_for_audio audio_id 15000 (now + tn_pause t) (tn_wakes t) (fold apply_event (tn_before t) st) of
        (None, now, wakes, st) \<Rightarrow> audio_loop ts audio_id now st
      | (Some chunks, now, wakes, st) \<Rightarrow>
          if tn_broken t then ([], st)
          else
            (case audio_loop ts (if chunks = [] then audio_id else fst (last chunks)) now st of
               (written, st) \<Rightarrow> (map snd chunks @ written, st)))"

definition audio :: "turn list \<Rightarrow> nat \<Rightarrow> camera_state \<Rightarrow> bytes list \<times> camera_state" where
  "audio ts now st = audio_loop ts (audio_cursor st) now st"

section \<open>A client reads back the frames\<close>

text \<open>
  A client of \<open>multipart/x-mixed-replace\<close> that goes by \<open>Content-Length\<close>: the number between the fixed
  text of the header and the next carriage return.
\<close>

definition part_start :: bytes where
  "part_start = str_encode part_text"

function read_parts :: "bytes \<Rightarrow> bytes list option" where
  "read_parts data =
     (if data = [] then Some []
      else if \<not> prefix part_start data then None
      else
        let data = drop (length part_start) data;
            len = read_nat (map (\<lambda>b. char_of (unat b)) (takeWhile (\<lambda>b. b \<noteq> 0x0D) data));
            data = drop 4 (dropWhile (\<lambda>b. b \<noteq> 0x0D) data) in
        if length data < len + 2 then None
        else map_option (\<lambda>frames. take len data # frames) (read_parts (drop (len + 2) data)))"
  by pat_completeness auto
termination
proof (relation "measure length", goal_cases)
  case (2 data rest len rest')
  have "0 < length part_start" by (simp add: part_start_def part_text_def)
  moreover have "length (dropWhile (\<lambda>b. b \<noteq> 0x0D) rest) \<le> length rest" by (rule length_dropWhile_le)
  moreover have "0 < length data" using 2(1) by simp
  moreover have "length rest = length data - length part_start" using 2(3) by simp
  moreover have "length rest' = length (dropWhile (\<lambda>b. b \<noteq> 0x0D) rest) - 4" using 2(5) by simp
  ultimately have "length rest' < length data" by linarith
  then show ?case by simp
qed simp

declare read_parts.simps [simp del]

lemma str_encode_digits: "map (\<lambda>b. char_of (unat b)) (str_encode s) = s"
proof -
  have "char_of (unat (of_nat (of_char c) :: byte)) = c" for c
    by (simp add: unat_of_nat)
  then show ?thesis by (simp add: str_encode_def comp_def)
qed

lemma digit_not_CR:
  assumes "is_digit c"
  shows "(of_nat (of_char c) :: byte) \<noteq> 0x0D"
proof
  assume eq: "(of_nat (of_char c) :: byte) = 0x0D"
  have "of_char c < (256 :: nat)" by simp
  with arg_cong [OF eq, of unat] have "of_char c = (13 :: nat)" by (simp add: unat_of_nat)
  with assms show False by (simp add: is_digit_def)
qed

lemma read_parts_part: "read_parts (mjpeg_part frame @ rest) = map_option (\<lambda>frames. frame # frames) (read_parts rest)"
proof -
  let ?digits = "str_encode (show_nat (length frame))"
  let ?data = "?digits @ str_encode CRLF @ str_encode CRLF @ frame @ str_encode CRLF @ rest"
  have data: "mjpeg_part frame @ rest = part_start @ ?data"
    by (simp add: mjpeg_part_def part_header_def part_start_def)
  have cr: "str_encode CRLF = [0x0D, 0x0A]" by (simp add: str_encode_def CRLF_def)
  have nocr: "\<forall>b \<in> set ?digits. b \<noteq> 0x0D"
    using show_nat_digits digit_not_CR by (auto simp: str_encode_def)
  then have "takeWhile (\<lambda>b. b \<noteq> 0x0D) ?data = ?digits"
    "dropWhile (\<lambda>b. b \<noteq> 0x0D) ?data = str_encode CRLF @ str_encode CRLF @ frame @ str_encode CRLF @ rest"
    by (simp_all add: cr takeWhile_append2 dropWhile_append2)
  moreover have "part_start @ ?data \<noteq> []" by (simp add: cr)
  ultimately show ?thesis
    unfolding data by (subst read_parts.simps) (simp add: Let_def str_encode_digits cr)
qed

lemma read_parts_stream: "read_parts (concat (map mjpeg_part frames)) = Some frames"
  by (induction frames) (simp_all add: read_parts_part, simp add: read_parts.simps)

section \<open>Which frames are sent\<close>

text \<open>The frames published so far; the state holds the last one and their number.\<close>

definition shown :: "media_event list \<Rightarrow> bytes list" where
  "shown es = concat (map (\<lambda>e. case e of Frame now f \<Rightarrow> [f] | _ \<Rightarrow> []) es)"

definition frame_inv :: "bytes list \<Rightarrow> camera_state \<Rightarrow> bool" where
  "frame_inv h st \<longleftrightarrow> st_frame_id st = length h \<and> st_frame st = (if h = [] then None else Some (last h))"

lemma frame_inv_new: "frame_inv [] new_camera_state"
  by (simp add: frame_inv_def new_camera_state_def)

lemma frame_inv_events: "frame_inv h st \<Longrightarrow> frame_inv (h @ shown es) (fold apply_event es st)"
proof (induction es arbitrary: h st)
  case (Cons e es)
  have "frame_inv (h @ shown [e]) (apply_event e st)"
    using Cons.prems by (cases e) (auto simp: frame_inv_def shown_def publish_def set_connected_def publish_audio_def Let_def)
  from Cons.IH [OF this] show ?case by (simp add: shown_def)
qed (simp add: shown_def)

text \<open>What a wait for a frame returns, in terms of the history.\<close>

lemma wait_for_frame_history:
  assumes "frame_inv h st" and "wait_for_frame after timeout now wakes st = (x, now', wakes', st')"
  obtains g where "frame_inv (h @ g) st'" and "now \<le> now'"
    and "x = (if h @ g = [] \<or> int (length (h @ g)) = after then None else Some (length (h @ g), last (h @ g)))"
proof -
  obtain es where es: "st' = fold apply_event es st"
    using wait_until_result [OF assms(2) [unfolded wait_for_frame_def]] by auto
  have inv: "frame_inv (h @ shown es) st'"
    using frame_inv_events [OF assms(1)] es by simp
  have "x = (if h @ shown es = [] \<or> int (length (h @ shown es)) = after then None
      else Some (length (h @ shown es), last (h @ shown es)))"
    using wait_for_frame_result [OF assms(2)] inv
    by (cases x) (auto simp: frame_inv_def split: if_splits)
  with that [OF inv] wait_for_frame_result [OF assms(2)] show thesis by blast
qed

text \<open>
  A sent sequence: numbers go up, the times are at least the interval apart, and each frame is the
  one with its number in the history.
\<close>

definition sent_ok :: "nat \<Rightarrow> bytes list \<Rightarrow> (nat \<times> nat \<times> bytes) list \<Rightarrow> bool" where
  "sent_ok interval h sent \<longleftrightarrow>
     sorted_wrt (\<lambda>(now, i, f) (now', i', f'). i < i' \<and> now + interval \<le> now') sent \<and>
     (\<forall>(now, i, f) \<in> set sent. 1 \<le> i \<and> i \<le> length h \<and> f = h ! (i - 1))"

lemma last_nth_append: "xs \<noteq> [] \<Longrightarrow> last xs = (xs @ k) ! (length xs - 1)"
  by (simp add: nth_append last_conv_nth)

lemma stream_loop_sent:
  assumes "stream_loop interval ts frame_id next_at now st = (sent, st')" and "frame_inv h st"
    and "frame_id \<le> int (length h)"
  shows "\<exists>g. frame_inv (h @ g) st' \<and> sent_ok interval (h @ g) sent \<and>
    (\<forall>(t, i, f) \<in> set sent. frame_id < int i \<and> now \<le> t \<and> (interval \<noteq> 0 \<longrightarrow> next_at \<le> t))"
  using assms
proof (induction interval ts frame_id next_at now st arbitrary: sent h rule: stream_loop.induct)
  case (1 interval frame_id next_at now st)
  then show ?case by (intro exI [of _ "[]"]) (simp add: sent_ok_def)
next
  case (2 interval t ts frame_id next_at now st)
  let ?st = "fold apply_event (tn_before t) st"
  let ?h = "h @ shown (tn_before t)"
  obtain x now1 wakes1 st1 where w: "wait_for_frame frame_id 15000 (now + tn_pause t) (tn_wakes t) ?st = (x, now1, wakes1, st1)"
    by (metis prod.collapse)
  obtain g where inv: "frame_inv (?h @ g) st1" and time: "now + tn_pause t \<le> now1"
    and x: "x = (if ?h @ g = [] \<or> int (length (?h @ g)) = frame_id then None else Some (length (?h @ g), last (?h @ g)))"
    using wait_for_frame_history [OF frame_inv_events [OF 2(5)] w] .
  let ?g = "shown (tn_before t) @ g"
  note IH = 2(1-3)
  show ?case
  proof (cases x)
    case None
    with 2(4) w have "stream_loop interval ts frame_id next_at now1 st1 = (sent, st')" by simp
    from IH(1) [OF w [symmetric] None refl refl this inv] 2(6) obtain k where
      "frame_inv ((?h @ g) @ k) st'" "sent_ok interval ((?h @ g) @ k) sent"
      "\<forall>(t, i, f) \<in> set sent. frame_id < int i \<and> now1 \<le> t \<and> (interval \<noteq> 0 \<longrightarrow> next_at \<le> t)"
      by auto
    with time show ?thesis by (intro exI [of _ "?g @ k"]) auto
  next
    case (Some r)
    let ?i = "length (?h @ g)" and ?f = "last (?h @ g)"
    have r: "x = Some (?i, ?f)" "?h @ g \<noteq> []" "int ?i \<noteq> frame_id"
      using x Some by (auto split: if_splits)
    with 2(6) have later: "frame_id < int ?i" by auto
    have ith: "?f = ((?h @ g) @ k) ! (?i - 1)" for k
      by (rule last_nth_append [OF r(2)])
    consider (skip) "interval \<noteq> 0 \<and> now1 < next_at" | (broken) "\<not> (interval \<noteq> 0 \<and> now1 < next_at)" "tn_broken t"
      | (send) "\<not> (interval \<noteq> 0 \<and> now1 < next_at)" "\<not> tn_broken t" by blast
    then show ?thesis
    proof cases
      case skip
      with 2(4) w r(1) have "stream_loop interval ts (int ?i) next_at now1 st1 = (sent, st')" by simp
      from IH(2) [OF w [symmetric] r(1) refl refl refl skip this inv] obtain k where
        "frame_inv ((?h @ g) @ k) st'" "sent_ok interval ((?h @ g) @ k) sent"
        "\<forall>(t, i, f) \<in> set sent. int ?i < int i \<and> now1 \<le> t \<and> (interval \<noteq> 0 \<longrightarrow> next_at \<le> t)"
        by auto
      with time later show ?thesis by (intro exI [of _ "?g @ k"]) force
    next
      case broken
      with 2(4) w r(1) have "sent = [] \<and> st' = st1" by (simp split: if_splits)
      with inv show ?thesis by (intro exI [of _ ?g]) (simp add: sent_ok_def)
    next
      case send
      let ?next = "if interval \<noteq> 0 then now1 + interval else next_at"
      obtain sent2 st2 where rec: "stream_loop interval ts (int ?i) ?next now1 st1 = (sent2, st2)" by fastforce
      with 2(4) w r(1) send have out: "sent = (now1, ?i, ?f) # sent2" "st' = st2" by (simp_all split: if_splits)
      from IH(3) [OF w [symmetric] r(1) refl refl refl send rec [folded out(2)] inv] obtain k where
        k: "frame_inv ((?h @ g) @ k) st'" "sent_ok interval ((?h @ g) @ k) sent2"
        "\<forall>(t, i, f) \<in> set sent2. int ?i < int i \<and> now1 \<le> t \<and> (interval \<noteq> 0 \<longrightarrow> ?next \<le> t)"
        by (auto simp: out)
      have "\<forall>(t, i, f) \<in> set sent2. ?i < i \<and> now1 + interval \<le> t"
        using k(3) by (cases "interval = 0") auto
      moreover have "1 \<le> ?i" "?i \<le> length ((?h @ g) @ k)" "?f = ((?h @ g) @ k) ! (?i - 1)"
        using r(2) ith by (simp_all add: Suc_le_eq)
      ultimately have "sent_ok interval ((?h @ g) @ k) sent"
        using k(2) by (auto simp: sent_ok_def out)
      moreover have "\<forall>(t, i, f) \<in> set sent. frame_id < int i \<and> now \<le> t \<and> (interval \<noteq> 0 \<longrightarrow> next_at \<le> t)"
        using k(3) time later send(1) by (auto simp: out)
      ultimately show ?thesis using k(1) by (intro exI [of _ "?g @ k"]) auto
    qed
  qed
qed

text \<open>
  C25. An MJPEG response shows what the camera published. Whatever happens while the response waits
  and writes: each frame sent is the published frame with that number, no frame is sent twice, they
  come in the order of publication, and on the preview two of them are at least a second apart. From the
  bytes of the response a client that honours \<open>Content-Length\<close> reads exactly these frames, also when
  a frame contains the boundary.
\<close>

theorem stream_shows_published_frames:
  assumes "stream interval ts now (fold apply_event es new_camera_state) = (sent, st')"
  shows "read_parts (stream_bytes sent) = Some (map (\<lambda>(t, i, f). f) sent) \<and>
    sorted_wrt (\<lambda>(t, i, f) (t', i', f'). i < i' \<and> t + interval \<le> t') sent \<and>
    (\<exists>g. st_frame_id st' = length (shown es @ g) \<and>
       (\<forall>(t, i, f) \<in> set sent. 1 \<le> i \<and> i \<le> length (shown es @ g) \<and> f = (shown es @ g) ! (i - 1)))"
proof -
  have "frame_inv (shown es) (fold apply_event es new_camera_state)"
    using frame_inv_events [OF frame_inv_new, of es] by simp
  from stream_loop_sent [OF assms [unfolded stream_def] this] obtain g where
    "frame_inv (shown es @ g) st'" "sent_ok interval (shown es @ g) sent" by auto
  moreover have "stream_bytes sent = concat (map mjpeg_part (map (\<lambda>(t, i, f). f) sent))"
    by (simp add: stream_bytes_def comp_def case_prod_unfold)
  then have "read_parts (stream_bytes sent) = Some (map (\<lambda>(t, i, f). f) sent)"
    by (simp only: read_parts_stream)
  ultimately show ?thesis
    by (auto simp: sent_ok_def frame_inv_def)
qed

definition demo_turns :: "turn list" where
  "demo_turns =
     [\<lparr>tn_pause = 0, tn_before = [], tn_wakes = [(5, Frame 1 [7])], tn_broken = False\<rparr>,
      \<lparr>tn_pause = 20, tn_before = [Frame 2 [8], Frame 3 [9]], tn_wakes = [], tn_broken = False\<rparr>]"

lemma stream_shows_published_frames_witness:
  "\<exists>sent st'. stream 0 demo_turns 0 (fold apply_event [] new_camera_state) = (sent, st') \<and>
     map (\<lambda>(t, i, f). (i, f)) sent = [(1, [7]), (3, [9])] \<and> read_parts (stream_bytes sent) = Some [[7], [9]]"
proof -
  obtain st' where run: "stream 0 demo_turns 0 (fold apply_event [] new_camera_state) = ([(5, 1, [7]), (25, 3, [9])], st')"
    by (simp add: stream_def demo_turns_def wait_for_frame_def wait_until.simps frame_ready_def new_camera_state_def publish_def)
  from stream_shows_published_frames [OF run] run show ?thesis by auto
qed

section \<open>Which audio is heard\<close>

text \<open>A reader that is at most 128 chunks behind gets all it has not heard.\<close>

lemma audio_ready_close:
  assumes "audio_inv h st" and "after \<le> length h" and "length h \<le> after + AUDIO_CHUNKS"
  shows "audio_ready after st = (if after = length h then None else Some (drop after (numbered h)))"
proof -
  have "max after (length h - AUDIO_CHUNKS) = after" using assms(3) by simp
  with audio_ready_history [OF assms(1), of after] assms(2) show ?thesis by simp
qed

lemma numbered_drop:
  "map snd (drop a (numbered h)) = drop a h"
  "a < length h \<Longrightarrow> drop a (numbered h) \<noteq> [] \<and> fst (last (drop a (numbered h))) = length h"
proof -
  show "map snd (drop a (numbered h)) = drop a h"
    by (simp add: numbered_def flip: drop_map)
  show "drop a (numbered h) \<noteq> [] \<and> fst (last (drop a (numbered h))) = length h" if "a < length h"
    using that by (simp add: last_conv_nth nth_numbered)
qed

text \<open>A reader that is up to date waits for one chunk.\<close>

lemma wait_for_one_chunk:
  assumes "wait_until (audio_ready (length h)) deadline now wakes st = (x, now', wakes', st')" and "audio_inv h st"
  shows "\<exists>g. audio_inv (h @ g) st' \<and> length g \<le> 1 \<and> x = (if g = [] then None else Some (drop (length h) (numbered (h @ g))))"
  using assms
proof (induction wakes arbitrary: now st)
  case Nil
  have "audio_ready (length h) st = None" using audio_ready_close [OF Nil(2), of "length h"] by simp
  with Nil show ?case
    by (intro exI [of _ "[]"]) (simp add: wait_until.simps [of _ _ _ "[]"] split: if_splits)
next
  case (Cons w wakes)
  obtain delay e where w: "w = (delay, e)" by fastforce
  have none: "audio_ready (length h) st = None" using audio_ready_close [OF Cons(3), of "length h"] by simp
  show ?case
  proof (cases "now < deadline \<and> delay \<le> deadline - now")
    case True
    then have run: "wait_until (audio_ready (length h)) deadline (now + delay) wakes (apply_event e st) = (x, now', wakes', st')"
      using Cons(2) none w by (simp add: wait_until.simps [of _ _ _ "_ # _"])
    show ?thesis
    proof (cases e)
      case (Chunk t c)
      have inv: "audio_inv (h @ [c]) (apply_event e st)"
        using audio_inv_event [OF Cons(3), of e] Chunk by simp
      have "audio_ready (length h) (apply_event e st) = Some (drop (length h) (numbered (h @ [c])))"
        using audio_ready_close [OF inv, of "length h"] by (simp add: AUDIO_CHUNKS_def)
      with run have "x = Some (drop (length h) (numbered (h @ [c])))" "st' = apply_event e st"
        by (simp_all add: wait_until.simps [of _ _ _ wakes])
      with inv show ?thesis by (intro exI [of _ "[c]"]) simp
    qed (use run Cons.IH audio_inv_event [OF Cons(3), of e] in \<open>auto\<close>)
  next
    case False
    with Cons(2,3) none w show ?thesis
      by (intro exI [of _ "[]"]) (auto simp: wait_until.simps [of _ _ _ "_ # _"] split: if_splits)
  qed
qed

lemma wait_for_audio_history:
  assumes "wait_for_audio after timeout now wakes st = (x, now', wakes', st')" and "audio_inv h st"
    and "after \<le> length h" and "length h \<le> after + AUDIO_CHUNKS"
  shows "\<exists>g. audio_inv (h @ g) st' \<and>
    x = (if after = length (h @ g) then None else Some (drop after (numbered (h @ g))))"
proof (cases "after = length h")
  case True
  from wait_for_one_chunk [OF assms(1) [unfolded wait_for_audio_def True] assms(2)] obtain g where
    "audio_inv (h @ g) st'" "x = (if g = [] then None else Some (drop (length h) (numbered (h @ g))))" by blast
  with True show ?thesis by (intro exI [of _ g]) simp
next
  case False
  with audio_ready_close [OF assms(2-4)] assms(1,2) show ?thesis
    by (intro exI [of _ "[]"]) (auto simp: wait_for_audio_def wait_until.simps [of _ _ _ wakes])
qed

lemma audio_loop_hears:
  assumes "audio_loop ts after now st = (written, st')" and "audio_inv h st" and "after = length h"
    and "\<forall>t \<in> set ts. length (heard (tn_before t)) \<le> AUDIO_CHUNKS \<and> \<not> tn_broken t"
  shows "audio_inv (h @ written) st'"
  using assms
proof (induction ts after now st arbitrary: written h rule: audio_loop.induct)
  case (2 t ts after now st)
  let ?h = "h @ heard (tn_before t)"
  obtain x now1 wakes1 st1 where w: "wait_for_audio after 15000 (now + tn_pause t) (tn_wakes t) (fold apply_event (tn_before t) st)
      = (x, now1, wakes1, st1)"
    by (metis prod.collapse)
  obtain g where inv: "audio_inv (?h @ g) st1"
    and x: "x = (if after = length (?h @ g) then None else Some (drop after (numbered (?h @ g))))"
    using wait_for_audio_history [OF w audio_inv_events [OF 2(4)]] 2(5,6) by auto
  have unbroken: "\<not> tn_broken t" "\<forall>t \<in> set ts. length (heard (tn_before t)) \<le> AUDIO_CHUNKS \<and> \<not> tn_broken t"
    using 2(6) by simp_all
  show ?case
  proof (cases x)
    case None
    with x 2(5) have "heard (tn_before t) = []" "g = []" by (auto split: if_splits)
    moreover from 2(3) w None have "audio_loop ts after now1 st1 = (written, st')" by simp
    ultimately show ?thesis
      using 2(1) [OF w [symmetric] None refl refl] inv 2(5) unbroken(2) by simp
  next
    case (Some chunks)
    then have chunks: "chunks = drop after (numbered (?h @ g))" and new: "after < length (?h @ g)"
      using x 2(5) by (auto split: if_splits)
    note last = numbered_drop(2) [OF new, folded chunks]
    obtain written2 st2 where rec: "audio_loop ts (length (?h @ g)) now1 st1 = (written2, st2)" by fastforce
    with 2(3) w Some last unbroken(1) have out: "written = map snd chunks @ written2" "st' = st2" by simp_all
    have "audio_inv ((?h @ g) @ written2) st2"
      using 2(2) [OF w [symmetric] Some refl refl unbroken(1), of written2 "?h @ g"] last rec inv unbroken(2) out(2) by simp
    moreover have "map snd chunks = heard (tn_before t) @ g"
      using 2(5) by (simp add: chunks numbered_drop)
    ultimately show ?thesis by (simp add: out)
  qed
qed simp

text \<open>
  C26. A listener hears the microphone without a gap. An audio response begins at the live end, and as
  long as no more than 128 chunks are published during one write, what it writes is the history
  from there on, every chunk once and in order, whatever else happens meanwhile.
\<close>

theorem audio_stream_without_gap:
  assumes "audio ts now (fold apply_event es new_camera_state) = (written, st')"
    and "\<forall>t \<in> set ts. length (heard (tn_before t)) \<le> 128 \<and> \<not> tn_broken t"
  shows "audio_inv (heard es @ written) st' \<and> st_audio_id st' = length (heard es) + length written"
proof -
  have inv: "audio_inv (heard es) (fold apply_event es new_camera_state)"
    using audio_inv_events [OF audio_inv_new, of es] by simp
  then have "audio_cursor (fold apply_event es new_camera_state) = length (heard es)"
    by (simp add: audio_inv_def audio_cursor_def)
  with audio_loop_hears [OF assms(1) [unfolded audio_def] inv] assms(2)
  have "audio_inv (heard es @ written) st'" by (simp add: AUDIO_CHUNKS_def)
  then show ?thesis by (simp add: audio_inv_def)
qed

lemma audio_stream_without_gap_witness:
  "\<exists>written st'. audio [\<lparr>tn_pause = 0, tn_before = [Chunk 1 [5], Chunk 2 [6]], tn_wakes = [], tn_broken = False\<rparr>] 0
      (fold apply_event [Chunk 0 [4]] new_camera_state) = (written, st') \<and> written = [[5], [6]] \<and> st_audio_id st' = 3"
proof -
  let ?ts = "[\<lparr>tn_pause = 0, tn_before = [Chunk 1 [5], Chunk 2 [6]], tn_wakes = [], tn_broken = False\<rparr>]"
  obtain st' where run: "audio ?ts 0 (fold apply_event [Chunk 0 [4]] new_camera_state) = ([[5], [6]], st')"
    by (simp add: audio_def audio_cursor_def wait_for_audio_def wait_until.simps audio_ready_def new_camera_state_def
        publish_audio_def deque_append_def AUDIO_CHUNKS_def Let_def)
  from audio_stream_without_gap [OF run] run show ?thesis by simp
qed

end
