(* ===== verification/Bridge_Config.thy ===== *)
theory Bridge_Config
  imports Camera_Proto
begin

text \<open>
  The configuration of the bridge, \<open>parse_config\<close> of \<open>ino_a9_bridge/src/wificam_bridge/bridge.py\<close>, on
  the decoded JSON document. \<open>py_repr\<close> is Python's \<open>repr\<close>; it is a parameter, and the code relies
  on nothing about it. Python's \<open>True\<close> is the integer 1.
\<close>

record camera_settings =
  cam_name :: string
  cam_host :: string
  cam_port :: int
  cam_credentials :: credentials

record bridge_settings =
  listen_host :: string
  listen_port :: int
  cameras :: "camera_settings list"

definition safe_char :: "char \<Rightarrow> bool" where
  "safe_char c \<longleftrightarrow> (let n = of_char c :: nat in
     65 \<le> n \<and> n \<le> 90 \<or> 97 \<le> n \<and> n \<le> 122 \<or> 48 \<le> n \<and> n \<le> 57) \<or> c = CHR ''_'' \<or> c = CHR ''-''"

text \<open>\<open>SAFE_NAME.fullmatch\<close>.\<close>

definition SAFE_NAME :: "string \<Rightarrow> bool" where
  "SAFE_NAME s \<longleftrightarrow> s \<noteq> [] \<and> list_all safe_char s"

definition required_string :: "(json \<Rightarrow> string) \<Rightarrow> dict \<Rightarrow> string \<Rightarrow> string result" where
  "required_string py_repr d key =
     (case dict_get d key of
        JStr s \<Rightarrow>
          if s = []
          then Inl (ValueError (concat [''camera config field '', py_repr (JStr key), '' must be a non-empty string'']))
          else Inr s
      | _ \<Rightarrow> Inl (ValueError (concat [''camera config field '', py_repr (JStr key), '' must be a non-empty string''])))"

definition py_int :: "json \<Rightarrow> int option" where
  "py_int v = (case v of JInt i \<Rightarrow> Some i | JBool b \<Rightarrow> Some (if b then 1 else 0) | _ \<Rightarrow> None)"

definition port_number :: "json \<Rightarrow> string \<Rightarrow> int result" where
  "port_number v label =
     (case py_int v of
        Some i \<Rightarrow>
          if 1 \<le> i \<and> i \<le> 65535 then Inr i
          else Inl (ValueError (label @ '' must be an integer from 1 to 65535''))
      | None \<Rightarrow> Inl (ValueError (label @ '' must be an integer from 1 to 65535'')))"

text \<open>\<open>str(v)\<close> of a decoded value.\<close>

definition py_str :: "(json \<Rightarrow> string) \<Rightarrow> json \<Rightarrow> string" where
  "py_str py_repr v = (case v of JStr s \<Rightarrow> s | _ \<Rightarrow> py_repr v)"

definition DEFAULT_CAMERA_PORT :: int where "DEFAULT_CAMERA_PORT = 20190"

text \<open>The body of the loop over the camera values, and the loop; the names so far are those parsed.\<close>

definition parse_camera :: "(json \<Rightarrow> string) \<Rightarrow> string list \<Rightarrow> json \<Rightarrow> camera_settings result" where
  "parse_camera py_repr names v =
     (case v of
        JObj d \<Rightarrow>
          bind (required_string py_repr d ''name'') (\<lambda>name.
            if \<not> SAFE_NAME name
              then Inl (ValueError (''invalid camera name '' @ py_repr (JStr name)))
            else if name \<in> set names
              then Inl (ValueError (''duplicate camera name '' @ py_repr (JStr name)))
            else
              bind (required_string py_repr d ''bootstrap_prefix'') (\<lambda>pfx.
              bind (required_string py_repr d ''user'') (\<lambda>usr.
              bind (required_string py_repr d ''lan_password'') (\<lambda>pwd.
              bind (camera_credentials (str_encode pfx) usr pwd) (\<lambda>creds.
              bind (required_string py_repr d ''host'') (\<lambda>host.
              bind (port_number (dict_get_default d ''port'' (JInt DEFAULT_CAMERA_PORT)) ''camera port'') (\<lambda>port.
                Inr \<lparr>cam_name = name, cam_host = host, cam_port = port, cam_credentials = creds\<rparr>)))))))
      | _ \<Rightarrow> Inl (ValueError ''each camera config must be a JSON object''))"

fun parse_cameras :: "(json \<Rightarrow> string) \<Rightarrow> camera_settings list \<Rightarrow> json list \<Rightarrow> camera_settings list result" where
  "parse_cameras py_repr cams [] = Inr cams"
| "parse_cameras py_repr cams (v # vs) =
     bind (parse_camera py_repr (map cam_name cams) v) (\<lambda>cam. parse_cameras py_repr (cams @ [cam]) vs)"

definition parse_config :: "(json \<Rightarrow> string) \<Rightarrow> json \<Rightarrow> bridge_settings result" where
  "parse_config py_repr raw =
     (case raw of
        JObj d \<Rightarrow>
          (case dict_get d ''cameras'' of
             JList values \<Rightarrow>
               if values = [] then Inl (ValueError ''bridge config must contain a non-empty cameras list'')
               else
                 bind (parse_cameras py_repr [] values) (\<lambda>cams.
                 bind (port_number (dict_get_default d ''listen_port'' (JInt 8080)) ''listen_port'') (\<lambda>port.
                   Inr \<lparr>listen_host = py_str py_repr (dict_get_default d ''listen_host'' (JStr ''127.0.0.1'')),
                        listen_port = port, cameras = cams\<rparr>))
           | _ \<Rightarrow> Inl (ValueError ''bridge config must contain a non-empty cameras list''))
      | _ \<Rightarrow> Inl (ValueError ''bridge config must be a JSON object''))"

text \<open>\<open>load_config\<close>; the file is what \<open>read_text\<close> returns or raises, and \<open>loads\<close> is \<open>json.loads\<close>.\<close>

definition load_config :: "(json \<Rightarrow> string) \<Rightarrow> (string \<Rightarrow> json result) \<Rightarrow> string result
    \<Rightarrow> bridge_settings result" where
  "load_config py_repr loads content = bind content (\<lambda>text. bind (loads text) (parse_config py_repr))"

section \<open>What is accepted\<close>

definition camera_settings_ok :: "camera_settings \<Rightarrow> bool" where
  "camera_settings_ok cam \<longleftrightarrow> SAFE_NAME (cam_name cam) \<and> cam_host cam \<noteq> [] \<and>
     1 \<le> cam_port cam \<and> cam_port cam \<le> 65535 \<and> bootstrap_prefix (cam_credentials cam) \<noteq> [] \<and>
     user (cam_credentials cam) \<noteq> [] \<and> lan_password (cam_credentials cam) \<noteq> []"

definition settings_ok :: "bridge_settings \<Rightarrow> bool" where
  "settings_ok s \<longleftrightarrow> cameras s \<noteq> [] \<and> distinct (map cam_name (cameras s)) \<and>
     list_all camera_settings_ok (cameras s) \<and> 1 \<le> listen_port s \<and> listen_port s \<le> 65535"

text \<open>A configuration document of given settings.\<close>

definition str_decode :: "bytes \<Rightarrow> string" where
  "str_decode b = map (\<lambda>w. char_of (unat w)) b"

definition camera_json :: "camera_settings \<Rightarrow> json" where
  "camera_json cam =
     JObj [(''name'', JStr (cam_name cam)), (''host'', JStr (cam_host cam)), (''port'', JInt (cam_port cam)),
       (''bootstrap_prefix'', JStr (str_decode (bootstrap_prefix (cam_credentials cam)))),
       (''user'', JStr (user (cam_credentials cam))),
       (''lan_password'', JStr (lan_password (cam_credentials cam)))]"

definition config_json :: "bridge_settings \<Rightarrow> json" where
  "config_json s =
     JObj [(''listen_host'', JStr (listen_host s)), (''listen_port'', JInt (listen_port s)),
       (''cameras'', JList (map camera_json (cameras s)))]"

lemma str_decode_encode [simp]: "str_encode (str_decode b) = b"
proof -
  have "of_nat (of_char (char_of (unat w))) = w" for w :: byte
    using unsigned_less [of w, where ?'a = nat] by simp
  then show ?thesis by (simp add: str_encode_def str_decode_def comp_def)
qed

lemma str_decode_Nil [simp]: "str_decode b = [] \<longleftrightarrow> b = []"
  by (simp add: str_decode_def)

lemma required_string_Inr: "required_string py_repr d key = Inr s \<longleftrightarrow> s \<noteq> [] \<and> dict_get d key = JStr s"
  by (auto simp: required_string_def split: json.split)

lemma port_number_Inr: "port_number v label = Inr i \<longleftrightarrow> py_int v = Some i \<and> 1 \<le> i \<and> i \<le> 65535"
  by (auto simp: port_number_def split: option.split)

lemma parse_camera_ok:
  "parse_camera py_repr names v = Inr cam \<Longrightarrow> camera_settings_ok cam \<and> cam_name cam \<notin> set names"
  by (auto simp: parse_camera_def result_iff required_string_Inr port_number_Inr camera_settings_ok_def
      camera_credentials_def split: json.splits if_splits)

lemma parse_camera_json:
  "camera_settings_ok cam \<Longrightarrow> cam_name cam \<notin> set names \<Longrightarrow> parse_camera py_repr names (camera_json cam) = Inr cam"
  by (cases cam)
    (auto simp: parse_camera_def camera_json_def camera_settings_ok_def SAFE_NAME_def required_string_def dict_get_def
      dict_get_default_def port_number_def py_int_def camera_credentials_def)

lemma parse_cameras_ok:
  assumes "parse_cameras py_repr cams vs = Inr cams'" and "distinct (map cam_name cams)" "list_all camera_settings_ok cams"
  shows "distinct (map cam_name cams') \<and> list_all camera_settings_ok cams' \<and> length cams' = length cams + length vs"
  using assms
proof (induction vs arbitrary: cams)
  case (Cons v vs)
  then obtain cam where cam: "parse_camera py_repr (map cam_name cams) v = Inr cam"
    and rest: "parse_cameras py_repr (cams @ [cam]) vs = Inr cams'"
    by (auto simp: result_iff)
  from parse_camera_ok [OF cam] Cons.IH [OF rest] Cons.prems show ?case by auto
qed simp

lemma parse_cameras_json:
  assumes "distinct (map cam_name (cams @ cams'))" and "list_all camera_settings_ok cams'"
  shows "parse_cameras py_repr cams (map camera_json cams') = Inr (cams @ cams')"
  using assms
proof (induction cams' arbitrary: cams)
  case (Cons cam cams')
  then have "parse_camera py_repr (map cam_name cams) (camera_json cam) = Inr cam"
    by (intro parse_camera_json) auto
  moreover have "parse_cameras py_repr (cams @ [cam]) (map camera_json cams') = Inr ((cams @ [cam]) @ cams')"
    using Cons.prems by (intro Cons.IH) auto
  ultimately show ?case by simp
qed simp

lemma parse_config_ok: "parse_config py_repr raw = Inr s \<Longrightarrow> settings_ok s"
  by (auto simp: parse_config_def settings_ok_def result_iff port_number_Inr dest!: parse_cameras_ok
      split: json.splits if_splits)

lemma required_string_Inl: "required_string py_repr d key = Inl e \<Longrightarrow> \<exists>m. e = ValueError m"
  by (auto simp: required_string_def split: json.splits if_splits)

lemma port_number_Inl: "port_number v label = Inl e \<Longrightarrow> \<exists>m. e = ValueError m"
  by (auto simp: port_number_def split: option.splits if_splits)

lemma parse_camera_Inl: "parse_camera py_repr names v = Inl e \<Longrightarrow> \<exists>m. e = ValueError m"
  by (auto simp: parse_camera_def result_iff camera_credentials_def
      dest: required_string_Inl port_number_Inl split: json.splits if_splits)

lemma parse_cameras_Inl: "parse_cameras py_repr cams vs = Inl e \<Longrightarrow> \<exists>m. e = ValueError m"
  by (induction vs arbitrary: cams) (auto simp: result_iff dest: parse_camera_Inl)

lemma parse_config_Inl: "parse_config py_repr raw = Inl e \<Longrightarrow> \<exists>m. e = ValueError m"
  by (auto simp: parse_config_def result_iff dest: parse_cameras_Inl port_number_Inl split: json.splits if_splits)

text \<open>
  C37. \<open>parse_config\<close> accepts exactly the well-formed settings: whatever document it accepts gives at
  least one camera, distinct names made of safe characters, ports in range and credentials that are not
  empty; every such settings value is the meaning of a document, which is read back to it; and
  whatever it refuses, it refuses with \<open>ValueError\<close>.
\<close>

theorem config_accepts_well_formed:
  "(\<forall>raw s. parse_config py_repr raw = Inr s \<longrightarrow> settings_ok s) \<and>
   (\<forall>s. settings_ok s \<longleftrightarrow> parse_config py_repr (config_json s) = Inr s) \<and>
   (\<forall>raw e. parse_config py_repr raw = Inl e \<longrightarrow> (\<exists>m. e = ValueError m))"
proof (intro conjI allI iffI)
  fix s assume "settings_ok s"
  then show "parse_config py_repr (config_json s) = Inr s"
    using parse_cameras_json [of "[]" "cameras s" py_repr]
    by (cases s) (auto simp: settings_ok_def parse_config_def config_json_def dict_get_def dict_get_default_def
        port_number_def py_int_def py_str_def)
qed (auto dest: parse_config_ok parse_config_Inl)

definition demo_settings :: bridge_settings where
  "demo_settings =
     \<lparr>listen_host = ''0.0.0.0'', listen_port = 8080,
      cameras = [\<lparr>cam_name = ''door_1'', cam_host = ''10.0.0.9'', cam_port = 20190,
        cam_credentials = \<lparr>bootstrap_prefix = [97], user = ''u'', lan_password = ''p''\<rparr>\<rparr>]\<rparr>"

lemma config_accepts_well_formed_witness:
  "parse_config (\<lambda>v. []) (config_json demo_settings) = Inr demo_settings"
proof -
  have "settings_ok demo_settings"
    by (simp add: settings_ok_def demo_settings_def camera_settings_ok_def SAFE_NAME_def safe_char_def)
  with config_accepts_well_formed [of "\<lambda>v. []"] show ?thesis by blast
qed

text \<open>A JSON \<open>true\<close> is a port.\<close>

lemma true_is_a_port: "port_number (JBool True) label = Inr 1"
  by (simp add: port_number_def py_int_def)

end
