(* ===== verification/Bridge_HTTP.thy ===== *)
theory Bridge_HTTP
  imports Worker_Correct Bridge_Stream Bridge_Config
begin

text \<open>
  \<open>BridgeHandler\<close> of \<open>ino_a9_bridge/src/wificam_bridge/bridge.py\<close>, with
  the request body handling that \<open>ControlHandler\<close> of \<open>control_api.py\<close> has in common with it: from a
  request to the bytes of its response.

  \<open>dumps\<close> is \<open>json.dumps\<close> with compact separators. An error page is what \<open>send_error\<close> of the
  standard library makes of a status and a message.
\<close>

section \<open>Requests\<close>

record request =
  rq_method :: string
  rq_target :: string
  rq_authorization :: "string option"
  rq_content_length :: "string option"
  rq_body :: bytes

text \<open>
  \<open>int(text)\<close> on ASCII text: white space around it, a sign, digits with single underscores between
  them; \<open>None\<close> is the \<open>ValueError\<close>.
\<close>

fun int_digits :: "string \<Rightarrow> bool" where
  "int_digits [] = False"
| "int_digits [c] = is_digit c"
| "int_digits (c # d # s) = (is_digit c \<and> (if d = CHR ''_'' then int_digits s else int_digits (d # s)))"

definition int_of_text :: "string \<Rightarrow> int option" where
  "int_of_text text =
     (let s = strip text;
          negative = prefix ''-'' s;
          ds = (if negative \<or> prefix ''+'' s then tl s else s) in
      if int_digits ds
      then let n = int (read_nat (filter (\<lambda>c. c \<noteq> CHR ''_'') ds)) in Some (if negative then - n else n)
      else None)"

text \<open>\<open>self.rfile.read(int(length))\<close>; \<open>rq_body\<close> is all that follows the header.\<close>

definition read_body :: "request \<Rightarrow> bytes" where
  "read_body rq =
     (case int_of_text (case rq_content_length rq of None \<Rightarrow> ''0'' | Some t \<Rightarrow> t) of
        None \<Rightarrow> []
      | Some n \<Rightarrow> if n < 0 then rq_body rq else take (nat n) (rq_body rq))"

text \<open>
  \<open>urlsplit(target).path\<close>: without a scheme, a network location, the fragment and the query. Targets
  hold no white space, and addresses in brackets are not modelled.
\<close>

definition scheme_char :: "char \<Rightarrow> bool" where
  "scheme_char c \<longleftrightarrow> (let n = of_char c :: nat in
     65 \<le> n \<and> n \<le> 90 \<or> 97 \<le> n \<and> n \<le> 122 \<or> 48 \<le> n \<and> n \<le> 57) \<or> c \<in> set ''+-.''"

definition drop_scheme :: "string \<Rightarrow> string" where
  "drop_scheme url =
     (let s = takeWhile (\<lambda>c. c \<noteq> CHR '':'') url in
      if length s < length url \<and> s \<noteq> [] \<and> scheme_char (hd s) \<and> \<not> is_digit (hd s) \<and> hd s \<notin> set ''+-.'' \<and>
        list_all scheme_char s
      then drop (length s + 1) url else url)"

definition urlsplit_path :: "string \<Rightarrow> string" where
  "urlsplit_path target =
     (let url = drop_scheme target;
          url = (if prefix ''//'' url then dropWhile (\<lambda>c. c \<notin> set ''/?#'') (drop 2 url) else url) in
      takeWhile (\<lambda>c. c \<noteq> CHR ''?'') (takeWhile (\<lambda>c. c \<noteq> CHR ''#'') url))"

section \<open>Responses\<close>

type_synonym headers = "(string \<times> string) list"

datatype response =
    Reply nat headers bytes
  | Error_Page nat string
  | Endless headers bytes

definition json_reply :: "(json \<Rightarrow> string) \<Rightarrow> nat \<Rightarrow> json \<Rightarrow> response" where
  "json_reply dumps code v =
     (let body = str_encode (dumps v) in
      Reply code
        [(''Content-Type'', ''application/json''), (''Content-Length'', show_nat (length body)),
         (''Cache-Control'', ''no-store'')] body)"

record server =
  sv_names :: "string list"
  sv_api :: "workers api option"

text \<open>\<open>_api\<close>.\<close>

definition api_response_of :: "(json \<Rightarrow> string) \<Rightarrow> server \<Rightarrow> request \<Rightarrow> (response, workers api_state) op" where
  "api_response_of dumps sv rq a =
     (case sv_api sv of
        None \<Rightarrow> (Inr (Error_Page 404 ''Not Found''), a)
      | Some api \<Rightarrow>
          (case handle api (rq_method rq) (urlsplit_path (rq_target rq)) (rq_authorization rq) (read_body rq) a of
             (Inl e, a) \<Rightarrow> (Inl e, a)
           | (Inr resp, a) \<Rightarrow> (Inr (json_reply dumps (status resp) (response_body resp)), a)))"

text \<open>
  \<open>ControlHandler\<close> of \<open>control_api.py\<close>, a server of the API alone: all its methods answer with
  \<open>_respond\<close>, which does what \<open>_api\<close> does when there is an API.
\<close>

definition control_respond :: "(json \<Rightarrow> string) \<Rightarrow> 's api \<Rightarrow> request \<Rightarrow> (response, 's api_state) op" where
  "control_respond dumps api rq a =
     (case handle api (rq_method rq) (urlsplit_path (rq_target rq)) (rq_authorization rq) (read_body rq) a of
        (Inl e, a) \<Rightarrow> (Inl e, a)
      | (Inr resp, a) \<Rightarrow> (Inr (json_reply dumps (status resp) (response_body resp)), a))"

lemma control_respond_same: "sv_api sv = Some api \<Longrightarrow> api_response_of dumps sv = control_respond dumps api"
  by (auto simp: api_response_of_def control_respond_def fun_eq_iff)

text \<open>\<open>_health\<close>, \<open>_snapshot\<close>, \<open>_stream\<close> and \<open>_audio\<close>.\<close>

definition health_response :: "(json \<Rightarrow> string) \<Rightarrow> server \<Rightarrow> workers \<Rightarrow> response" where
  "health_response dumps sv ws =
     json_reply dumps 200 (JObj (map (\<lambda>name. (name, JObj (worker_status (ws name)))) (sv_names sv)))"

definition snapshot_response :: "nat \<Rightarrow> wakes \<Rightarrow> camera_state \<Rightarrow> response" where
  "snapshot_response now wakes st =
     (case wait_for_frame (-1) 5000 now wakes st of
        (None, _) \<Rightarrow> Error_Page 503 ''camera has no frame''
      | (Some (_, frame), _) \<Rightarrow>
          Reply 200
            [(''Content-Type'', ''image/jpeg''), (''Content-Length'', show_nat (length frame)),
             (''Cache-Control'', ''no-store'')] frame)"

definition stream_response :: "nat \<Rightarrow> turn list \<Rightarrow> nat \<Rightarrow> camera_state \<Rightarrow> response" where
  "stream_response interval ts now st =
     Endless
       [(''Content-Type'', ''multipart/x-mixed-replace; boundary='' @ BOUNDARY),
        (''Cache-Control'', ''no-store''), (''Connection'', ''close'')]
       (stream_bytes (fst (stream interval ts now st)))"

definition audio_response :: "turn list \<Rightarrow> nat \<Rightarrow> camera_state \<Rightarrow> response" where
  "audio_response ts now st =
     Endless
       [(''Content-Type'', ''audio/G711-ALAW; rate=8000; channels=1''),
        (''Cache-Control'', ''no-store''), (''Connection'', ''close'')]
       (concat (fst (audio ts now st)))"

section \<open>Routing\<close>

datatype route = To_Api | To_Health | To_Snapshot string | To_Stream string nat | To_Audio string | To_Nothing

definition route_get :: "bool \<Rightarrow> string list \<Rightarrow> string \<Rightarrow> route" where
  "route_get has_api names path =
     (if has_api \<and> (path = ''/health'' \<or> prefix ''/api/'' path) then To_Api
      else if path = ''/'' \<or> path = ''/health'' then To_Health
      else
        let parts = path_parts path in
        if length parts \<noteq> 2 \<or> parts ! 0 \<notin> set names then To_Nothing
        else if parts ! 1 = ''snapshot.jpg'' then To_Snapshot (parts ! 0)
        else if parts ! 1 = ''stream.mjpeg'' then To_Stream (parts ! 0) 0
        else if parts ! 1 = ''preview.mjpeg'' then To_Stream (parts ! 0) PREVIEW_INTERVAL
        else if parts ! 1 = ''audio.alaw'' then To_Audio (parts ! 0)
        else To_Nothing)"

text \<open>\<open>do_GET\<close>, \<open>do_PUT\<close> and \<open>do_POST\<close>; \<open>ts\<close> is the script of a response that waits.\<close>

definition do_GET :: "(json \<Rightarrow> string) \<Rightarrow> server \<Rightarrow> turn list \<Rightarrow> nat \<Rightarrow> request \<Rightarrow> (response, workers api_state) op" where
  "do_GET dumps sv ts now rq a =
     (case route_get (sv_api sv \<noteq> None) (sv_names sv) (urlsplit_path (rq_target rq)) of
        To_Api \<Rightarrow> api_response_of dumps sv rq a
      | To_Health \<Rightarrow> (Inr (health_response dumps sv (as_camera a)), a)
      | To_Snapshot name \<Rightarrow>
          (Inr (snapshot_response now (concat (map tn_wakes ts)) (wk_state (as_camera a name))), a)
      | To_Stream name interval \<Rightarrow> (Inr (stream_response interval ts now (wk_state (as_camera a name))), a)
      | To_Audio name \<Rightarrow> (Inr (audio_response ts now (wk_state (as_camera a name))), a)
      | To_Nothing \<Rightarrow> (Inr (Error_Page 404 ''Not Found''), a))"

definition serve :: "(json \<Rightarrow> string) \<Rightarrow> server \<Rightarrow> turn list \<Rightarrow> nat \<Rightarrow> request \<Rightarrow> (response, workers api_state) op" where
  "serve dumps sv ts now rq a =
     (if rq_method rq = ''GET'' then do_GET dumps sv ts now rq a
      else if rq_method rq = ''PUT'' \<or> rq_method rq = ''POST'' then api_response_of dumps sv rq a
      else (Inr (Error_Page 501 (concat [''Unsupported method ('', rq_method rq, '')''])), a))"

section \<open>Only the holder of the token changes anything\<close>

lemma handle_unauthorized:
  assumes "\<not> opens (token_file api) header" and "handle api method path header raw_body a = (r, a')"
  shows "a' = a"
    and "r = Inr resp \<Longrightarrow> method \<noteq> ''GET'' \<Longrightarrow> status resp = 401"
    and "r = Inl e \<Longrightarrow> token_raises (token_file api) header e"
proof -
  have *: "authorized (token_file api) header = Inr False \<or> (\<exists>e. authorized (token_file api) header = Inl e \<and> token_raises (token_file api) header e)"
    using assms(1) authorized_Inl
    by (cases "authorized (token_file api) header") (auto simp flip: authorized_iff)
  with assms(2) show "a' = a" and "r = Inr resp \<Longrightarrow> method \<noteq> ''GET'' \<Longrightarrow> status resp = 401"
    and "r = Inl e \<Longrightarrow> token_raises (token_file api) header e"
    by (auto simp: handle_def api_error_def split: if_splits)
qed


definition demo_server :: server where
  "demo_server = \<lparr>sv_names = [''cam''],
     sv_api = Some (worker_api demo_suite (\<lambda>t. []) [''cam''] (Inr ''secret'') (\<lambda>b. None))\<rparr>"

definition demo_reboot :: request where
  "demo_reboot = \<lparr>rq_method = ''POST'', rq_target = ''/api/v1/cameras/cam/reboot'', rq_authorization = Some ''Bearer guess'',
     rq_content_length = None, rq_body = []\<rparr>"


section \<open>The media of every camera\<close>

lemma split_slash_safe: "CHR ''/'' \<notin> set s \<Longrightarrow> split_slash s = [s]"
  by (induction s) auto

lemma split_slash_append: "CHR ''/'' \<notin> set s \<Longrightarrow> split_slash (s @ CHR ''/'' # t) = s # split_slash t"
  by (induction s) auto

lemma safe_no_slash: "SAFE_NAME s \<Longrightarrow> CHR ''/'' \<notin> set s"
  by (auto simp: SAFE_NAME_def list_all_iff safe_char_def dest!: bspec)

definition media_path :: "string \<Rightarrow> string \<Rightarrow> string" where
  "media_path name item = concat [''/'', name, ''/'', item]"

lemma path_parts_media:
  assumes "SAFE_NAME name" and "CHR ''/'' \<notin> set item" and "item \<noteq> []"
  shows "path_parts (media_path name item) = [name, item]"
proof -
  have "split_slash (media_path name item) = [[], name, item]"
    using split_slash_append [OF safe_no_slash [OF assms(1)], of item] split_slash_safe [OF assms(2)]
    by (simp add: media_path_def)
  with assms show ?thesis by (simp add: path_parts_def SAFE_NAME_def)
qed

lemma media_path_api:
  assumes "SAFE_NAME name"
  shows "prefix ''/api/'' (media_path name item) \<longleftrightarrow> name = ''api''"
proof
  assume "prefix ''/api/'' (media_path name item)"
  then obtain t where t: "name @ CHR ''/'' # item = ''api'' @ CHR ''/'' # t" by (auto simp: media_path_def prefix_def)
  have "takeWhile (\<lambda>c. c \<noteq> CHR ''/'') (name @ CHR ''/'' # item) = name"
    using safe_no_slash [OF assms] by (subst takeWhile_append2) auto
  moreover have "takeWhile (\<lambda>c. c \<noteq> CHR ''/'') (''api'' @ CHR ''/'' # t) = ''api''" by simp
  ultimately show "name = ''api''" using t by metis
qed (simp add: media_path_def)

lemma media_routes:
  assumes "settings_ok s" and "cam \<in> set (cameras s)" and "CHR ''/'' \<notin> set item" "item \<noteq> []"
  shows "route_get has_api (map cam_name (cameras s)) (media_path (cam_name cam) item) =
      (if has_api \<and> cam_name cam = ''api'' then To_Api
       else if item = ''snapshot.jpg'' then To_Snapshot (cam_name cam)
       else if item = ''stream.mjpeg'' then To_Stream (cam_name cam) 0
       else if item = ''preview.mjpeg'' then To_Stream (cam_name cam) PREVIEW_INTERVAL
       else if item = ''audio.alaw'' then To_Audio (cam_name cam)
       else To_Nothing)"
proof -
  have safe: "SAFE_NAME (cam_name cam)"
    using assms by (auto simp: settings_ok_def list_all_iff camera_settings_ok_def)
  have name: "cam_name cam \<in> set (map cam_name (cameras s))" using assms(2) by simp
  have "path_parts ''/health'' = [''health'']" "path_parts ''/'' = []" by (simp_all add: path_parts_def)
  with path_parts_media [OF safe assms(3,4)]
  have neq: "(media_path (cam_name cam) item = ''/'') = False" "(media_path (cam_name cam) item = ''/health'') = False"
    by (metis list.distinct(1) list.inject)+
  have parts: "(length [cam_name cam, item] \<noteq> 2) = False" "[cam_name cam, item] ! 0 = cam_name cam" "[cam_name cam, item] ! 1 = item"
    "(cam_name cam \<notin> set (map cam_name (cameras s))) = False"
    using name by simp_all
  show ?thesis
    unfolding route_get_def path_parts_media [OF safe assms(3,4)] Let_def
    by (simp only: media_path_api [OF safe] neq parts simp_thms if_False)
qed

text \<open>
  Every configured camera has its four media resources, whatever its name - except one that is
  called \<open>api\<close>: with a control API, all its resources are taken for API requests, although
  \<open>parse_config\<close> accepts the name. Without a control API the name makes no difference.
\<close>

theorem media_reachable:
  assumes "settings_ok s" and "cam \<in> set (cameras s)"
  shows "(route_get has_api (map cam_name (cameras s)) (media_path (cam_name cam) ''stream.mjpeg''),
     route_get has_api (map cam_name (cameras s)) (media_path (cam_name cam) ''preview.mjpeg''),
     route_get has_api (map cam_name (cameras s)) (media_path (cam_name cam) ''snapshot.jpg''),
     route_get has_api (map cam_name (cameras s)) (media_path (cam_name cam) ''audio.alaw'')) =
    (if has_api \<and> cam_name cam = ''api'' then (To_Api, To_Api, To_Api, To_Api)
     else (To_Stream (cam_name cam) 0, To_Stream (cam_name cam) 1000, To_Snapshot (cam_name cam), To_Audio (cam_name cam)))"
  by (simp add: media_routes [OF assms] PREVIEW_INTERVAL_def)

lemma demo_settings_ok: "settings_ok demo_settings"
  by (simp add: settings_ok_def demo_settings_def camera_settings_ok_def SAFE_NAME_def safe_char_def)

lemma media_reachable_witness:
  "route_get True [''door_1''] ''/door_1/stream.mjpeg'' = To_Stream ''door_1'' 0"
  using media_reachable [OF demo_settings_ok, of "hd (cameras demo_settings)" True]
  by (simp add: demo_settings_def media_path_def)

end
