(* ===== verification/Arguments.thy ===== *)
theory Arguments
  imports Prelude
begin

text \<open>
  The command lines of the programs: \<open>argparse\<close> of the standard library, as far as the four parsers of
  the repository use it, and the result of \<open>parse_args\<close>. The options are long ones beside \<open>-h\<close>, take
  one argument or none, and may be abbreviated; one parser has a positional argument and a group of
  flags that exclude each other.

  The order of decisions is that of Python 3.11, the oldest version the package admits. A usage error ends the
  program with exit code 2 and the help with 0; what they print is left out.
\<close>

section \<open>Parsers\<close>

text \<open>\<open>Typed\<close> is an option with a \<open>type\<close> function, given by the texts it accepts.\<close>

datatype arg_kind = Store | Store_True | Choices "string list" | Typed "string \<Rightarrow> bool"

record arg_option =
  op_name :: string
  op_kind :: arg_kind
  op_required :: bool

record arg_parser =
  ap_options :: "arg_option list"
  ap_positional :: bool
  ap_exclusive :: "string list"

record arg_namespace =
  ns_values :: "(string \<times> string) list"
  ns_flags :: "string list"
  ns_positional :: "string option"

definition no_arguments :: arg_namespace where
  "no_arguments = \<lparr>ns_values = [], ns_flags = [], ns_positional = None\<rparr>"

definition USAGE_ERROR :: nat where "USAGE_ERROR = 2"

fun takes_argument :: "arg_kind \<Rightarrow> bool" where
  "takes_argument Store_True = False"
| "takes_argument _ = True"

fun admits :: "arg_kind \<Rightarrow> string \<Rightarrow> bool" where
  "admits (Choices choices) v = (v \<in> set choices)"
| "admits (Typed accepts) v = accepts v"
| "admits _ v = True"

definition option_strings :: "arg_parser \<Rightarrow> string list" where
  "option_strings p = ''-h'' # ''--help'' # map op_name (ap_options p)"

definition find_option :: "arg_parser \<Rightarrow> string \<Rightarrow> arg_option option" where
  "find_option p name = find (\<lambda>opt. op_name opt = name) (ap_options p)"

section \<open>Classifying a string\<close>

text \<open>\<open>Ambiguous\<close> is the error of an abbreviation that stands for several options.\<close>

datatype arg_class =
    Argument
  | Option string "string option"
  | Unknown_Option
  | Ambiguous

text \<open>\<open>arg_string.partition("=")\<close>.\<close>

definition before_equals :: "string \<Rightarrow> string" where
  "before_equals s = takeWhile (\<lambda>c. c \<noteq> CHR ''='') s"

definition after_equals :: "string \<Rightarrow> string option" where
  "after_equals s =
     (case dropWhile (\<lambda>c. c \<noteq> CHR ''='') s of [] \<Rightarrow> None | _ # rest \<Rightarrow> Some rest)"

text \<open>\<open>^-\d+$|^-\d*\.\d+$\<close> on ASCII digits.\<close>

definition negative_number :: "string \<Rightarrow> bool" where
  "negative_number s =
     (case s of
        [] \<Rightarrow> False
      | c # rest \<Rightarrow>
          c = CHR ''-'' \<and>
          (rest \<noteq> [] \<and> list_all is_digit rest \<or>
           (case dropWhile is_digit rest of
              [] \<Rightarrow> False
            | d # digits \<Rightarrow> d = CHR ''.'' \<and> digits \<noteq> [] \<and> list_all is_digit digits)))"

text \<open>
  \<open>_get_option_tuples\<close>: only \<open>-h\<close> has a single dash, and no other option string starts with it. What
  follows the letter is kept with its \<open>=\<close>, if there is one.
\<close>

definition option_tuples :: "string list \<Rightarrow> string \<Rightarrow> (string \<times> string option) list" where
  "option_tuples names s =
     (if prefix ''--'' s
      then map (\<lambda>name. (name, after_equals s)) (filter (prefix (before_equals s)) names)
      else if take 2 s = ''-h'' then [(''-h'', Some (drop 2 s))]
      else [])"

definition parse_optional :: "string list \<Rightarrow> string \<Rightarrow> arg_class" where
  "parse_optional names s =
     (if \<not> prefix ''-'' s then Argument
      else if s \<in> set names then Option s None
      else if length s = 1 then Argument
      else if prefix ''--'' s \<and> after_equals s \<noteq> None \<and> before_equals s \<in> set names
        then Option (before_equals s) (after_equals s)
      else
        (case option_tuples names s of
           [(name, explicit)] \<Rightarrow> Option name explicit
         | _ # _ # _ \<Rightarrow> Ambiguous
         | [] \<Rightarrow> if negative_number s \<or> CHR '' '' \<in> set s then Argument else Unknown_Option))"

section \<open>Consuming the strings\<close>

text \<open>The strings of a command line with their classes; after \<open>--\<close> everything is an argument.\<close>

datatype arg_token = Word string | Opt string string "string option" | Unknown string | Dashes

fun tokens :: "string list \<Rightarrow> string list \<Rightarrow> arg_token list option" where
  "tokens names [] = Some []"
| "tokens names (s # argv) =
     (if s = ''--'' then Some (Dashes # map Word argv)
      else
        (case (parse_optional names s, tokens names argv) of
           (Ambiguous, _) \<Rightarrow> None
         | (_, None) \<Rightarrow> None
         | (Argument, Some ts) \<Rightarrow> Some (Word s # ts)
         | (Option name explicit, Some ts) \<Rightarrow> Some (Opt s name explicit # ts)
         | (Unknown_Option, Some ts) \<Rightarrow> Some (Unknown s # ts)))"

fun token_text :: "arg_token \<Rightarrow> string" where
  "token_text (Word s) = s"
| "token_text (Opt s name explicit) = s"
| "token_text (Unknown s) = s"
| "token_text Dashes = ''--''"

text \<open>
  The help option with an explicit argument: \<open>-hh\<close> is the option twice, and after any other letter the help comes
  before the letter is complained about. The exit code.
\<close>

fun help_with :: "string \<Rightarrow> nat" where
  "help_with [] = 0"
| "help_with (c # rest) =
     (if c = CHR ''='' \<or> c = CHR ''-'' then USAGE_ERROR else if c = CHR ''h'' then help_with rest else 0)"

definition help_exit :: "string \<Rightarrow> string option \<Rightarrow> nat" where
  "help_exit name explicit =
     (case explicit of None \<Rightarrow> 0 | Some rest \<Rightarrow> if name = ''-h'' then help_with rest else USAGE_ERROR)"

definition store_value :: "arg_option \<Rightarrow> string \<Rightarrow> arg_namespace \<Rightarrow> nat + arg_namespace" where
  "store_value opt v ns =
     (if admits (op_kind opt) v then Inr (ns\<lparr>ns_values := dict_set (ns_values ns) (op_name opt) v\<rparr>)
      else Inl USAGE_ERROR)"

definition store_flag :: "arg_parser \<Rightarrow> arg_option \<Rightarrow> arg_namespace \<Rightarrow> nat + arg_namespace" where
  "store_flag p opt ns =
     (if op_name opt \<in> set (ap_exclusive p) \<and> (\<exists>name \<in> set (ns_flags ns). name \<noteq> op_name opt \<and> name \<in> set (ap_exclusive p))
      then Inl USAGE_ERROR
      else Inr (ns\<lparr>ns_flags := op_name opt # ns_flags ns\<rparr>))"

fun consume :: "arg_parser \<Rightarrow> arg_token list \<Rightarrow> arg_namespace \<Rightarrow> string list \<Rightarrow> nat + arg_namespace \<times> string list" where
  "consume p [] ns extras = Inr (ns, extras)"
| "consume p (Word s # ts) ns extras =
     (if ap_positional p \<and> ns_positional ns = None
      then
        (case ts of
           Dashes # ts' \<Rightarrow> Inr (ns\<lparr>ns_positional := Some s\<rparr>, extras @ map token_text ts')
         | _ \<Rightarrow> consume p ts (ns\<lparr>ns_positional := Some s\<rparr>) extras)
      else consume p ts ns (extras @ [s]))"
| "consume p (Dashes # ts) ns extras =
     (if ap_positional p \<and> ns_positional ns = None \<and> ts \<noteq> []
      then Inr (ns\<lparr>ns_positional := Some (token_text (hd ts))\<rparr>, extras @ map token_text (tl ts))
      else Inr (ns, extras @ ''--'' # map token_text ts))"
| "consume p (Unknown s # ts) ns extras = consume p ts ns (extras @ [s])"
| "consume p (Opt s name explicit # ts) ns extras =
     (case find_option p name of
        None \<Rightarrow> Inl (help_exit name explicit)
      | Some opt \<Rightarrow>
          if \<not> takes_argument (op_kind opt)
          then
            (case explicit of
               None \<Rightarrow> bind (store_flag p opt ns) (\<lambda>ns. consume p ts ns extras)
             | Some _ \<Rightarrow> Inl USAGE_ERROR)
          else
            (case (explicit, ts) of
               (Some v, _) \<Rightarrow> bind (store_value opt v ns) (\<lambda>ns. consume p ts ns extras)
             | (None, Word v # ts') \<Rightarrow> bind (store_value opt v ns) (\<lambda>ns. consume p ts' ns extras)
             | _ \<Rightarrow> Inl USAGE_ERROR))"

definition missing_arguments :: "arg_parser \<Rightarrow> arg_namespace \<Rightarrow> bool" where
  "missing_arguments p ns \<longleftrightarrow>
     (\<exists>opt \<in> set (ap_options p). op_required opt \<and> op_name opt \<notin> fst ` set (ns_values ns)) \<or>
     ap_positional p \<and> ns_positional ns = None"

definition parse_known_args :: "arg_parser \<Rightarrow> string list \<Rightarrow> nat + arg_namespace \<times> string list" where
  "parse_known_args p argv =
     (case tokens (option_strings p) argv of
        None \<Rightarrow> Inl USAGE_ERROR
      | Some ts \<Rightarrow>
          bind (consume p ts no_arguments []) (\<lambda>(ns, extras).
            if missing_arguments p ns then Inl USAGE_ERROR else Inr (ns, extras)))"

definition parse_args :: "arg_parser \<Rightarrow> string list \<Rightarrow> nat + arg_namespace" where
  "parse_args p argv =
     bind (parse_known_args p argv) (\<lambda>(ns, extras). if extras = [] then Inr ns else Inl USAGE_ERROR)"

definition argument :: "arg_namespace \<Rightarrow> string \<Rightarrow> string option" where
  "argument ns name = map_of (ns_values ns) name"

definition flag_given :: "arg_namespace \<Rightarrow> string \<Rightarrow> bool" where
  "flag_given ns name \<longleftrightarrow> name \<in> set (ns_flags ns)"

section \<open>Settings on the command line\<close>

text \<open>
  A setting as a user writes it: an option with its value after \<open>=\<close> or as the next word, or a flag. The value in
  a word of its own must not look like an option.
\<close>

datatype setting = Equals string string | Spaced string string | Switched string

fun setting_words :: "setting \<Rightarrow> string list" where
  "setting_words (Equals name v) = [name @ CHR ''='' # v]"
| "setting_words (Spaced name v) = [name, v]"
| "setting_words (Switched name) = [name]"

fun setting_name :: "setting \<Rightarrow> string" where
  "setting_name (Equals name v) = name"
| "setting_name (Spaced name v) = name"
| "setting_name (Switched name) = name"

fun setting_tokens :: "setting \<Rightarrow> arg_token list" where
  "setting_tokens (Equals name v) = [Opt (name @ CHR ''='' # v) name (Some v)]"
| "setting_tokens (Spaced name v) = [Opt name name None, Word v]"
| "setting_tokens (Switched name) = [Opt name name None]"

fun take_setting :: "arg_namespace \<Rightarrow> setting \<Rightarrow> arg_namespace" where
  "take_setting ns (Equals name v) = ns\<lparr>ns_values := dict_set (ns_values ns) name v\<rparr>"
| "take_setting ns (Spaced name v) = ns\<lparr>ns_values := dict_set (ns_values ns) name v\<rparr>"
| "take_setting ns (Switched name) = ns\<lparr>ns_flags := name # ns_flags ns\<rparr>"

definition long_name :: "string \<Rightarrow> bool" where
  "long_name name \<longleftrightarrow> prefix ''--'' name \<and> 2 < length name \<and> CHR ''='' \<notin> set name \<and> name \<noteq> ''--help''"

definition parser_ok :: "arg_parser \<Rightarrow> bool" where
  "parser_ok p \<longleftrightarrow> distinct (map op_name (ap_options p)) \<and> list_all long_name (map op_name (ap_options p))"

fun setting_fits :: "arg_parser \<Rightarrow> setting \<Rightarrow> bool" where
  "setting_fits p (Equals name v) \<longleftrightarrow>
     (\<exists>opt \<in> set (ap_options p). op_name opt = name \<and> takes_argument (op_kind opt) \<and> admits (op_kind opt) v)"
| "setting_fits p (Spaced name v) \<longleftrightarrow>
     (\<exists>opt \<in> set (ap_options p). op_name opt = name \<and> takes_argument (op_kind opt) \<and> admits (op_kind opt) v) \<and>
     \<not> prefix ''-'' v"
| "setting_fits p (Switched name) \<longleftrightarrow>
     (\<exists>opt \<in> set (ap_options p). op_name opt = name \<and> \<not> takes_argument (op_kind opt)) \<and> name \<notin> set (ap_exclusive p)"

lemma find_option_in:
  assumes "parser_ok p" and "opt \<in> set (ap_options p)"
  shows "find_option p (op_name opt) = Some opt"
proof -
  have "find (\<lambda>q. op_name q = op_name opt) xs = Some opt"
    if "distinct (map op_name xs)" "opt \<in> set xs" for xs
    using that by (induction xs) force+
  with assms show ?thesis by (simp add: find_option_def parser_ok_def)
qed

lemma long_name_not_dashes: "long_name name \<Longrightarrow> name \<noteq> ''--'' \<and> name @ CHR ''='' # v \<noteq> ''--''"
  by (auto simp: long_name_def append_eq_Cons_conv)

lemma fits_name: "parser_ok p \<Longrightarrow> setting_fits p g \<Longrightarrow> setting_name g \<in> set (map op_name (ap_options p)) \<and> long_name (setting_name g)"
  by (cases g) (auto simp: parser_ok_def list_all_iff)

lemma partition_word:
  "CHR ''='' \<notin> set name \<Longrightarrow> before_equals (name @ CHR ''='' # v) = name \<and> after_equals (name @ CHR ''='' # v) = Some v"
  unfolding before_equals_def after_equals_def by (induction name) auto

lemma parse_option_name:
  "name \<in> set (map op_name (ap_options p)) \<Longrightarrow> long_name name \<Longrightarrow> parse_optional (option_strings p) name = Option name None"
  by (auto simp: parse_optional_def option_strings_def long_name_def prefix_def)

lemma equals_not_name: "parser_ok p \<Longrightarrow> n \<in> set (option_strings p) \<Longrightarrow> CHR ''='' \<notin> set n"
  by (auto simp: option_strings_def parser_ok_def list_all_iff long_name_def)

lemma parse_option_equals:
  assumes "parser_ok p" and "name \<in> set (map op_name (ap_options p))" and "long_name name"
  shows "parse_optional (option_strings p) (name @ CHR ''='' # v) = Option name (Some v)"
proof -
  have "CHR ''='' \<notin> set name" "prefix ''--'' name" using assms(3) by (simp_all add: long_name_def)
  moreover have "name @ CHR ''='' # v \<notin> set (option_strings p)" using equals_not_name [OF assms(1)] by fastforce
  moreover have "name \<in> set (option_strings p)" using assms(2) by (auto simp: option_strings_def)
  ultimately show ?thesis
    using partition_word [of name v] by (auto simp: parse_optional_def prefix_def)
qed

lemma tokens_settings:
  "parser_ok p \<Longrightarrow> list_all (setting_fits p) gs \<Longrightarrow>
     tokens (option_strings p) (concat (map setting_words gs)) = Some (concat (map setting_tokens gs))"
proof (induction gs)
  case (Cons g gs)
  then have n: "setting_name g \<in> set (map op_name (ap_options p))" "long_name (setting_name g)"
    using fits_name [of p g] by simp_all
  then have "setting_name g \<noteq> ''--''" "\<And>v. setting_name g @ CHR ''='' # v \<noteq> ''--''"
    using long_name_not_dashes by blast+
  moreover have "parse_optional (option_strings p) v = Argument" "v \<noteq> ''--''" if "\<not> prefix ''-'' v" for v
    using that by (auto simp: parse_optional_def)
  ultimately show ?case
    using Cons parse_option_name [OF n] parse_option_equals [OF Cons.prems(1) n] by (cases g) simp_all
qed simp

lemma consume_settings:
  assumes "parser_ok p" and "list_all (setting_fits p) gs"
  shows "consume p (concat (map setting_tokens gs)) ns extras = Inr (foldl take_setting ns gs, extras)"
  using assms(2)
proof (induction gs arbitrary: ns)
  case (Cons g gs)
  then show ?case
    using find_option_in [OF assms(1)]
    by (cases g) (auto simp: store_value_def store_flag_def)
qed simp

text \<open>A command line of settings that fit, with all required ones, is accepted, and read as it is meant.\<close>

lemma parse_settings:
  assumes "parser_ok p" and "list_all (setting_fits p) gs" and "\<not> missing_arguments p (foldl take_setting no_arguments gs)"
  shows "parse_args p (concat (map setting_words gs)) = Inr (foldl take_setting no_arguments gs)"
  using assms(3)
  by (simp add: parse_args_def parse_known_args_def tokens_settings [OF assms(1,2)] consume_settings [OF assms(1,2)])

fun setting_value :: "setting \<Rightarrow> (string \<times> string) option" where
  "setting_value (Equals name v) = Some (name, v)"
| "setting_value (Spaced name v) = Some (name, v)"
| "setting_value (Switched name) = None"

lemma setting_value_name: "setting_value g = Some (name, v) \<Longrightarrow> setting_name g = name"
  by (cases g) simp_all

lemma taken_settings:
  assumes "distinct (map setting_name gs)"
  shows "argument (foldl take_setting no_arguments gs) name = Some v \<longleftrightarrow> Some (name, v) \<in> setting_value ` set gs"
    and "flag_given (foldl take_setting no_arguments gs) name \<longleftrightarrow> Switched name \<in> set gs"
proof -
  have "(argument (foldl take_setting no_arguments gs) name = Some v \<longleftrightarrow> Some (name, v) \<in> setting_value ` set gs) \<and>
      (flag_given (foldl take_setting no_arguments gs) name \<longleftrightarrow> Switched name \<in> set gs)"
    using assms
  proof (induction gs rule: rev_induct)
    case Nil
    then show ?case by (simp add: argument_def flag_given_def no_arguments_def)
  next
    case (snoc g gs)
    have other: "Some (name, v) \<notin> setting_value ` set gs" if "setting_name g = name"
    proof
      assume "Some (name, v) \<in> setting_value ` set gs"
      then obtain h where "h \<in> set gs" "setting_value h = Some (name, v)" by force
      with setting_value_name have "setting_name h = name" by blast
      with \<open>h \<in> set gs\<close> that snoc.prems show False by (force simp: image_iff)
    qed
    from snoc have ih: "argument (foldl take_setting no_arguments gs) name = Some v \<longleftrightarrow> Some (name, v) \<in> setting_value ` set gs"
      "flag_given (foldl take_setting no_arguments gs) name \<longleftrightarrow> Switched name \<in> set gs"
      by simp_all
    show ?case
      using ih other by (cases g) (auto simp: argument_def flag_given_def)
  qed
  then show "argument (foldl take_setting no_arguments gs) name = Some v \<longleftrightarrow> Some (name, v) \<in> setting_value ` set gs"
    and "flag_given (foldl take_setting no_arguments gs) name \<longleftrightarrow> Switched name \<in> set gs"
    by blast+
qed

section \<open>What a program can rely on\<close>

definition values_admitted :: "arg_parser \<Rightarrow> arg_namespace \<Rightarrow> bool" where
  "values_admitted p ns \<longleftrightarrow>
     (\<forall>(name, v) \<in> set (ns_values ns). \<exists>opt. find_option p name = Some opt \<and> admits (op_kind opt) v)"

lemma store_value_admitted:
  assumes "store_value opt v ns = Inr n1" and "find_option p (op_name opt) = Some opt" and "values_admitted p ns"
  shows "values_admitted p n1"
  using assms set_dict_set [of "ns_values ns" "op_name opt" v]
  by (fastforce simp: store_value_def values_admitted_def split: if_splits)

lemma store_flag_admitted: "store_flag p opt ns = Inr n1 \<Longrightarrow> values_admitted p n1 \<longleftrightarrow> values_admitted p ns"
  by (auto simp: store_flag_def values_admitted_def split: if_splits)

lemma find_option_name: "find_option p name = Some opt \<Longrightarrow> op_name opt = name"
  by (auto simp: find_option_def find_Some_iff)

lemma store_exit:
  "store_value opt v ns = Inl code \<Longrightarrow> code = USAGE_ERROR" "store_flag p opt ns = Inl code \<Longrightarrow> code = USAGE_ERROR"
  by (auto simp: store_value_def store_flag_def split: if_splits)

text \<open>An option ends the program, or is stored, and the loop goes on behind its argument.\<close>

definition goes_on :: "arg_parser \<Rightarrow> arg_option \<Rightarrow> arg_token list \<Rightarrow> arg_namespace \<Rightarrow> string list
    \<Rightarrow> nat + arg_namespace \<times> string list \<Rightarrow> bool" where
  "goes_on p opt ts ns extras r \<longleftrightarrow>
     r = Inl USAGE_ERROR \<or>
     (\<exists>ns1 ts1. r = consume p ts1 ns1 extras \<and> length ts1 \<le> length ts \<and>
        (store_flag p opt ns = Inr ns1 \<or> (\<exists>v. store_value opt v ns = Inr ns1)))"

lemma goes_on_bind:
  assumes "m = store_flag p opt ns \<or> (\<exists>v. m = store_value opt v ns)" and "length ts1 \<le> length ts"
  shows "goes_on p opt ts ns extras (bind m (\<lambda>ns. consume p ts1 ns extras))"
proof (cases m)
  case (Inl code)
  with assms(1) store_exit have "code = USAGE_ERROR" by metis
  with Inl show ?thesis by (simp add: goes_on_def)
next
  case (Inr ns1)
  with assms(1) have "store_flag p opt ns = Inr ns1 \<or> (\<exists>v. store_value opt v ns = Inr ns1)" by metis
  with Inr assms(2) show ?thesis unfolding goes_on_def by (intro disjI2 exI [of _ ns1] exI [of _ ts1]) simp
qed

lemma consume_option:
  assumes "find_option p name = Some opt"
  shows "goes_on p opt ts ns extras (consume p (Opt s name explicit # ts) ns extras)"
proof (cases "takes_argument (op_kind opt)")
  case False
  with assms goes_on_bind [of "store_flag p opt ns" p opt ns ts ts extras] show ?thesis
    by (cases explicit) (simp_all add: goes_on_def)
next
  case True
  have storing: "goes_on p opt ts ns extras (bind (store_value opt v ns) (\<lambda>ns. consume p ts1 ns extras))"
    if "length ts1 \<le> length ts" for v ts1
    using that by (intro goes_on_bind) blast+
  have error: "goes_on p opt ts ns extras (Inl USAGE_ERROR)" by (simp add: goes_on_def)
  show ?thesis
  proof (cases explicit)
    case None
    with True assms storing error show ?thesis
      by (cases ts rule: list.exhaust; cases "hd ts") simp_all
  next
    case (Some v)
    with True assms storing show ?thesis by simp
  qed
qed

lemma consume_word:
  "(\<exists>q extras'. consume p (Word s # ts) ns extras = consume p ts (ns\<lparr>ns_positional := q\<rparr>) extras') \<or>
   (\<exists>q extras'. consume p (Word s # ts) ns extras = Inr (ns\<lparr>ns_positional := q\<rparr>, extras'))"
proof (cases "ap_positional p \<and> ns_positional ns = None")
  case True
  show ?thesis
  proof (cases "\<exists>rest. ts = Dashes # rest")
    case False
    with True have "consume p (Word s # ts) ns extras = consume p ts (ns\<lparr>ns_positional := Some s\<rparr>) extras"
      by (auto split: list.split arg_token.split)
    then show ?thesis by blast
  qed (use True in auto)
next
  case False
  then have "consume p (Word s # ts) ns extras = consume p ts (ns\<lparr>ns_positional := ns_positional ns\<rparr>) (extras @ [s])"
    by auto
  then show ?thesis by blast
qed

lemma consume_admitted:
  "consume p ts ns extras = Inr (ns', extras') \<Longrightarrow> values_admitted p ns \<Longrightarrow> values_admitted p ns'"
proof (induction "length ts" arbitrary: ts ns extras rule: less_induct)
  case less
  have admitted: "values_admitted p (ns\<lparr>ns_positional := q\<rparr>) \<longleftrightarrow> values_admitted p ns" for q and ns :: arg_namespace
    by (simp add: values_admitted_def)
  show ?case
  proof (cases ts)
    case (Cons t rest)
    show ?thesis
    proof (cases t)
      case (Word s)
      with consume_word [of p s rest ns extras] less(2) Cons
      consider q extras1 where "consume p rest (ns\<lparr>ns_positional := q\<rparr>) extras1 = Inr (ns', extras')"
        | q where "ns' = ns\<lparr>ns_positional := q\<rparr>"
        by auto
      then show ?thesis
      proof cases
        case 1
        from less(1) [OF _ this] less(3) Cons show ?thesis by (simp add: admitted)
      qed (use less(3) admitted in simp)
    next
      case (Opt s name explicit)
      show ?thesis
      proof (cases "find_option p name")
        case None
        with less(2) Cons Opt show ?thesis by simp
      next
        case (Some opt)
        then have found: "find_option p (op_name opt) = Some opt" by (simp add: find_option_name)
        have "goes_on p opt rest ns extras (Inr (ns', extras'))"
          using consume_option [OF Some, of rest ns extras s explicit] less(2) by (simp only: Cons Opt)
        then obtain ns1 ts1 where "consume p ts1 ns1 extras = Inr (ns', extras')" "length ts1 \<le> length rest"
          and "store_flag p opt ns = Inr ns1 \<or> (\<exists>v. store_value opt v ns = Inr ns1)"
          unfolding goes_on_def by force
        moreover from this(3) have "values_admitted p ns1"
          using store_flag_admitted store_value_admitted [OF _ found less(3)] less(3) by blast
        ultimately show ?thesis using less(1) [of ts1 ns1 extras] Cons by simp
      qed
    next
      case (Unknown s)
      with Cons less(2) have "consume p rest ns (extras @ [s]) = Inr (ns', extras')" by simp
      from less(1) [OF _ this less(3)] Cons show ?thesis by simp
    next
      case Dashes
      with Cons less(2,3) show ?thesis by (auto simp: admitted split: if_splits)
    qed
  qed (use less in simp)
qed

text \<open>What \<open>parse_args\<close> returns has the required arguments, and only values their options admit.\<close>

lemma parse_args_admitted:
  assumes "parse_args p argv = Inr ns"
  shows "values_admitted p ns \<and> \<not> missing_arguments p ns"
proof -
  obtain ts where "consume p ts no_arguments [] = Inr (ns, [])" "\<not> missing_arguments p ns"
    using assms by (auto simp: parse_args_def parse_known_args_def result_iff split: option.splits if_splits)
  moreover have "values_admitted p no_arguments" by (simp add: values_admitted_def no_arguments_def)
  ultimately show ?thesis using consume_admitted by blast
qed

lemma help_with_exit: "help_with rest = 0 \<or> help_with rest = USAGE_ERROR"
  by (induction rest) auto

lemma consume_exit: "consume p ts ns extras = Inl code \<Longrightarrow> code = 0 \<or> code = USAGE_ERROR"
proof (induction "length ts" arbitrary: ts ns extras rule: less_induct)
  case less
  show ?case
  proof (cases ts)
    case (Cons t rest)
    show ?thesis
    proof (cases t)
      case (Word s)
      with consume_word [of p s rest ns extras] less(2) Cons
      obtain q extras1 where "consume p rest (ns\<lparr>ns_positional := q\<rparr>) extras1 = Inl code" by auto
      with less(1) Cons show ?thesis by auto
    next
      case (Opt s name explicit)
      show ?thesis
      proof (cases "find_option p name")
        case None
        with less(2) Cons Opt help_with_exit show ?thesis by (auto simp: help_exit_def split: option.splits if_splits)
      next
        case (Some opt)
        have "goes_on p opt rest ns extras (Inl code)"
          using consume_option [OF Some, of rest ns extras s explicit] less(2) by (simp only: Cons Opt)
        then consider "code = USAGE_ERROR" | ns1 ts1 where "consume p ts1 ns1 extras = Inl code" "length ts1 \<le> length rest"
          unfolding goes_on_def by force
        then show ?thesis
        proof cases
          case (2 ns1 ts1)
          from less(1) [OF _ 2(1)] 2(2) Cons show ?thesis by simp
        qed simp
      qed
    next
      case (Unknown s)
      with Cons less(2) have "consume p rest ns (extras @ [s]) = Inl code" by simp
      with less(1) Cons show ?thesis by auto
    next
      case Dashes
      with Cons less(2) show ?thesis by (auto split: if_splits)
    qed
  qed (use less in simp)
qed

lemma parse_args_exit: "parse_args p argv = Inl code \<Longrightarrow> code = 0 \<or> code = USAGE_ERROR"
  using consume_exit by (auto simp: parse_args_def parse_known_args_def result_iff split: option.splits if_splits)

end
