(* ===== verification/Command_Lines.thy ===== *)
theory Command_Lines
  imports Arguments "HOL-Library.Multiset"
begin

text \<open>
  The parsers of the four programs - \<open>build_parser\<close> of \<open>bridge.py\<close>, \<open>cli.py\<close> and \<open>scripts/probe_media.py\<close>, and
  the parser in \<open>main\<close> of \<open>app_runtime.py\<close> -, and what their \<open>main\<close> functions read from the namespace. The
  lemmas say that the settings of a program can be given on its command line, and that a program never
  goes on without them.
\<close>

text \<open>
  How a program ends: its \<open>main\<close> returns, \<open>SystemExit\<close> with a code or with a text (printed, code 1), or
  another exception.
\<close>

datatype 'a program_end = Returns 'a | System_Exit nat | Exit_Text string | Raises exn

fun ending :: "'a result \<Rightarrow> 'a program_end" where
  "ending (Inr v) = Returns v"
| "ending (Inl e) = Raises e"

section \<open>The bridge\<close>

definition bridge_parser :: arg_parser where
  "bridge_parser =
     \<lparr>ap_options =
        [\<lparr>op_name = ''--config'', op_kind = Store, op_required = True\<rparr>,
         \<lparr>op_name = ''--control-token'', op_kind = Store, op_required = False\<rparr>,
         \<lparr>op_name = ''--control-state'', op_kind = Store, op_required = False\<rparr>,
         \<lparr>op_name = ''--log-level'', op_kind = Choices [''debug'', ''info'', ''warning'', ''error''], op_required = False\<rparr>,
         \<lparr>op_name = ''--verbose'', op_kind = Store_True, op_required = False\<rparr>],
      ap_positional = False, ap_exclusive = []\<rparr>"

record bridge_args =
  ba_config :: string
  ba_control_token :: "string option"
  ba_control_state :: "string option"
  ba_log_level :: string
  ba_verbose :: bool

definition bridge_args_of :: "arg_namespace \<Rightarrow> bridge_args" where
  "bridge_args_of ns =
     \<lparr>ba_config = the (argument ns ''--config''), ba_control_token = argument ns ''--control-token'',
      ba_control_state = argument ns ''--control-state'',
      ba_log_level = (case argument ns ''--log-level'' of None \<Rightarrow> ''info'' | Some l \<Rightarrow> l),
      ba_verbose = flag_given ns ''--verbose''\<rparr>"

definition parse_bridge_args :: "string list \<Rightarrow> nat + bridge_args" where
  "parse_bridge_args argv = map_sum id bridge_args_of (parse_args bridge_parser argv)"

text \<open>The level \<open>logging.basicConfig\<close> is called with, by the name of the constant.\<close>

definition upper_char :: "char \<Rightarrow> char" where
  "upper_char c = (let n = of_char c :: nat in if 97 \<le> n \<and> n \<le> 122 then char_of (n - 32) else c)"

definition logging_level :: "bridge_args \<Rightarrow> string" where
  "logging_level args = (if ba_verbose args then ''DEBUG'' else map upper_char (ba_log_level args))"

lemma upper_levels:
  "map upper_char ''debug'' = ''DEBUG''" "map upper_char ''info'' = ''INFO''"
  "map upper_char ''warning'' = ''WARNING''" "map upper_char ''error'' = ''ERROR''"
  by code_simp+

section \<open>The app runtime\<close>

definition app_parser :: arg_parser where
  "app_parser =
     \<lparr>ap_options =
        [\<lparr>op_name = ''--options'', op_kind = Store, op_required = False\<rparr>,
         \<lparr>op_name = ''--data-dir'', op_kind = Store, op_required = False\<rparr>,
         \<lparr>op_name = ''--supervisor-url'', op_kind = Store, op_required = False\<rparr>],
      ap_positional = False, ap_exclusive = []\<rparr>"

record app_args =
  aa_options :: string
  aa_data_dir :: string
  aa_supervisor_url :: string

definition argument_or :: "arg_namespace \<Rightarrow> string \<Rightarrow> string \<Rightarrow> string" where
  "argument_or ns name otherwise = (case argument ns name of None \<Rightarrow> otherwise | Some v \<Rightarrow> v)"

definition app_args_of :: "arg_namespace \<Rightarrow> app_args" where
  "app_args_of ns =
     \<lparr>aa_options = argument_or ns ''--options'' ''/data/options.json'',
      aa_data_dir = argument_or ns ''--data-dir'' ''/data'',
      aa_supervisor_url = argument_or ns ''--supervisor-url'' ''http://supervisor''\<rparr>"

definition parse_app_args :: "string list \<Rightarrow> nat + app_args" where
  "parse_app_args argv = map_sum id app_args_of (parse_args app_parser argv)"

section \<open>The probe\<close>

text \<open>\<open>is_float\<close> is that \<open>float\<close> accepts a text.\<close>

definition probe_parser :: "(string \<Rightarrow> bool) \<Rightarrow> arg_parser" where
  "probe_parser is_float =
     \<lparr>ap_options =
        [\<lparr>op_name = ''--config'', op_kind = Store, op_required = True\<rparr>,
         \<lparr>op_name = ''--camera'', op_kind = Store, op_required = False\<rparr>,
         \<lparr>op_name = ''--duration'', op_kind = Typed is_float, op_required = False\<rparr>,
         \<lparr>op_name = ''--start-audio'', op_kind = Store_True, op_required = False\<rparr>],
      ap_positional = False, ap_exclusive = []\<rparr>"

text \<open>\<open>float\<close> returns the duration in milliseconds; \<open>None\<close> is its \<open>ValueError\<close>. The default is 20 seconds.\<close>

record probe_args =
  pa_config :: string
  pa_camera :: "string option"
  pa_duration :: int
  pa_start_audio :: bool

definition probe_args_of :: "(string \<Rightarrow> int option) \<Rightarrow> arg_namespace \<Rightarrow> probe_args" where
  "probe_args_of to_float ns =
     \<lparr>pa_config = the (argument ns ''--config''), pa_camera = argument ns ''--camera'',
      pa_duration = (case argument ns ''--duration'' of None \<Rightarrow> 20000 | Some t \<Rightarrow> the (to_float t)),
      pa_start_audio = flag_given ns ''--start-audio''\<rparr>"

definition parse_probe_args :: "(string \<Rightarrow> int option) \<Rightarrow> string list \<Rightarrow> nat + probe_args" where
  "parse_probe_args to_float argv =
     map_sum id (probe_args_of to_float) (parse_args (probe_parser (\<lambda>t. to_float t \<noteq> None)) argv)"

section \<open>The command line tool\<close>

definition decode_parser :: arg_parser where
  "decode_parser =
     \<lparr>ap_options =
        [\<lparr>op_name = ''--udp'', op_kind = Store_True, op_required = False\<rparr>,
         \<lparr>op_name = ''--tcp'', op_kind = Store_True, op_required = False\<rparr>],
      ap_positional = True, ap_exclusive = [''--udp'', ''--tcp'']\<rparr>"

record cli_args =
  ca_hex_packet :: string
  ca_udp :: bool
  ca_tcp :: bool

definition cli_args_of :: "arg_namespace \<Rightarrow> cli_args" where
  "cli_args_of ns =
     \<lparr>ca_hex_packet = the (ns_positional ns), ca_udp = flag_given ns ''--udp'', ca_tcp = flag_given ns ''--tcp''\<rparr>"

text \<open>
  The parser of the tool itself: everything from the first argument on goes to the subparser, whose name is
  checked; an unknown option before it is complained about in the end.
\<close>

fun parse_cli_args :: "string list \<Rightarrow> nat + cli_args" where
  "parse_cli_args [] = Inl USAGE_ERROR"
| "parse_cli_args (s # argv) =
     (if s = ''--'' then Inl USAGE_ERROR
      else
        (case parse_optional [''-h'', ''--help''] s of
           Argument \<Rightarrow>
             if s = ''decode'' then map_sum id cli_args_of (parse_args decode_parser argv) else Inl USAGE_ERROR
         | Option name explicit \<Rightarrow>
             Inl (help_exit name explicit)
         | Ambiguous \<Rightarrow> Inl USAGE_ERROR
         | Unknown_Option \<Rightarrow> (case parse_cli_args argv of Inl code \<Rightarrow> Inl code | Inr _ \<Rightarrow> Inl USAGE_ERROR)))"

section \<open>Settings of the bridge\<close>

lemma parsers_ok: "parser_ok bridge_parser" "parser_ok app_parser" "parser_ok (probe_parser is_float)" "parser_ok decode_parser"
  by (simp_all add: parser_ok_def bridge_parser_def app_parser_def probe_parser_def decode_parser_def long_name_def)

text \<open>What a user writes for given arguments of the bridge, each setting in one of its two forms.\<close>

fun one_word :: "setting \<Rightarrow> setting" where
  "one_word (Spaced name v) = Equals name v"
| "one_word g = g"

fun plain_value :: "setting \<Rightarrow> bool" where
  "plain_value (Spaced name v) \<longleftrightarrow> \<not> prefix ''-'' v"
| "plain_value _ \<longleftrightarrow> True"

definition bridge_settings_of :: "bridge_args \<Rightarrow> setting list" where
  "bridge_settings_of args =
     Equals ''--config'' (ba_config args) # Equals ''--log-level'' (ba_log_level args) #
     (case ba_control_token args of None \<Rightarrow> [] | Some t \<Rightarrow> [Equals ''--control-token'' t]) @
     (case ba_control_state args of None \<Rightarrow> [] | Some t \<Rightarrow> [Equals ''--control-state'' t]) @
     (if ba_verbose args then [Switched ''--verbose''] else [])"

lemma one_word_simps [simp]: "setting_name (one_word g) = setting_name g" "setting_value (one_word g) = setting_value g"
  "one_word g = Switched name \<longleftrightarrow> g = Switched name"
  by (cases g; simp)+

lemma one_word_fits: "setting_fits p (one_word g) \<Longrightarrow> plain_value g \<Longrightarrow> setting_fits p g"
  by (cases g) simp_all

lemma bridge_settings_fit:
  "ba_log_level args \<in> {''debug'', ''info'', ''warning'', ''error''} \<Longrightarrow> list_all (setting_fits bridge_parser) (bridge_settings_of args)"
  by (auto simp: bridge_settings_of_def bridge_parser_def split: option.split)

lemma bridge_settings_distinct: "distinct (map setting_name (bridge_settings_of args))"
  by (simp add: bridge_settings_of_def split: option.split)

lemma bridge_settings_values:
  "Some (''--config'', v) \<in> setting_value ` set (bridge_settings_of args) \<longleftrightarrow> v = ba_config args"
  "Some (''--log-level'', v) \<in> setting_value ` set (bridge_settings_of args) \<longleftrightarrow> v = ba_log_level args"
  "Some (''--control-token'', v) \<in> setting_value ` set (bridge_settings_of args) \<longleftrightarrow> ba_control_token args = Some v"
  "Some (''--control-state'', v) \<in> setting_value ` set (bridge_settings_of args) \<longleftrightarrow> ba_control_state args = Some v"
  "Switched ''--verbose'' \<in> set (bridge_settings_of args) \<longleftrightarrow> ba_verbose args"
  by (auto simp: bridge_settings_of_def split: option.splits)

lemma option_eqI: "(\<And>v. x = Some v \<longleftrightarrow> y = Some v) \<Longrightarrow> x = y"
  by (cases x; cases y) auto

lemma bridge_settings_read:
  assumes "ba_log_level args \<in> {''debug'', ''info'', ''warning'', ''error''}"
    and "mset (map one_word gs) = mset (bridge_settings_of args)" and "list_all plain_value gs"
  shows "parse_bridge_args (concat (map setting_words gs)) = Inr args"
proof -
  let ?ns = "foldl take_setting no_arguments gs"
  have sets: "one_word ` set gs = set (bridge_settings_of args)"
    using arg_cong [OF assms(2), of set_mset] by simp
  have "map setting_name gs = map setting_name (map one_word gs)" by simp
  then have "mset (map setting_name gs) = mset (map setting_name (bridge_settings_of args))"
    using arg_cong [OF assms(2), of "image_mset setting_name"] by (simp only: mset_map)
  then have distinct: "distinct (map setting_name gs)"
    using bridge_settings_distinct mset_eq_imp_distinct_iff by blast
  have "setting_fits bridge_parser g" if "g \<in> set gs" for g
    using that sets bridge_settings_fit [OF assms(1)] assms(3) one_word_fits
    by (metis (no_types, lifting) image_eqI list_all_iff)
  then have fits: "list_all (setting_fits bridge_parser) gs" by (simp add: list_all_iff)
  have vals: "setting_value ` set gs = setting_value ` set (bridge_settings_of args)"
    unfolding sets [symmetric] image_image by simp
  have given: "argument ?ns name = Some v \<longleftrightarrow> Some (name, v) \<in> setting_value ` set (bridge_settings_of args)" for name v
    using taken_settings(1) [OF distinct] vals by simp
  have "Switched name \<in> set gs \<longleftrightarrow> Switched name \<in> set (bridge_settings_of args)" for name
    unfolding sets [symmetric] image_iff using one_word_simps(3) by metis
  then have flags: "flag_given ?ns ''--verbose'' = ba_verbose args"
    using taken_settings(2) [OF distinct] bridge_settings_values(5) by simp
  have config: "argument ?ns ''--config'' = Some (ba_config args)"
    and level: "argument ?ns ''--log-level'' = Some (ba_log_level args)"
    unfolding given bridge_settings_values by simp_all
  have tokens: "argument ?ns ''--control-token'' = ba_control_token args"
      "argument ?ns ''--control-state'' = ba_control_state args"
    by (rule option_eqI; simp only: given bridge_settings_values)+
  have "''--config'' \<in> fst ` set (ns_values ?ns)"
    using config by (force simp: argument_def dest: map_of_SomeD)
  then have "\<not> missing_arguments bridge_parser ?ns"
    by (simp add: missing_arguments_def bridge_parser_def)
  from parse_settings [OF parsers_ok(1) fits this] show ?thesis
    by (simp add: parse_bridge_args_def bridge_args_of_def config level tokens flags)
qed

text \<open>
  C38. The command line of the bridge. Every setting can be given: the words for any arguments with one of the four log
  levels - in any order, each option with its value after \<open>=\<close> or, when it does not look like an option, as the
  next word - are read as these arguments. Conversely, whatever the words are, \<open>main\<close> only goes on with a
  configuration file and one of the four levels, which \<open>logging\<close> knows, and otherwise ends with exit code 0
  (after the help) or 2.
\<close>

theorem bridge_command_line:
  "(ba_log_level args \<in> {''debug'', ''info'', ''warning'', ''error''} \<longrightarrow>
      mset (map one_word gs) = mset (bridge_settings_of args) \<longrightarrow> list_all plain_value gs \<longrightarrow>
      parse_bridge_args (concat (map setting_words gs)) = Inr args) \<and>
   (case parse_bridge_args argv of
      Inl code \<Rightarrow> code = 0 \<or> code = 2
    | Inr a \<Rightarrow>
        (\<exists>ns. parse_args bridge_parser argv = Inr ns \<and> argument ns ''--config'' = Some (ba_config a)) \<and>
        ba_log_level a \<in> {''debug'', ''info'', ''warning'', ''error''} \<and>
        logging_level a \<in> {''DEBUG'', ''INFO'', ''WARNING'', ''ERROR''})"
proof (intro conjI impI)
  show "case parse_bridge_args argv of
      Inl code \<Rightarrow> code = 0 \<or> code = 2
    | Inr a \<Rightarrow>
        (\<exists>ns. parse_args bridge_parser argv = Inr ns \<and> argument ns ''--config'' = Some (ba_config a)) \<and>
        ba_log_level a \<in> {''debug'', ''info'', ''warning'', ''error''} \<and>
        logging_level a \<in> {''DEBUG'', ''INFO'', ''WARNING'', ''ERROR''}"
  proof (cases "parse_args bridge_parser argv")
    case (Inl code)
    with parse_args_exit show ?thesis by (auto simp: parse_bridge_args_def USAGE_ERROR_def)
  next
    case (Inr ns)
    then have ns: "values_admitted bridge_parser ns" "\<not> missing_arguments bridge_parser ns"
      using parse_args_admitted by blast+
    from ns(2) have "''--config'' \<in> fst ` set (ns_values ns)"
      by (simp add: missing_arguments_def bridge_parser_def)
    then obtain c where config: "argument ns ''--config'' = Some c"
      by (metis argument_def map_of_eq_None_iff not_None_eq)
    have level: "ba_log_level (bridge_args_of ns) \<in> {''debug'', ''info'', ''warning'', ''error''}"
    proof (cases "argument ns ''--log-level''")
      case (Some l)
      then have "(''--log-level'', l) \<in> set (ns_values ns)" by (simp add: argument_def map_of_SomeD)
      with ns(1) have "\<exists>opt. find_option bridge_parser ''--log-level'' = Some opt \<and> admits (op_kind opt) l"
        by (auto simp: values_admitted_def)
      then show ?thesis by (simp add: bridge_args_of_def Some find_option_def bridge_parser_def)
    qed (simp add: bridge_args_of_def)
    moreover from level have "logging_level (bridge_args_of ns) \<in> {''DEBUG'', ''INFO'', ''WARNING'', ''ERROR''}"
      by (elim insertE emptyE) (simp_all only: logging_level_def upper_levels insert_iff simp_thms split: if_split)
    ultimately show ?thesis
      using Inr config by (simp add: parse_bridge_args_def bridge_args_of_def)
  qed
qed (rule bridge_settings_read)

lemma bridge_command_line_witness:
  "parse_bridge_args [''--log-level=debug'', ''--config'', ''/data/bridge.json''] =
     Inr \<lparr>ba_config = ''/data/bridge.json'', ba_control_token = None, ba_control_state = None, ba_log_level = ''debug'',
       ba_verbose = False\<rparr>"
  using bridge_command_line [where args = "\<lparr>ba_config = ''/data/bridge.json'', ba_control_token = None,
      ba_control_state = None, ba_log_level = ''debug'', ba_verbose = False\<rparr>"
      and gs = "[Equals ''--log-level'' ''debug'', Spaced ''--config'' ''/data/bridge.json'']" and argv = "[]"]
  by (simp add: bridge_settings_of_def)

end
