(* ===== verification/Bridge_Main.thy ===== *)
theory Bridge_Main
  imports Bridge_HTTP Command_Lines
begin

text \<open>
  \<open>BridgeHTTPServer\<close> and \<open>main\<close> of \<open>ino_a9_bridge/src/wificam_bridge/bridge.py\<close>: what the program
  starts from its configuration and its options, and how it ends.
\<close>

section \<open>The server and the main program\<close>

text \<open>The arguments \<open>controls\<close>, \<open>control_token\<close> and \<open>control_state\<close> of \<open>BridgeHTTPServer\<close>.\<close>

definition server_api :: "'c option \<Rightarrow> 't option \<Rightarrow> 'u option \<Rightarrow> ('c \<times> 't \<times> 'u) option result" where
  "server_api controls token state =
     (case (controls, token, state) of
        (None, None, None) \<Rightarrow> Inr None
      | (Some c, Some t, Some s) \<Rightarrow> Inr (Some (c, t, s))
      | _ \<Rightarrow> Inl (ValueError ''controls, control_token, and control_state must be provided together''))"

text \<open>
  \<open>main\<close> up to \<open>serve_forever\<close>. The options \<open>--control-token\<close> and \<open>--control-state\<close> are file names,
  \<open>config\<close>, \<open>token\<close> and \<open>state_file\<close> are what reading their files
  returns or raises, the last one with the JSON decoded. \<open>parser\<close> is not a name in \<open>main\<close>.
\<close>

definition main_control_state :: "string option \<Rightarrow> string option \<Rightarrow> json result \<Rightarrow> exn option list \<Rightarrow> string list
    \<Rightarrow> control_store option result" where
  "main_control_state control_token control_state state_file writes names =
     (if (control_token = None) \<noteq> (control_state = None)
        then Inl (NameError ''name 'parser' is not defined'')
      else if control_token \<noteq> None \<and> control_state \<noteq> None
        then bind (control_state_store state_file writes names) (\<lambda>st. Inr (Some st))
      else Inr None)"

definition bridge_main :: "cipher_suite \<Rightarrow> (nat \<Rightarrow> reader_act list) \<Rightarrow> (json \<Rightarrow> string) \<Rightarrow> (string \<Rightarrow> json result)
    \<Rightarrow> (bytes \<Rightarrow> json option) \<Rightarrow> string result \<Rightarrow> string option \<Rightarrow> string option \<Rightarrow> string result \<Rightarrow> json result
    \<Rightarrow> exn option list \<Rightarrow> (server \<times> control_store option) result" where
  "bridge_main cs plan py_repr json_loads body_loads config control_token control_state token state_file writes =
     bind (load_config py_repr json_loads config) (\<lambda>settings.
       let names = map cam_name (cameras settings) in
       bind (main_control_state control_token control_state state_file writes names) (\<lambda>st.
       bind (server_api (if st = None then None else Some names) control_token st) (\<lambda>args.
         Inr (\<lparr>sv_names = names,
               sv_api = (case args of None \<Rightarrow> None
                         | Some _ \<Rightarrow> Some (worker_api cs plan names token body_loads))\<rparr>, st))))"

text \<open>
  The whole of \<open>main\<close>: the workers are started before the options are looked at; \<open>listen\<close> is the exception
  with which the server cannot be bound to its address, if any - its constructor comes before the \<open>try\<close> -,
  \<open>serving\<close> is all that happens in \<open>serve_forever\<close>, and how it ends. The clauses \<open>except\<close> and \<open>finally\<close> come after
  it; \<open>join\<close> waits for the end of each worker.
\<close>

datatype serve_end = Returned | Keyboard_Interrupt | Raised exn

definition start_workers :: "(string \<Rightarrow> (exn + net_event list) list) \<Rightarrow> (string \<Rightarrow> exn option list)
    \<Rightarrow> camera_settings list \<Rightarrow> workers \<Rightarrow> workers" where
  "start_workers dials sends cams ws =
     foldl (\<lambda>ws cam. ws(cam_name cam :=
       snd (worker_begin (cam_credentials cam) (dials (cam_name cam)) (sends (cam_name cam)) (ws (cam_name cam))))) ws cams"

definition stop_workers :: "string list \<Rightarrow> workers \<Rightarrow> workers" where
  "stop_workers names ws = foldl (\<lambda>ws name. ws(name := snd (worker_end (ws name)))) ws names"

definition serve_result :: "serve_end \<Rightarrow> nat result" where
  "serve_result e = (case e of Raised x \<Rightarrow> Inl x | _ \<Rightarrow> Inr 0)"

definition bridge_run :: "cipher_suite \<Rightarrow> (nat \<Rightarrow> reader_act list) \<Rightarrow> (json \<Rightarrow> string) \<Rightarrow> (string \<Rightarrow> json result)
    \<Rightarrow> (bytes \<Rightarrow> json option) \<Rightarrow> string result \<Rightarrow> string option \<Rightarrow> string option \<Rightarrow> string result \<Rightarrow> json result
    \<Rightarrow> exn option list \<Rightarrow> (string \<Rightarrow> (exn + net_event list) list) \<Rightarrow> (string \<Rightarrow> exn option list)
    \<Rightarrow> (string \<Rightarrow> int \<Rightarrow> exn option) \<Rightarrow> (server \<Rightarrow> control_store option \<Rightarrow> workers \<Rightarrow> serve_end \<times> workers)
    \<Rightarrow> (nat, workers) op" where
  "bridge_run cs plan py_repr json_loads body_loads config control_token control_state token state_file writes
     dials sends listen serving ws =
     (case load_config py_repr json_loads config of
        Inl e \<Rightarrow> (Inl e, ws)
      | Inr settings \<Rightarrow>
          let ws = start_workers dials sends (cameras settings) ws in
          (case bridge_main cs plan py_repr json_loads body_loads config control_token control_state token state_file writes of
             Inl e \<Rightarrow> (Inl e, ws)
           | Inr (sv, st) \<Rightarrow>
               (case listen (listen_host settings) (listen_port settings) of
                  Some e \<Rightarrow> (Inl e, ws)
                | None \<Rightarrow>
                    (case serving sv st ws of
                       (e, ws) \<Rightarrow> (serve_result e, stop_workers (sv_names sv) ws)))))"

text \<open>
  The program from its arguments on; \<open>read_file\<close> is what \<open>read_text\<close> returns or raises for a path. The state
  file is decoded as JSON by the store.
\<close>

definition read_option :: "(string \<Rightarrow> string result) \<Rightarrow> string option \<Rightarrow> string result" where
  "read_option read_file path =
     (case path of None \<Rightarrow> Inl (FileNotFoundError ''No such file or directory'') | Some p \<Rightarrow> read_file p)"

definition bridge_program :: "cipher_suite \<Rightarrow> (nat \<Rightarrow> reader_act list) \<Rightarrow> (json \<Rightarrow> string) \<Rightarrow> (string \<Rightarrow> json result)
    \<Rightarrow> (bytes \<Rightarrow> json option) \<Rightarrow> (string \<Rightarrow> string result) \<Rightarrow> exn option list \<Rightarrow> (string \<Rightarrow> (exn + net_event list) list)
    \<Rightarrow> (string \<Rightarrow> exn option list) \<Rightarrow> (string \<Rightarrow> int \<Rightarrow> exn option)
    \<Rightarrow> (server \<Rightarrow> control_store option \<Rightarrow> workers \<Rightarrow> serve_end \<times> workers)
    \<Rightarrow> string list \<Rightarrow> workers \<Rightarrow> nat program_end \<times> workers" where
  "bridge_program cs plan py_repr json_loads body_loads read_file writes dials sends listen serving argv ws =
     (case parse_bridge_args argv of
        Inl code \<Rightarrow> (System_Exit code, ws)
      | Inr args \<Rightarrow>
          (case bridge_run cs plan py_repr json_loads body_loads (read_file (ba_config args)) (ba_control_token args)
                  (ba_control_state args) (read_option read_file (ba_control_token args))
                  (bind (read_option read_file (ba_control_state args)) json_loads) writes dials sends listen serving ws of
             (r, ws) \<Rightarrow> (ending r, ws)))"

text \<open>
  Once the server runs, \<open>main\<close> ends with every worker stopped, and with exit code 0 unless the server
  raised; a failure before that leaves the started workers to the end of the process.
\<close>

lemma stop_workers_session: "wk_session (stop_workers names ws name) = (if name \<in> set names then None else wk_session (ws name))"
proof (induction names rule: rev_induct)
  case (snoc n names)
  have "stop_workers (names @ [n]) ws = (let ws = stop_workers names ws in ws(n := snd (worker_end (ws n))))"
    by (simp add: stop_workers_def Let_def)
  with snoc show ?case by (simp add: worker_end_def Let_def)
qed (simp add: stop_workers_def)

lemma bridge_run_ends:
  assumes "bridge_main cs plan py_repr json_loads body_loads config control_token control_state token state_file writes =
      Inr (sv, st)"
    and "bridge_run cs plan py_repr json_loads body_loads config control_token control_state token state_file writes
      dials sends listen serving ws = (r, ws')"
    and "listen = (\<lambda>host port. None)"
  shows "(\<forall>name \<in> set (sv_names sv). on_session m (ws' name) = (Inl (CameraUnavailable ''camera worker is stopped''), ws' name)) \<and>
    (r = Inr 0 \<or> (\<exists>e. r = Inl e \<and> (\<exists>v. fst (serving sv st v) = Raised e)))"
proof -
  obtain settings where "load_config py_repr json_loads config = Inr settings"
    using assms(1) by (auto simp: bridge_main_def result_iff)
  with assms obtain e v where "serving sv st (start_workers dials sends (cameras settings) ws) = (e, v)"
    and r: "r = serve_result e" "ws' = stop_workers (sv_names sv) v"
    by (auto simp: bridge_run_def Let_def split: prod.splits)
  then have "fst (serving sv st (start_workers dials sends (cameras settings) ws)) = e" by simp
  with r show ?thesis
    by (cases e) (auto simp: serve_result_def on_session_def stop_workers_session)
qed

lemma started_worker: "wk_session (snd (worker_begin creds dials sends w)) \<noteq> None"
  by (simp add: worker_begin_def camera_client_def DEFAULT_FRAME_TIMEOUT_def open_session_def camera_session_def
      session_start_def)

lemma start_workers_session: "name \<in> cam_name ` set cams \<Longrightarrow> wk_session (start_workers dials sends cams ws name) \<noteq> None"
proof (induction cams rule: rev_induct)
  case (snoc cam cams)
  have "start_workers dials sends (cams @ [cam]) ws = (start_workers dials sends cams ws)(cam_name cam :=
      snd (worker_begin (cam_credentials cam) (dials (cam_name cam)) (sends (cam_name cam))
        (start_workers dials sends cams ws (cam_name cam))))"
    by (simp add: start_workers_def)
  with snoc started_worker show ?case by auto
qed simp

lemma bridge_main_starts:
  assumes "load_config py_repr json_loads config = Inr settings"
    and "main_control_state control_token control_state state_file writes (map cam_name (cameras settings)) = Inr st"
  obtains sv where "bridge_main cs plan py_repr json_loads body_loads config control_token control_state token state_file
      writes = Inr (sv, st)"
    and "sv_names sv = map cam_name (cameras settings)" and "sv_api sv \<noteq> None \<longleftrightarrow> control_token \<noteq> None"
proof -
  let ?names = "map cam_name (cameras settings)"
  have opts: "st \<noteq> None \<longleftrightarrow> control_token \<noteq> None"
    using assms(2) by (auto simp: main_control_state_def result_iff split: if_splits)
  show thesis
  proof (rule that)
    show "bridge_main cs plan py_repr json_loads body_loads config control_token control_state token state_file writes =
        Inr (\<lparr>sv_names = ?names,
          sv_api = (case st of None \<Rightarrow> None | Some _ \<Rightarrow> Some (worker_api cs plan ?names token body_loads))\<rparr>, st)"
      using assms opts by (cases control_token; cases st) (simp_all add: bridge_main_def server_api_def Let_def)
  qed (use opts in \<open>auto split: option.split\<close>)
qed

lemma bridge_run_serves:
  assumes "load_config py_repr json_loads config = Inr settings"
    and "main_control_state control_token control_state state_file writes (map cam_name (cameras settings)) = Inr st"
  obtains sv where "sv_names sv = map cam_name (cameras settings)" and "sv_api sv \<noteq> None \<longleftrightarrow> control_token \<noteq> None"
    and "bridge_run cs plan py_repr json_loads body_loads config control_token control_state token state_file writes
        dials sends listen serving ws =
      (case listen (listen_host settings) (listen_port settings) of
         Some e \<Rightarrow> (Inl e, start_workers dials sends (cameras settings) ws)
       | None \<Rightarrow>
           (case serving sv st (start_workers dials sends (cameras settings) ws) of
              (e, served) \<Rightarrow> (serve_result e, stop_workers (map cam_name (cameras settings)) served)))"
proof -
  obtain sv where main: "bridge_main cs plan py_repr json_loads body_loads config control_token control_state token
      state_file writes = Inr (sv, st)"
    and sv: "sv_names sv = map cam_name (cameras settings)" "sv_api sv \<noteq> None \<longleftrightarrow> control_token \<noteq> None"
    by (rule bridge_main_starts [OF assms])
  show thesis
    by (rule that [OF sv]) (simp add: bridge_run_def assms(1) main sv(1) split: option.split)
qed

text \<open>
  C14. How \<open>main\<close> ends. Without a valid configuration nothing is started. With one, every camera has its
  worker with a session before the options are looked at; a failure after that - one of the two options
  alone, a state file that cannot be written, one that cannot be read for a reason other than being
  missing or no JSON, or an address that is taken - ends \<open>main\<close> with that exception and leaves the workers running. Otherwise the server
  serves all cameras of the configuration, with a control API exactly when the options are given; when
  serving ends every worker is stopped, and the exit code is 0 unless the server raised.
\<close>

theorem bridge_run_outcome:
  "(case load_config py_repr json_loads config of
      Inl e \<Rightarrow> bridge_run cs plan py_repr json_loads body_loads config control_token control_state token state_file writes
        dials sends listen serving ws = (Inl e, ws)
    | Inr settings \<Rightarrow>
        let started = start_workers dials sends (cameras settings) ws; names = map cam_name (cameras settings) in
        (\<forall>name \<in> set names. wk_session (started name) \<noteq> None) \<and>
        (case main_control_state control_token control_state state_file writes names of
           Inl e \<Rightarrow> bridge_run cs plan py_repr json_loads body_loads config control_token control_state token state_file writes
             dials sends listen serving ws = (Inl e, started)
         | Inr st \<Rightarrow>
             (case listen (listen_host settings) (listen_port settings) of
                Some e \<Rightarrow> bridge_run cs plan py_repr json_loads body_loads config control_token control_state token state_file
                  writes dials sends listen serving ws = (Inl e, started)
              | None \<Rightarrow> \<exists>sv e served ended.
                  serving sv st started = (e, served) \<and> sv_names sv = names \<and> (sv_api sv \<noteq> None \<longleftrightarrow> control_token \<noteq> None) \<and>
                  bridge_run cs plan py_repr json_loads body_loads config control_token control_state token state_file writes
                    dials sends listen serving ws = (serve_result e, ended) \<and>
                  (\<forall>name \<in> set names. wk_session (ended name) = None)))) \<and>
   (control_token \<noteq> None \<longrightarrow> control_state \<noteq> None \<longrightarrow> existing_document state_file = Inl e \<longrightarrow>
      main_control_state control_token control_state state_file writes names = Inl e)"
proof -
  let ?run = "bridge_run cs plan py_repr json_loads body_loads config control_token control_state token state_file writes
    dials sends listen serving ws"
  have unreadable: "control_token \<noteq> None \<longrightarrow> control_state \<noteq> None \<longrightarrow> existing_document state_file = Inl e \<longrightarrow>
      main_control_state control_token control_state state_file writes names = Inl e"
    by (auto simp: main_control_state_def control_state_store_def)
  show ?thesis
  proof (cases "load_config py_repr json_loads config")
    case (Inl x)
    then show ?thesis using unreadable by (simp add: bridge_run_def)
  next
    case (Inr settings)
    let ?names = "map cam_name (cameras settings)"
    let ?started = "start_workers dials sends (cameras settings) ws"
    note config = Inr
    have started: "\<forall>name \<in> set ?names. wk_session (?started name) \<noteq> None"
      using start_workers_session by auto
    show ?thesis
    proof (cases "main_control_state control_token control_state state_file writes ?names")
      case (Inl x)
      then have "?run = (Inl x, ?started)" using config by (simp add: bridge_run_def bridge_main_def Let_def)
      with Inl started unreadable show ?thesis by (simp only: config sum.case Let_def simp_thms)
    next
      case (Inr st)
      obtain sv where sv: "sv_names sv = ?names" "sv_api sv \<noteq> None \<longleftrightarrow> control_token \<noteq> None"
        and run: "?run = (case listen (listen_host settings) (listen_port settings) of
          Some x \<Rightarrow> (Inl x, ?started)
        | None \<Rightarrow> (case serving sv st ?started of (x, served) \<Rightarrow> (serve_result x, stop_workers ?names served)))"
        by (rule bridge_run_serves [OF config Inr])
      obtain x served where serve: "serving sv st ?started = (x, served)" by fastforce
      have stopped: "\<forall>name \<in> set ?names. wk_session (stop_workers ?names served name) = None"
        by (simp add: stop_workers_session)
      show ?thesis
      proof (cases "listen (listen_host settings) (listen_port settings)")
        case None
        with run serve have run: "?run = (serve_result x, stop_workers ?names served)" by simp
        show ?thesis
          unfolding config Inr None sum.case option.case Let_def
          by (intro conjI [OF conjI] unreadable started exI conjI) (rule serve, rule sv(1), rule sv(2), rule run, rule stopped)
      next
        case (Some y)
        with run started unreadable show ?thesis by (simp only: config Inr sum.case option.case Let_def simp_thms)
      qed
    qed
  qed
qed

lemma demo_config: "load_config (\<lambda>v. []) (\<lambda>t. Inr (config_json demo_settings)) (Inr []) = Inr demo_settings"
  by (simp add: load_config_def demo_settings_def config_json_def camera_json_def parse_config_def dict_get_def
      dict_get_default_def port_number_def py_int_def parse_camera_def required_string_def SAFE_NAME_def safe_char_def
      camera_credentials_def str_decode_def str_encode_def py_str_def)

lemma bridge_run_outcome_witness:
  "bridge_run demo_suite (\<lambda>t. []) (\<lambda>v. []) (\<lambda>t. Inr (config_json demo_settings)) (\<lambda>b. None) (Inr []) (Some ''token'')
     (Some ''state'') (Inr ''secret'') (Inl (UnicodeDecodeError ''invalid start byte'')) [] (\<lambda>n. []) (\<lambda>n. [])
     (\<lambda>host port. None) (\<lambda>sv st ws. (Returned, ws)) (\<lambda>n. new_worker) =
   (Inl (UnicodeDecodeError ''invalid start byte''),
    start_workers (\<lambda>n. []) (\<lambda>n. []) (cameras demo_settings) (\<lambda>n. new_worker))"
proof -
  let ?e = "UnicodeDecodeError ''invalid start byte''"
  note outcome = bridge_run_outcome [where cs = demo_suite and plan = "\<lambda>t. []" and py_repr = "\<lambda>v. []"
      and json_loads = "\<lambda>t. Inr (config_json demo_settings)" and body_loads = "\<lambda>b. None" and config = "Inr []"
      and control_token = "Some ''token''" and control_state = "Some ''state''" and token = "Inr ''secret''"
      and state_file = "Inl ?e" and writes = "[]" and dials = "\<lambda>n. []" and sends = "\<lambda>n. []"
      and listen = "\<lambda>host port. None" and serving = "\<lambda>sv st ws. (Returned, ws)" and ws = "\<lambda>n. new_worker"
      and names = "map cam_name (cameras demo_settings)" and e = ?e]
  from outcome have "main_control_state (Some ''token'') (Some ''state'') (Inl ?e) [] (map cam_name (cameras demo_settings)) = Inl ?e"
    by simp
  with outcome show ?thesis by (simp only: demo_config sum.case Let_def simp_thms)
qed

section \<open>Starting the bridge\<close>

lemma initial_state_keys: "distinct ids \<Longrightarrow> map fst (initial_state existing ids) = ids"
proof (induction ids rule: rev_induct)
  case (snoc i ids)
  then have "map fst (initial_state existing ids) = ids" by simp
  moreover have "initial_state existing (ids @ [i]) = dict_set (initial_state existing ids) i (retained_camera existing i)"
    by (simp add: initial_state_def)
  moreover from calculation(1) have "fst ` set (initial_state existing ids) = set ids"
    by (metis list.set_map)
  ultimately show ?case using snoc.prems by (simp add: keys_dict_set)
qed (simp add: initial_state_def)

lemma control_state_store_keys:
  "distinct ids \<Longrightarrow> control_state_store contents writes ids = Inr st \<Longrightarrow> map fst (cs_state st) = ids"
  using initial_state_keys control_state_store_Inr by fastforce

lemma started_store:
  assumes "control_state_store contents writes ids = Inr st" and "distinct ids"
  shows "store_ok st \<and> map fst (cs_state st) = ids \<and> list_all (\<lambda>i. ok (control_values st i)) ids"
proof -
  have keys: "map fst (cs_state st) = ids" by (rule control_state_store_keys [OF assms(2,1)])
  have "ok (control_values st i)" if "i \<in> set ids" for i
  proof -
    from that obtain d where "map_of (cs_state st) i = Some d"
      unfolding keys [symmetric] by (metis image_set map_of_eq_None_iff not_None_eq)
    then show ?thesis by (simp add: control_values_dict)
  qed
  with control_state_store_ok [OF assms(1)] keys show ?thesis by (simp add: list_all_iff)
qed

lemma main_control_state_Inr:
  "main_control_state control_token control_state state_file writes names = Inr st \<Longrightarrow>
     control_token = None \<and> control_state = None \<and> st = None \<or>
     control_token \<noteq> None \<and> control_state \<noteq> None \<and>
       (\<exists>store. st = Some store \<and> control_state_store state_file writes names = Inr store)"
  by (auto simp: main_control_state_def result_iff split: if_splits)

text \<open>
  C32. What \<open>main\<close> starts is consistent: it serves the cameras of a well-formed configuration, under distinct names, and
  it has a control API exactly when both options are given; the API's cameras and
  the store's entries are the same names, so no request for a configured camera can meet a missing
  store entry, and the store is sound from the start. When only one of the two options is given the
  program ends with \<open>NameError\<close>: the message it means to print is never reached.
\<close>

theorem bridge_starts_consistent:
  "(case bridge_main cs plan py_repr json_loads body_loads config control_token control_state token state_file writes of
     Inl e \<Rightarrow> True
   | Inr (sv, st) \<Rightarrow>
       sv_names sv \<noteq> [] \<and> distinct (sv_names sv) \<and> list_all SAFE_NAME (sv_names sv) \<and>
       (sv_api sv \<noteq> None \<longleftrightarrow> control_token \<noteq> None \<and> control_state \<noteq> None) \<and>
       (case (sv_api sv, st) of
          (None, None) \<Rightarrow> True
        | (Some api, Some store) \<Rightarrow> map fst (api_cameras api) = sv_names sv \<and> token_file api = token \<and>
            store_ok store \<and> map fst (cs_state store) = sv_names sv \<and>
            list_all (\<lambda>name. ok (control_values store name)) (sv_names sv)
        | _ \<Rightarrow> False)) \<and>
   ((control_token = None) \<noteq> (control_state = None) \<longrightarrow> ok (load_config py_repr json_loads config) \<longrightarrow>
      bridge_main cs plan py_repr json_loads body_loads config control_token control_state token state_file writes =
        Inl (NameError ''name 'parser' is not defined''))"
proof -
  let ?main = "bridge_main cs plan py_repr json_loads body_loads config control_token control_state token state_file writes"
  have one_option: "(control_token = None) \<noteq> (control_state = None) \<longrightarrow> ok (load_config py_repr json_loads config) \<longrightarrow>
      ?main = Inl (NameError ''name 'parser' is not defined'')"
    by (auto simp: bridge_main_def main_control_state_def ok_iff Let_def)
  show ?thesis
  proof (cases ?main)
    case (Inr r)
    then obtain settings st where l: "load_config py_repr json_loads config = Inr settings"
      and m: "main_control_state control_token control_state state_file writes (map cam_name (cameras settings)) = Inr st"
      by (auto simp: bridge_main_def result_iff Let_def)
    have "settings_ok settings" using l by (auto simp: load_config_def result_iff dest: parse_config_ok)
    then have names: "map cam_name (cameras settings) \<noteq> []" "distinct (map cam_name (cameras settings))"
        "list_all SAFE_NAME (map cam_name (cameras settings))"
      by (auto simp: settings_ok_def camera_settings_ok_def list_all_iff)
    from main_control_state_Inr [OF m] show ?thesis
    proof (elim disjE conjE exE)
      assume opts: "control_token = None" "control_state = None" "st = None"
      with Inr l m have "r = (\<lparr>sv_names = map cam_name (cameras settings), sv_api = None\<rparr>, None)"
        by (auto simp: bridge_main_def server_api_def Let_def)
      with Inr names opts one_option show ?thesis by simp
    next
      fix store
      assume opts: "control_token \<noteq> None" "control_state \<noteq> None" "st = Some store"
        and store: "control_state_store state_file writes (map cam_name (cameras settings)) = Inr store"
      with Inr l m have "r = (\<lparr>sv_names = map cam_name (cameras settings),
          sv_api = Some (worker_api cs plan (map cam_name (cameras settings)) token body_loads)\<rparr>, Some store)"
        by (auto simp: bridge_main_def server_api_def Let_def)
      with Inr names opts one_option started_store [OF store names(2)] show ?thesis
        by (simp add: worker_api_def comp_def)
    qed
  qed (use one_option in simp)
qed

lemma bridge_starts_consistent_witness:
  "bridge_main demo_suite (\<lambda>t. []) (\<lambda>v. []) (\<lambda>t. Inr (config_json demo_settings)) (\<lambda>b. None) (Inr []) (Some ''/data/control_token'') None
     (Inr ''secret'') (Inl (FileNotFoundError [])) [] = Inl (NameError ''name 'parser' is not defined'')"
proof -
  have "ok (load_config (\<lambda>v. []) (\<lambda>t. Inr (config_json demo_settings)) (Inr []))"
    by (simp add: demo_config)
  then show ?thesis
    using bridge_starts_consistent [where cs = demo_suite and plan = "\<lambda>t. []" and py_repr = "\<lambda>v. []"
        and json_loads = "\<lambda>t. Inr (config_json demo_settings)" and body_loads = "\<lambda>b. None" and config = "Inr []"
        and control_token = "Some ''/data/control_token''" and control_state = None and token = "Inr ''secret''"
        and state_file = "Inl (FileNotFoundError [])" and writes = "[]"] by simp
qed

end
