(* ===== verification/App_Runtime.thy ===== *)
theory App_Runtime
  imports Bridge_Main
begin

text \<open>
  \<open>ino_a9_bridge/src/wificam_bridge/app_runtime.py\<close>: what runs before the bridge in the Home Assistant
  app. It turns the Supervisor's options into the files the bridge and go2rtc read, and publishes
  the app to the integration.

  The state is what reading the four files of the data directory returns or raises - a missing file is a
  \<open>FileNotFoundError\<close>, one that is not UTF-8 a \<open>UnicodeDecodeError\<close> -, and which of the next writes raise; a data directory that cannot be made fails like the first write.
  \<open>json_loads\<close> and \<open>dumps\<close> are \<open>json.loads\<close> and \<open>json.dumps\<close>, \<open>new_token\<close> is what
  \<open>secrets.token_urlsafe(32)\<close> returns, and the Supervisor is a function on a state of its own.
\<close>

record runtime_files =
  rt_bridge :: "string result"
  rt_go2rtc :: "string result"
  rt_state :: "string result"
  rt_token :: "string result"
  rt_writes :: "exn option list"

definition LOG_LEVELS :: "string list" where
  "LOG_LEVELS = [''debug'', ''info'', ''warning'', ''error'']"

definition NEWLINE :: string where
  "NEWLINE = [CHR 0x0A]"

text \<open>\<open>_write_private_text\<close> replaces a file in one step, or leaves it; the argument updates its field.\<close>

definition write_private_text ::
  "((string result \<Rightarrow> string result) \<Rightarrow> runtime_files \<Rightarrow> runtime_files) \<Rightarrow> string \<Rightarrow> (unit, runtime_files) op" where
  "write_private_text field content r =
     (case rt_writes r of
        Some e # rest \<Rightarrow> (Inl e, r\<lparr>rt_writes := rest\<rparr>)
      | _ \<Rightarrow> (Inr (), field (\<lambda>_. Inr content) (r\<lparr>rt_writes := tl (rt_writes r)\<rparr>)))"

definition write_private_json ::
  "(json \<Rightarrow> string) \<Rightarrow> ((string result \<Rightarrow> string result) \<Rightarrow> runtime_files \<Rightarrow> runtime_files) \<Rightarrow> json
     \<Rightarrow> (unit, runtime_files) op" where
  "write_private_json dumps field v = write_private_text field (dumps v @ NEWLINE)"

section \<open>The go2rtc configuration\<close>

definition go2rtc_camera :: "camera_settings \<Rightarrow> string list" where
  "go2rtc_camera cam =
     [concat [''  ino_a9_'', cam_name cam, '':''],
      concat [''    - ffmpeg:http://127.0.0.1:8080/'', cam_name cam, ''/stream.mjpeg#video=h264''],
      concat [''    - exec:ffmpeg -hide_banner -loglevel warning -re -f alaw -ar 8000 -ac 1 '',
              ''-i http://127.0.0.1:8080/'', cam_name cam, ''/audio.alaw -vn -c:a libopus '',
              ''-application lowdelay -ar 48000 -ac 1 -rtsp_transport tcp -f rtsp {output}'']]"

definition go2rtc_lines :: "camera_settings list \<Rightarrow> string \<Rightarrow> string list" where
  "go2rtc_lines cams log_level =
     [''log:'', ''  format: text'', ''  level: '' @ log_level, ''api:'',
      ''  listen: \"127.0.0.1:1984\"'', ''rtsp:'', ''  listen: \":8554\"'',
      ''ffmpeg:'', ''  timeout: 30'', ''streams:''] @ concat (map go2rtc_camera cams)"

definition go2rtc_config :: "camera_settings list \<Rightarrow> string \<Rightarrow> string" where
  "go2rtc_config cams log_level = concat (map (\<lambda>line. line @ NEWLINE) (go2rtc_lines cams log_level))"

section \<open>Preparing the files\<close>

definition bridge_document :: "json list \<Rightarrow> json" where
  "bridge_document values =
     JObj [(''listen_host'', JStr ''0.0.0.0''), (''listen_port'', JInt 8080), (''cameras'', JList values)]"

text \<open>The checks of \<open>prepare_runtime\<close>: the document for the bridge, its meaning, and the log level.\<close>

definition read_options :: "(json \<Rightarrow> string) \<Rightarrow> (string \<Rightarrow> json result) \<Rightarrow> string result
    \<Rightarrow> (json \<times> bridge_settings \<times> string) result" where
  "read_options py_repr json_loads options =
     bind (bind options json_loads) (\<lambda>raw.
       (case raw of
          JObj d \<Rightarrow>
            (case dict_get_default d ''log_level'' (JStr ''info'') of
               JStr level \<Rightarrow>
                 if level \<notin> set LOG_LEVELS
                   then Inl (ValueError ''log_level must be debug, info, warning, or error'')
                 else
                   (case dict_get d ''cameras'' of
                      JList values \<Rightarrow>
                        if values = [] then Inl (ValueError ''app options must contain a non-empty cameras list'')
                        else
                          bind (parse_config py_repr (bridge_document values)) (\<lambda>settings.
                            Inr (bridge_document values, settings, level))
                    | _ \<Rightarrow> Inl (ValueError ''app options must contain a non-empty cameras list''))
             | _ \<Rightarrow> Inl (ValueError ''log_level must be debug, info, warning, or error''))
        | _ \<Rightarrow> Inl (ValueError ''app options must be a JSON object'')))"

text \<open>\<open>_ensure_control_state\<close>: keep what the file has of the configured cameras.\<close>

definition state_document :: "dict \<Rightarrow> string list \<Rightarrow> json" where
  "state_document existing names =
     JObj [(''version'', JInt 1),
           (''cameras'', JObj (map (\<lambda>name. (name, dict_get_default existing name (JObj []))) names))]"

definition ensure_control_state :: "(json \<Rightarrow> string) \<Rightarrow> (string \<Rightarrow> json result) \<Rightarrow> string list \<Rightarrow> (unit, runtime_files) op" where
  "ensure_control_state dumps json_loads names r =
     seq_state (lift_result (existing_document (bind (rt_state r) json_loads))) (\<lambda>existing.
       write_private_json dumps rt_state_update (state_document (existing_cameras existing) names)) r"

definition ensure_control_token :: "string \<Rightarrow> (unit, runtime_files) op" where
  "ensure_control_token new_token r =
     (case rt_token r of
        Inl (FileNotFoundError m) \<Rightarrow> write_private_text rt_token_update (new_token @ NEWLINE) r
      | Inl e \<Rightarrow> (Inl e, r)
      | Inr t \<Rightarrow>
          if strip t \<noteq> [] then (Inr (), r)
          else write_private_text rt_token_update (new_token @ NEWLINE) r)"

definition prepare_runtime :: "(json \<Rightarrow> string) \<Rightarrow> (string \<Rightarrow> json result) \<Rightarrow> (json \<Rightarrow> string) \<Rightarrow> string \<Rightarrow> string result
    \<Rightarrow> (bridge_settings, runtime_files) op" where
  "prepare_runtime py_repr json_loads dumps new_token options =
     seq_state (lift_result (read_options py_repr json_loads options)) (\<lambda>(bridge_raw, settings, log_level).
     seq_state (write_private_json dumps rt_bridge_update bridge_raw) (\<lambda>_.
     seq_state (write_private_text rt_go2rtc_update (go2rtc_config (cameras settings) log_level)) (\<lambda>_.
     seq_state (ensure_control_state dumps json_loads (map cam_name (cameras settings))) (\<lambda>_.
     seq_state (ensure_control_token new_token) (\<lambda>_. lift_result (Inr settings))))))"

section \<open>Discovery\<close>

record supervisor_request =
  sr_url :: string
  sr_data :: "string option"
  sr_headers :: headers

definition request_json :: "(supervisor_request \<Rightarrow> (string, 'n) op) \<Rightarrow> (string \<Rightarrow> json result) \<Rightarrow> (json \<Rightarrow> string)
    \<Rightarrow> string option \<Rightarrow> string \<Rightarrow> json option \<Rightarrow> (dict, 'n) op" where
  "request_json urlopen json_loads dumps supervisor_token url payload =
     seq_state
       (urlopen \<lparr>sr_url = url, sr_data = map_option dumps payload,
          sr_headers = (''Content-Type'', ''application/json'') #
            (case supervisor_token of
               None \<Rightarrow> []
             | Some t \<Rightarrow> if t = [] then [] else [(''Authorization'', ''Bearer '' @ t)])\<rparr>)
       (\<lambda>text. lift_result
         (bind (json_loads text) (\<lambda>v.
           (case v of JObj d \<Rightarrow> Inr d | _ \<Rightarrow> Inl (ValueError ''Supervisor returned a non-object response'')))))"

definition discovery_document :: "string \<Rightarrow> string \<Rightarrow> json" where
  "discovery_document hostname token =
     JObj [(''service'', JStr ''ino_a9''),
           (''config'', JObj [(''host'', JStr hostname), (''http_port'', JInt 8080),
             (''rtsp_port'', JInt 8554), (''token'', JStr token)])]"

definition rstrip_slash :: "string \<Rightarrow> string" where
  "rstrip_slash s = rev (dropWhile (\<lambda>c. c = CHR ''/'') (rev s))"

definition register_discovery :: "(supervisor_request \<Rightarrow> (string, 'n) op) \<Rightarrow> (string \<Rightarrow> json result) \<Rightarrow> (json \<Rightarrow> string)
    \<Rightarrow> string option \<Rightarrow> string \<Rightarrow> runtime_files \<Rightarrow> (unit, 'n) op" where
  "register_discovery urlopen json_loads dumps supervisor_token supervisor_url r =
     (let base_url = rstrip_slash supervisor_url;
          request = request_json urlopen json_loads dumps supervisor_token in
      seq_state (request (base_url @ ''/addons/self/info'') None) (\<lambda>info.
        (case dict_get info ''data'' of
           JObj d \<Rightarrow>
             (case dict_get d ''hostname'' of
                JStr hostname \<Rightarrow>
                  seq_state (lift_result (rt_token r)) (\<lambda>t.
                  seq_state
                    (request (base_url @ ''/discovery'') (Some (discovery_document
                       (map (\<lambda>c. if c = CHR ''_'' then CHR ''-'' else c) hostname) (strip t))))
                    (\<lambda>_. lift_result (Inr ())))
              | _ \<Rightarrow> lift_result (Inl (ValueError ''Supervisor app info did not include hostname'')))
         | _ \<Rightarrow> lift_result (Inl (ValueError ''Supervisor app info did not include hostname'')))))"

text \<open>\<open>main\<close>: a failed registration is only logged.\<close>

definition app_main :: "(supervisor_request \<Rightarrow> (string, 'n) op) \<Rightarrow> (json \<Rightarrow> string) \<Rightarrow> (string \<Rightarrow> json result)
    \<Rightarrow> (json \<Rightarrow> string) \<Rightarrow> string option \<Rightarrow> string \<Rightarrow> string \<Rightarrow> string result \<Rightarrow> runtime_files \<times> 'n
    \<Rightarrow> int result \<times> runtime_files \<times> 'n" where
  "app_main urlopen py_repr json_loads dumps supervisor_token supervisor_url new_token options rn =
     (case rn of (r, n) \<Rightarrow>
       (case prepare_runtime py_repr json_loads dumps new_token options r of
          (Inl e, r) \<Rightarrow> (Inl e, r, n)
        | (Inr settings, r) \<Rightarrow>
            (case register_discovery urlopen json_loads dumps supervisor_token supervisor_url r n of
               (_, n) \<Rightarrow> (Inr 0, r, n))))"

text \<open>
  The program from its arguments on. Every data directory has its files, and \<open>runtime_path\<close> finds them by their
  path.
\<close>

definition app_program :: "(supervisor_request \<Rightarrow> (string, 'n) op) \<Rightarrow> (json \<Rightarrow> string) \<Rightarrow> (string \<Rightarrow> json result)
    \<Rightarrow> (json \<Rightarrow> string) \<Rightarrow> string option \<Rightarrow> string \<Rightarrow> (string \<Rightarrow> string result) \<Rightarrow> string list
    \<Rightarrow> (string \<Rightarrow> runtime_files) \<times> 'n \<Rightarrow> int program_end \<times> (string \<Rightarrow> runtime_files) \<times> 'n" where
  "app_program urlopen py_repr json_loads dumps supervisor_token new_token read_file argv dn =
     (case dn of (dirs, n) \<Rightarrow>
       (case parse_app_args argv of
          Inl code \<Rightarrow> (System_Exit code, dirs, n)
        | Inr args \<Rightarrow>
            (case app_main urlopen py_repr json_loads dumps supervisor_token (aa_supervisor_url args) new_token
                    (read_file (aa_options args)) (dirs (aa_data_dir args), n) of
               (result, files, n) \<Rightarrow> (ending result, dirs(aa_data_dir args := files), n))))"

definition CONTROL_TOKEN_FILENAME :: string where "CONTROL_TOKEN_FILENAME = ''control_token''"
definition CONTROL_STATE_FILENAME :: string where "CONTROL_STATE_FILENAME = ''control_state.json''"
definition BRIDGE_CONFIG_FILENAME :: string where "BRIDGE_CONFIG_FILENAME = ''bridge.json''"
definition GO2RTC_CONFIG_FILENAME :: string where "GO2RTC_CONFIG_FILENAME = ''go2rtc.yaml''"

definition runtime_path :: "string \<Rightarrow> runtime_files \<Rightarrow> string \<Rightarrow> string result" where
  "runtime_path data_dir r path =
     (let here = (\<lambda>name. data_dir @ ''/'' @ name) in
      if path = here BRIDGE_CONFIG_FILENAME then rt_bridge r
      else if path = here GO2RTC_CONFIG_FILENAME then rt_go2rtc r
      else if path = here CONTROL_STATE_FILENAME then rt_state r
      else if path = here CONTROL_TOKEN_FILENAME then rt_token r
      else Inl (FileNotFoundError ''No such file or directory''))"

lemmas runtime_filenames = CONTROL_TOKEN_FILENAME_def CONTROL_STATE_FILENAME_def BRIDGE_CONFIG_FILENAME_def
  GO2RTC_CONFIG_FILENAME_def

section \<open>The prepared files\<close>

lemma write_private_text_Inr:
  "write_private_text field content r = (Inr (), r') \<Longrightarrow>
     r' = field (\<lambda>_. Inr content) (r\<lparr>rt_writes := tl (rt_writes r)\<rparr>)"
  by (auto simp: write_private_text_def split: list.splits option.splits)

lemma read_options_Inr:
  assumes "read_options py_repr json_loads options = Inr (doc, settings, level)"
  shows "parse_config py_repr doc = Inr settings \<and> level \<in> set LOG_LEVELS \<and> (\<exists>vs. doc = bridge_document vs)"
proof -
  obtain raw where raw: "bind options json_loads = Inr raw"
    using assms by (cases "bind options json_loads") (simp_all add: read_options_def)
  with assms obtain d where d: "raw = JObj d"
    by (cases raw) (simp_all add: read_options_def)
  with assms raw obtain l where l: "dict_get_default d ''log_level'' (JStr ''info'') = JStr l"
    by (cases "dict_get_default d ''log_level'' (JStr ''info'')") (simp_all add: read_options_def)
  with assms raw d have "l \<in> set LOG_LEVELS" by (simp add: read_options_def split: if_splits)
  with assms raw d l obtain vs where "dict_get d ''cameras'' = JList vs" "vs \<noteq> []"
    by (cases "dict_get d ''cameras''") (simp_all add: read_options_def split: if_splits)
  with assms raw d l \<open>l \<in> set LOG_LEVELS\<close> show ?thesis
    by (auto simp: read_options_def result_iff)
qed

lemma read_options_address:
  assumes "read_options py_repr json_loads options = Inr (doc, settings, level)"
  shows "listen_host settings = ''0.0.0.0'' \<and> listen_port settings = 8080"
proof -
  obtain vs where "parse_config py_repr (bridge_document vs) = Inr settings"
    using read_options_Inr [OF assms] by blast
  then show ?thesis
    by (auto simp: parse_config_def bridge_document_def dict_get_def dict_get_default_def port_number_def py_int_def
        py_str_def result_iff split: if_splits)
qed

text \<open>What is in the files after \<open>prepare_runtime\<close>.\<close>

lemma ensure_control_token_Inr:
  "ensure_control_token new_token r = (Inr (), r') \<Longrightarrow>
     rt_bridge r' = rt_bridge r \<and> rt_go2rtc r' = rt_go2rtc r \<and> rt_state r' = rt_state r \<and>
     rt_token r' = (case rt_token r of Inr t \<Rightarrow> Inr (if strip t \<noteq> [] then t else new_token @ NEWLINE) | _ \<Rightarrow> Inr (new_token @ NEWLINE))"
  by (auto simp: ensure_control_token_def split: sum.splits exn.splits if_splits dest!: write_private_text_Inr)

lemma prepare_runtime_files:
  assumes "prepare_runtime py_repr json_loads dumps new_token options r = (Inr settings, r')"
  obtains doc level old where "parse_config py_repr doc = Inr settings" and "level \<in> set LOG_LEVELS"
    and "read_options py_repr json_loads options = Inr (doc, settings, level)"
    and "existing_document (bind (rt_state r) json_loads) = Inr old"
    and "rt_bridge r' = Inr (dumps doc @ NEWLINE)" and "rt_go2rtc r' = Inr (go2rtc_config (cameras settings) level)"
    and "rt_state r' = Inr (dumps (state_document (existing_cameras old) (map cam_name (cameras settings))) @ NEWLINE)"
    and "rt_token r' = (case rt_token r of Inr t \<Rightarrow> Inr (if strip t \<noteq> [] then t else new_token @ NEWLINE) | _ \<Rightarrow> Inr (new_token @ NEWLINE))"
proof -
  obtain doc level r1 r2 r3 where o: "read_options py_repr json_loads options = Inr (doc, settings, level)"
    and 1: "write_private_json dumps rt_bridge_update doc r = (Inr (), r1)"
    and 2: "write_private_text rt_go2rtc_update (go2rtc_config (cameras settings) level) r1 = (Inr (), r2)"
    and 3: "ensure_control_state dumps json_loads (map cam_name (cameras settings)) r2 = (Inr (), r3)"
    and 4: "ensure_control_token new_token r3 = (Inr (), r')"
    using assms by (auto simp: prepare_runtime_def seq_state_Inr_iff)
  note w1 = write_private_text_Inr [OF 1 [unfolded write_private_json_def]]
  note w2 = write_private_text_Inr [OF 2]
  obtain old where old: "existing_document (bind (rt_state r) json_loads) = Inr old"
    and w3: "r3 = rt_state_update (\<lambda>_. Inr (dumps (state_document (existing_cameras old) (map cam_name (cameras settings))) @ NEWLINE))
      (r2\<lparr>rt_writes := tl (rt_writes r2)\<rparr>)"
    using 3 by (auto simp: ensure_control_state_def seq_state_Inr_iff lift_result_def write_private_json_def w1 w2
        dest!: write_private_text_Inr)
  show thesis
    by (rule that [OF _ _ o old])
      (use read_options_Inr [OF o] ensure_control_token_Inr [OF 4] in \<open>simp_all add: w1 w2 w3\<close>)
qed

section \<open>The bridge starts on the prepared files\<close>

lemma retained_state_document:
  assumes "i \<in> set names"
  shows "retained_camera (existing_cameras (Some (state_document existing names))) i = retained_camera existing i"
proof -
  have "map_of (map (\<lambda>name. (name, f name)) names) i = Some (f i)" for f :: "string \<Rightarrow> json"
    using assms by (induction names) auto
  then show ?thesis
    by (simp add: retained_camera_def existing_cameras_def state_document_def dict_get_def dict_get_default_def)
qed

lemma strip_SAFE_NAME:
  assumes "SAFE_NAME s"
  shows "strip (s @ NEWLINE) = s"
proof -
  have safe: "\<not> is_space c" if "c \<in> set s" for c
    using that assms by (auto simp: SAFE_NAME_def list_all_iff safe_char_def is_space_def Let_def dest!: bspec)
  have "dropWhile is_space (s @ NEWLINE) = s @ NEWLINE"
    using assms safe by (cases s) (auto simp: SAFE_NAME_def)
  moreover have "is_space (CHR 0x0A)" by (simp add: is_space_def)
  moreover have "dropWhile is_space (rev s) = rev s"
    using assms safe by (cases "rev s") (auto simp: SAFE_NAME_def dest: arg_cong [of _ _ set])
  ultimately show ?thesis by (simp add: strip_def NEWLINE_def)
qed

lemma SAFE_NAME_ascii: "SAFE_NAME s \<Longrightarrow> is_ascii s"
  by (auto simp: SAFE_NAME_def is_ascii_def list_all_iff safe_char_def Let_def dest!: bspec)

text \<open>
  Whatever options \<open>prepare_runtime\<close> accepts, \<open>bridge_main\<close> succeeds on the files it wrote: with the same cameras,
  the control API, and the control values that a store opened on the old state file would have kept.
\<close>

lemma app_prepares_bridge:
  assumes "prepare_runtime py_repr json_loads dumps new_token options r = (Inr settings, r')"
    and "\<forall>v. rt_bridge r' = Inr (dumps v @ NEWLINE) \<or> rt_state r' = Inr (dumps v @ NEWLINE) \<longrightarrow>
      json_loads (dumps v @ NEWLINE) = Inr v"
    and "SAFE_NAME new_token"
  shows "\<exists>st old. bridge_main cs plan py_repr json_loads body_loads (rt_bridge r') (Some token_path)
        (Some state_path) (rt_token r') (bind (rt_state r') json_loads) [] =
      Inr (\<lparr>sv_names = map cam_name (cameras settings),
            sv_api = Some (worker_api cs plan (map cam_name (cameras settings)) (rt_token r') body_loads)\<rparr>, Some st) \<and>
    load_config py_repr json_loads (rt_bridge r') = Inr settings \<and>
    existing_document (bind (rt_state r) json_loads) = Inr old \<and>
    (\<forall>i \<in> set (map cam_name (cameras settings)).
      map_of (cs_state st) i = Some (retained_camera (existing_cameras old) i)) \<and>
    (\<exists>t. rt_token r' = Inr t \<and> strip t \<noteq> [] \<and> (\<forall>t'. rt_token r = Inr t' \<longrightarrow> strip t' \<noteq> [] \<longrightarrow> t = t'))"
proof -
  let ?names = "map cam_name (cameras settings)"
  obtain doc old where doc: "parse_config py_repr doc = Inr settings" "rt_bridge r' = Inr (dumps doc @ NEWLINE)"
    and old: "existing_document (bind (rt_state r) json_loads) = Inr old"
    and state: "rt_state r' = Inr (dumps (state_document (existing_cameras old) ?names) @ NEWLINE)"
    and token: "rt_token r' = (case rt_token r of Inr t \<Rightarrow> Inr (if strip t \<noteq> [] then t else new_token @ NEWLINE)
      | _ \<Rightarrow> Inr (new_token @ NEWLINE))"
    by (rule prepare_runtime_files [OF assms(1)])
  have config: "load_config py_repr json_loads (rt_bridge r') = Inr settings"
    using assms(2) doc by (simp add: load_config_def)
  have sfile: "existing_document (bind (rt_state r') json_loads) = Inr (Some (state_document (existing_cameras old) ?names))"
    using assms(2) state by simp
  obtain st where st: "control_state_store (bind (rt_state r') json_loads) [] ?names = Inr st"
    and vals: "cs_state st = initial_state (existing_cameras (Some (state_document (existing_cameras old) ?names))) ?names"
    using control_state_store_works [OF sfile] control_state_store_Inr sfile by fastforce
  have main: "bridge_main cs plan py_repr json_loads body_loads (rt_bridge r') (Some token_path)
        (Some state_path) (rt_token r') (bind (rt_state r') json_loads) [] =
      Inr (\<lparr>sv_names = ?names, sv_api = Some (worker_api cs plan ?names (rt_token r') body_loads)\<rparr>, Some st)"
    by (simp add: bridge_main_def config main_control_state_def st server_api_def Let_def)
  moreover have "map_of (cs_state st) i = Some (retained_camera (existing_cameras old) i)" if "i \<in> set ?names" for i
    using that retained_state_document [OF that, of "existing_cameras old"] by (simp add: vals initial_state_lookup del: set_map)
  moreover have "\<exists>t. rt_token r' = Inr t \<and> strip t \<noteq> [] \<and> (\<forall>t'. rt_token r = Inr t' \<longrightarrow> strip t' \<noteq> [] \<longrightarrow> t = t')"
    using token strip_SAFE_NAME [OF assms(3)] assms(3) by (auto simp: SAFE_NAME_def split: sum.splits if_splits)
  ultimately show ?thesis using old config by blast
qed

text \<open>A run on empty files: the option document, and a printer that tells the documents apart.\<close>

definition demo_options :: json where
  "demo_options = JObj [(''cameras'', JList (map camera_json (cameras demo_settings)))]"

definition demo_dumps :: "json \<Rightarrow> string" where
  "demo_dumps v =
     (if v = bridge_document (map camera_json (cameras demo_settings)) then ''bridge''
      else if v = state_document [] [''door_1''] then ''state'' else ''other'')"

definition demo_loads :: "string \<Rightarrow> json result" where
  "demo_loads t =
     (if t = ''options'' then Inr demo_options
      else if t = ''bridge'' @ NEWLINE then Inr (bridge_document (map camera_json (cameras demo_settings)))
      else if t = ''state'' @ NEWLINE then Inr (state_document [] [''door_1''])
      else Inl (JSONDecodeError ''Expecting value''))"

definition missing_file :: "string result" where
  "missing_file = Inl (FileNotFoundError ''No such file or directory'')"

definition demo_files :: runtime_files where
  "demo_files = \<lparr>rt_bridge = missing_file, rt_go2rtc = missing_file, rt_state = missing_file, rt_token = missing_file, rt_writes = []\<rparr>"

lemma demo_options_read:
  "read_options (\<lambda>v. []) demo_loads (Inr ''options'') =
     Inr (bridge_document (map camera_json (cameras demo_settings)), demo_settings, ''info'')"
proof -
  have parse: "parse_config (\<lambda>v. []) (bridge_document (map camera_json (cameras demo_settings))) = Inr demo_settings"
    by (simp add: bridge_document_def demo_settings_def camera_json_def parse_config_def dict_get_def py_str_def
        dict_get_default_def port_number_def py_int_def parse_camera_def required_string_def SAFE_NAME_def safe_char_def
        camera_credentials_def str_decode_def str_encode_def)
  then show ?thesis
    by (simp add: read_options_def demo_loads_def demo_options_def dict_get_def dict_get_default_def LOG_LEVELS_def)
      (simp add: demo_settings_def)
qed

lemma demo_prepared:
  obtains r' where "prepare_runtime (\<lambda>v. []) demo_loads demo_dumps ''t0ken'' (Inr ''options'') demo_files = (Inr demo_settings, r')"
    and "rt_bridge r' = Inr (''bridge'' @ NEWLINE)" "rt_state r' = Inr (''state'' @ NEWLINE)"
    and "rt_token r' = Inr (''t0ken'' @ NEWLINE)"
proof -
  have names: "map cam_name (cameras demo_settings) = [''door_1'']" by (simp add: demo_settings_def)
  have differ: "state_document [] [''door_1''] \<noteq> bridge_document (map camera_json (cameras demo_settings))"
    by (simp add: state_document_def bridge_document_def)
  have "prepare_runtime (\<lambda>v. []) demo_loads demo_dumps ''t0ken'' (Inr ''options'') demo_files =
      (Inr demo_settings,
       \<lparr>rt_bridge = Inr (''bridge'' @ NEWLINE), rt_go2rtc = Inr (go2rtc_config (cameras demo_settings) ''info''),
        rt_state = Inr (''state'' @ NEWLINE), rt_token = Inr (''t0ken'' @ NEWLINE), rt_writes = []\<rparr>)"
    by (simp add: prepare_runtime_def demo_options_read seq_state_def write_private_json_def write_private_text_def
        ensure_control_state_def ensure_control_token_def demo_files_def demo_dumps_def missing_file_def lift_result_def existing_cameras_def
        names differ)
  from that [OF this] show thesis by simp
qed

text \<open>
  The command lines with which the services of the app run the two programs:
  \<open>ino_a9_bridge/rootfs/etc/cont-init.d/10-runtime-config\<close> and, with the log level of the options,
  \<open>ino_a9_bridge/rootfs/etc/services.d/bridge/run\<close>.
\<close>

definition runtime_config_script :: "string list" where
  "runtime_config_script = [''--options'', ''/data/options.json'', ''--data-dir'', ''/data'']"

definition bridge_script :: "string \<Rightarrow> string list" where
  "bridge_script log_level =
     [''--config'', ''/data/bridge.json'', ''--log-level'', log_level,
      ''--control-token'', ''/data/control_token'', ''--control-state'', ''/data/control_state.json'']"

lemma parse_runtime_config_script:
  "parse_app_args runtime_config_script =
     Inr \<lparr>aa_options = ''/data/options.json'', aa_data_dir = ''/data'', aa_supervisor_url = ''http://supervisor''\<rparr>"
  by code_simp

lemma parse_bridge_script:
  assumes "level \<in> set LOG_LEVELS"
  shows "parse_bridge_args (bridge_script level) =
    Inr \<lparr>ba_config = ''/data/bridge.json'', ba_control_token = Some ''/data/control_token'',
      ba_control_state = Some ''/data/control_state.json'', ba_log_level = level, ba_verbose = False\<rparr>"
proof -
  have "level \<in> {''debug'', ''info'', ''warning'', ''error''}" using assms by (simp add: LOG_LEVELS_def)
  then show ?thesis
    using bridge_settings_read [of "\<lparr>ba_config = ''/data/bridge.json'', ba_control_token = Some ''/data/control_token'',
        ba_control_state = Some ''/data/control_state.json'', ba_log_level = level, ba_verbose = False\<rparr>"
      "[Spaced ''--config'' ''/data/bridge.json'', Spaced ''--log-level'' level,
        Spaced ''--control-token'' ''/data/control_token'', Spaced ''--control-state'' ''/data/control_state.json'']"]
    by (auto simp: bridge_settings_of_def bridge_script_def)
qed

text \<open>
  C13. The app gets the bridge running. When the first service of the app has returned, the second one - with the
  log level of the same options, whatever it is - starts the bridge on the files the first one wrote: its
  arguments are accepted, a worker is started for each camera of the options, and, unless port 8080 is
  taken, the server listens on it and gets these cameras, the control API with a token that is not empty - the old one, when there was one -, and exactly
  the control values that a store opened on the old state file would have kept; the program then ends the way
  serving ends, with all workers stopped. The hypotheses are that the documents that were written are read back as
  they were, and that a new token is made of URL-safe characters.
\<close>

theorem app_starts_bridge:
  assumes "app_program urlopen py_repr json_loads dumps supervisor_token new_token read_file runtime_config_script (dirs, n) =
      (Returns code, dirs', n')"
    and "\<forall>v. rt_bridge (dirs' ''/data'') = Inr (dumps v @ NEWLINE) \<or> rt_state (dirs' ''/data'') = Inr (dumps v @ NEWLINE) \<longrightarrow>
      json_loads (dumps v @ NEWLINE) = Inr v"
    and "SAFE_NAME new_token"
  shows "\<exists>doc settings level st old t.
    read_options py_repr json_loads (read_file ''/data/options.json'') = Inr (doc, settings, level) \<and>
    existing_document (bind (rt_state (dirs ''/data'')) json_loads) = Inr old \<and>
    (\<forall>i \<in> set (map cam_name (cameras settings)).
      map_of (cs_state st) i = Some (retained_camera (existing_cameras old) i)) \<and>
    strip t \<noteq> [] \<and> (\<forall>t'. rt_token (dirs ''/data'') = Inr t' \<longrightarrow> strip t' \<noteq> [] \<longrightarrow> t = t') \<and>
    bridge_program cs plan py_repr json_loads body_loads (runtime_path ''/data'' (dirs' ''/data'')) [] dials sends listen serving
      (bridge_script level) ws =
    (case listen ''0.0.0.0'' 8080 of
       Some e \<Rightarrow> (Raises e, start_workers dials sends (cameras settings) ws)
     | None \<Rightarrow>
         (case serving \<lparr>sv_names = map cam_name (cameras settings),
             sv_api = Some (worker_api cs plan (map cam_name (cameras settings)) (Inr t) body_loads)\<rparr> (Some st)
             (start_workers dials sends (cameras settings) ws) of
            (e, served) \<Rightarrow> (ending (serve_result e), stop_workers (map cam_name (cameras settings)) served)))"
proof -
  let ?r = "dirs ''/data''" and ?r' = "dirs' ''/data''"
  obtain settings where run: "prepare_runtime py_repr json_loads dumps new_token (read_file ''/data/options.json'') ?r = (Inr settings, ?r')"
    using assms(1) by (auto simp: app_program_def parse_runtime_config_script app_main_def split: prod.splits sum.splits)
  obtain st old where main: "bridge_main cs plan py_repr json_loads body_loads (rt_bridge ?r') (Some ''/data/control_token'')
        (Some ''/data/control_state.json'') (rt_token ?r') (bind (rt_state ?r') json_loads) [] =
      Inr (\<lparr>sv_names = map cam_name (cameras settings),
            sv_api = Some (worker_api cs plan (map cam_name (cameras settings)) (rt_token ?r') body_loads)\<rparr>, Some st)"
    and config: "load_config py_repr json_loads (rt_bridge ?r') = Inr settings"
    and old: "existing_document (bind (rt_state ?r) json_loads) = Inr old"
      "\<forall>i \<in> set (map cam_name (cameras settings)). map_of (cs_state st) i = Some (retained_camera (existing_cameras old) i)"
    and "\<exists>t. rt_token ?r' = Inr t \<and> strip t \<noteq> [] \<and> (\<forall>t'. rt_token ?r = Inr t' \<longrightarrow> strip t' \<noteq> [] \<longrightarrow> t = t')"
    using app_prepares_bridge [OF run assms(2,3), of cs plan body_loads "''/data/control_token''" "''/data/control_state.json''"] by blast
  then obtain t where t: "rt_token ?r' = Inr t" "strip t \<noteq> []" "\<forall>t'. rt_token ?r = Inr t' \<longrightarrow> strip t' \<noteq> [] \<longrightarrow> t = t'" by blast
  obtain doc level where options: "read_options py_repr json_loads (read_file ''/data/options.json'') = Inr (doc, settings, level)"
      "level \<in> set LOG_LEVELS"
    by (rule prepare_runtime_files [OF run])
  have files: "runtime_path ''/data'' ?r' ''/data/bridge.json'' = rt_bridge ?r'"
    "runtime_path ''/data'' ?r' ''/data/control_token'' = rt_token ?r'"
    "runtime_path ''/data'' ?r' ''/data/control_state.json'' = rt_state ?r'"
    by (simp_all add: runtime_path_def runtime_filenames Let_def)
  have "bridge_program cs plan py_repr json_loads body_loads (runtime_path ''/data'' ?r') [] dials sends listen serving (bridge_script level) ws =
    (case listen ''0.0.0.0'' 8080 of
       Some e \<Rightarrow> (Raises e, start_workers dials sends (cameras settings) ws)
     | None \<Rightarrow>
         (case serving \<lparr>sv_names = map cam_name (cameras settings),
             sv_api = Some (worker_api cs plan (map cam_name (cameras settings)) (Inr t) body_loads)\<rparr> (Some st)
             (start_workers dials sends (cameras settings) ws) of
            (e, served) \<Rightarrow> (ending (serve_result e), stop_workers (map cam_name (cameras settings)) served)))"
    by (simp add: bridge_program_def parse_bridge_script [OF options(2)] read_option_def files bridge_run_def config
        main [unfolded t(1)] t(1) read_options_address [OF options(1)] Let_def split: prod.split option.split)
  with options(1) old t(2,3) show ?thesis by blast
qed

lemma app_starts_bridge_witness:
  "\<exists>dirs'. app_program (\<lambda>rq n. (Inl (OSError ''timed out''), n)) (\<lambda>v. []) demo_loads demo_dumps None ''t0ken''
       (\<lambda>path. Inr ''options'') runtime_config_script (\<lambda>d. demo_files, ()) = (Returns 0, dirs', ()) \<and>
     bridge_program demo_suite (\<lambda>t. []) (\<lambda>v. []) demo_loads (\<lambda>b. None) (runtime_path ''/data'' (dirs' ''/data'')) []
       (\<lambda>n. []) (\<lambda>n. []) (\<lambda>host port. None) (\<lambda>sv st ws. (Keyboard_Interrupt, ws)) (bridge_script ''info'') (\<lambda>n. new_worker) =
     (Returns 0, stop_workers [''door_1''] (start_workers (\<lambda>n. []) (\<lambda>n. []) (cameras demo_settings) (\<lambda>n. new_worker)))"
proof -
  obtain r' where run: "prepare_runtime (\<lambda>v. []) demo_loads demo_dumps ''t0ken'' (Inr ''options'') demo_files = (Inr demo_settings, r')"
    and files: "rt_bridge r' = Inr (''bridge'' @ NEWLINE)" "rt_state r' = Inr (''state'' @ NEWLINE)"
    by (rule demo_prepared)
  let ?dirs = "(\<lambda>d. demo_files)(''/data'' := r')"
  have first: "app_program (\<lambda>rq n. (Inl (OSError ''timed out''), n)) (\<lambda>v. []) demo_loads demo_dumps None ''t0ken''
       (\<lambda>path. Inr ''options'') runtime_config_script (\<lambda>d. demo_files, ()) = (Returns 0, ?dirs, ())"
    by (simp add: app_program_def parse_runtime_config_script app_main_def run split: prod.split)
  have "\<forall>v. rt_bridge (?dirs ''/data'') = Inr (demo_dumps v @ NEWLINE) \<or> rt_state (?dirs ''/data'') = Inr (demo_dumps v @ NEWLINE) \<longrightarrow>
      demo_loads (demo_dumps v @ NEWLINE) = Inr v"
    by (auto simp: files demo_dumps_def demo_loads_def split: if_splits)
  moreover have "SAFE_NAME ''t0ken''" by (simp add: SAFE_NAME_def safe_char_def)
  moreover have "map cam_name (cameras demo_settings) = [''door_1'']" by (simp add: demo_settings_def)
  ultimately show ?thesis
    using app_starts_bridge [OF first, where cs = demo_suite and plan = "\<lambda>t. []" and body_loads = "\<lambda>b. None"
        and dials = "\<lambda>n. []" and sends = "\<lambda>n. []" and listen = "\<lambda>host port. None"
        and serving = "\<lambda>sv st ws. (Keyboard_Interrupt, ws)" and ws = "\<lambda>n. new_worker"]
      first
    by (auto simp: demo_options_read serve_result_def)
qed

section \<open>go2rtc finds the streams\<close>

fun split_lines :: "string \<Rightarrow> string list" where
  "split_lines [] = []"
| "split_lines (c # s) =
     (if c = CHR 0x0A then [] # split_lines s
      else (case split_lines s of [] \<Rightarrow> [[c]] | l # ls \<Rightarrow> (c # l) # ls))"

lemma split_lines_line: "CHR 0x0A \<notin> set l \<Longrightarrow> split_lines (l @ NEWLINE @ s) = l # split_lines s"
  by (induction l) (auto simp: NEWLINE_def)

lemma split_lines_concat:
  "\<forall>l \<in> set ls. CHR 0x0A \<notin> set l \<Longrightarrow> split_lines (concat (map (\<lambda>l. l @ NEWLINE) ls)) = ls"
  by (induction ls) (auto simp: split_lines_line)

lemma safe_not_newline: "SAFE_NAME s \<Longrightarrow> CHR 0x0A \<notin> set s"
  by (auto simp: SAFE_NAME_def list_all_iff safe_char_def dest!: bspec)

definition one_line :: "string \<Rightarrow> bool" where
  "one_line l \<longleftrightarrow> CHR 0x0A \<notin> set l"

lemma one_line_concat: "one_line (concat ls) \<longleftrightarrow> list_all one_line ls"
  by (induction ls) (auto simp: one_line_def)

lemma one_line_append: "one_line (l @ m) \<longleftrightarrow> one_line l \<and> one_line m"
  by (auto simp: one_line_def)

lemma one_line_Cons: "one_line (c # l) \<longleftrightarrow> c \<noteq> CHR 0x0A \<and> one_line l" "one_line []"
  by (auto simp: one_line_def)

lemma go2rtc_lines_one_line:
  assumes "list_all camera_settings_ok cams" and "level \<in> set LOG_LEVELS"
  shows "list_all one_line (go2rtc_lines cams level)"
proof -
  have "list_all one_line (go2rtc_camera cam)" if "camera_settings_ok cam" for cam
  proof -
    have "one_line (cam_name cam)"
      using that safe_not_newline by (simp add: one_line_def camera_settings_ok_def)
    then show ?thesis
      by (simp add: go2rtc_camera_def one_line_concat one_line_Cons del: concat.simps)
  qed
  with assms(1) have "list_all one_line (concat (map go2rtc_camera cams))"
    by (induction cams) auto
  moreover have "one_line level" using assms(2) by (auto simp: LOG_LEVELS_def one_line_Cons)
  ultimately show ?thesis by (simp add: go2rtc_lines_def one_line_Cons one_line_append)
qed

lemma takeWhile_stop: "c \<notin> set m \<Longrightarrow> takeWhile (\<lambda>x. x \<noteq> c) (m @ c # t) = m"
  "c \<notin> set m \<Longrightarrow> takeWhile (\<lambda>x. x \<noteq> c) m = m"
  by (induction m) auto

lemma urlsplit_media:
  assumes "SAFE_NAME name" and "CHR ''?'' \<notin> set item" "CHR ''#'' \<notin> set item"
  shows "urlsplit_path (''http://127.0.0.1:8080'' @ media_path name item) = media_path name item"
    and "urlsplit_path (''http://127.0.0.1:8080'' @ media_path name item @ CHR ''#'' # fragment) = media_path name item"
proof -
  have none: "CHR ''?'' \<notin> set (media_path name item)" "CHR ''#'' \<notin> set (media_path name item)"
    using assms by (auto simp: media_path_def SAFE_NAME_def list_all_iff safe_char_def dest!: bspec)
  obtain rest where rest: "media_path name item = CHR ''/'' # rest" by (simp add: media_path_def)
  have split: "urlsplit_path (''http://127.0.0.1:8080'' @ CHR ''/'' # t) =
      takeWhile (\<lambda>c. c \<noteq> CHR ''?'') (takeWhile (\<lambda>c. c \<noteq> CHR ''#'') (CHR ''/'' # t))" for t
    by (simp add: urlsplit_path_def drop_scheme_def scheme_char_def is_digit_def Let_def)
  from split [of rest] show "urlsplit_path (''http://127.0.0.1:8080'' @ media_path name item) = media_path name item"
    unfolding rest [symmetric] takeWhile_stop(2) [OF none(2)] takeWhile_stop(2) [OF none(1)] .
  from split [of "rest @ CHR ''#'' # fragment"]
  show "urlsplit_path (''http://127.0.0.1:8080'' @ media_path name item @ CHR ''#'' # fragment) = media_path name item"
    unfolding append_Cons [symmetric] rest [symmetric] takeWhile_stop(1) [OF none(2)] takeWhile_stop(2) [OF none(1)] .
qed



end
