(* ===== verification/HA_Client.thy ===== *)
theory HA_Client
  imports App_Runtime
begin

text \<open>
  The Home Assistant integration's client of the app: \<open>custom_components/ino_a9/api.py\<close>,
  \<open>coordinator.py\<close>, and the connection data of \<open>config_flow.py\<close>.

  The HTTP client library is the parameter \<open>transport\<close>, on a state of its own; it returns the status
  and the body, or \<open>None\<close> for a timeout, a \<open>ClientError\<close> or an \<open>OSError\<close>. \<open>decode\<close> is
  \<open>response.json()\<close>, \<open>None\<close> when it raises. The exceptions of the integration are \<open>ha_error\<close>.
\<close>

datatype ha_error =
    Api_Error nat
  | Bad_Value string
  | Update_Failed string
  | Home_Assistant_Error string
  | Service_Validation_Error string

type_synonym ('a, 'n) ha_op = "'n \<Rightarrow> (ha_error + 'a) \<times> 'n"

definition ha_seq :: "('a, 'n) ha_op \<Rightarrow> ('a \<Rightarrow> ('b, 'n) ha_op) \<Rightarrow> ('b, 'n) ha_op" where
  "ha_seq m k n = (case m n of (r, n) \<Rightarrow> (case r of Inl e \<Rightarrow> (Inl e, n) | Inr x \<Rightarrow> k x n))"

definition ha_lift :: "ha_error + 'a \<Rightarrow> ('a, 'n) ha_op" where
  "ha_lift r n = (r, n)"

lemma ha_lift_simps [simp]: "ha_lift r n = (r, n)" "ha_seq (ha_lift (Inr x)) k = k x"
  "ha_seq (ha_lift (Inl e)) k = ha_lift (Inl e)"
  by (simp_all add: ha_lift_def ha_seq_def fun_eq_iff)

lemma ha_seq_Inr_iff:
  "ha_seq m k n = (Inr y, n'') \<longleftrightarrow> (\<exists>x n'. m n = (Inr x, n') \<and> k x n' = (Inr y, n''))"
  by (auto simp: ha_seq_def split: prod.split sum.split)

record ha_api =
  ha_host :: string
  ha_http_port :: int
  ha_rtsp_port :: int
  ha_token :: string

record http_request =
  hr_method :: string
  hr_url :: string
  hr_headers :: headers
  hr_json :: "json option"

type_synonym 'n transport = "http_request \<Rightarrow> 'n \<Rightarrow> (nat \<times> bytes) option \<times> 'n"

section \<open>The client\<close>

definition ha_port :: "string \<Rightarrow> json \<Rightarrow> ha_error + int" where
  "ha_port label v =
     (case py_int v of
        Some i \<Rightarrow> if 1 \<le> i \<and> i \<le> 65535 then Inr i else Inl (Bad_Value (label @ '' must be between 1 and 65535''))
      | None \<Rightarrow> Inl (Bad_Value (label @ '' must be between 1 and 65535'')))"

definition ha_text :: "string \<Rightarrow> json \<Rightarrow> ha_error + string" where
  "ha_text label v =
     (case v of
        JStr s \<Rightarrow> if s = [] then Inl (Bad_Value (label @ '' must be a non-empty string'')) else Inr s
      | _ \<Rightarrow> Inl (Bad_Value (label @ '' must be a non-empty string'')))"

definition ino_a9_api :: "json \<Rightarrow> json \<Rightarrow> json \<Rightarrow> json \<Rightarrow> ha_error + ha_api" where
  "ino_a9_api host http_port rtsp_port token =
     bind (ha_text ''host'' host) (\<lambda>h.
     bind (ha_port ''http_port'' http_port) (\<lambda>p.
     bind (ha_port ''rtsp_port'' rtsp_port) (\<lambda>r.
     bind (ha_text ''token'' token) (\<lambda>t.
       Inr \<lparr>ha_host = h, ha_http_port = p, ha_rtsp_port = r, ha_token = t\<rparr>))))"

definition url_host :: "string \<Rightarrow> string" where
  "url_host host = (if contains '':'' host \<and> \<not> prefix ''['' host then concat [''['', host, '']''] else host)"

definition base_url :: "ha_api \<Rightarrow> string" where
  "base_url api = concat [''http://'', url_host (ha_host api), '':'', show_int (ha_http_port api)]"

definition rtsp_url :: "ha_api \<Rightarrow> string \<Rightarrow> string" where
  "rtsp_url api camera_id =
     concat [''rtsp://'', url_host (ha_host api), '':'', show_int (ha_rtsp_port api), ''/ino_a9_'', camera_id]"

definition path_part :: "string \<Rightarrow> ha_error + string" where
  "path_part s =
     (if s = [] \<or> CHR ''/'' \<in> set s \<or> CHR ''?'' \<in> set s \<or> CHR ''#'' \<in> set s
      then Inl (Bad_Value ''invalid path component'') else Inr s)"

text \<open>\<open>_request\<close>, \<open>_request_json\<close> and \<open>_request_bytes\<close>.\<close>

definition client_request :: "ha_api \<Rightarrow> string \<Rightarrow> string \<Rightarrow> json option \<Rightarrow> http_request" where
  "client_request api method path payload =
     \<lparr>hr_method = method, hr_url = base_url api @ path,
      hr_headers = (''Authorization'', bearer (ha_token api)) #
        (case payload of None \<Rightarrow> [] | Some _ \<Rightarrow> [(''Content-Type'', ''application/json'')]),
      hr_json = payload\<rparr>"

definition ha_request :: "'n transport \<Rightarrow> ha_api \<Rightarrow> string \<Rightarrow> string \<Rightarrow> json option \<Rightarrow> (bytes, 'n) ha_op" where
  "ha_request transport api method path payload n =
     (case transport (client_request api method path payload) n of
        (None, n) \<Rightarrow> (Inl (Api_Error 503), n)
      | (Some (code, body), n) \<Rightarrow> (if 400 \<le> code then Inl (Api_Error code) else Inr body, n))"

definition ha_request_json :: "'n transport \<Rightarrow> (bytes \<Rightarrow> json option) \<Rightarrow> ha_api \<Rightarrow> string \<Rightarrow> string \<Rightarrow> json option
    \<Rightarrow> (dict, 'n) ha_op" where
  "ha_request_json transport decode api method path payload =
     ha_seq (ha_request transport api method path payload) (\<lambda>body.
       ha_lift (case decode body of Some (JObj d) \<Rightarrow> Inr d | _ \<Rightarrow> Inl (Api_Error 502)))"

definition async_list_cameras :: "'n transport \<Rightarrow> (bytes \<Rightarrow> json option) \<Rightarrow> ha_api \<Rightarrow> (dict list, 'n) ha_op" where
  "async_list_cameras transport decode api =
     ha_seq (ha_request_json transport decode api ''GET'' ''/api/v1/cameras'' None) (\<lambda>payload.
       ha_lift
         (case dict_get payload ''cameras'' of
            JList items \<Rightarrow>
              if list_all (\<lambda>item. case item of JObj _ \<Rightarrow> True | _ \<Rightarrow> False) items
              then Inr (map (\<lambda>item. case item of JObj d \<Rightarrow> d | _ \<Rightarrow> []) items)
              else Inl (Api_Error 502)
          | _ \<Rightarrow> Inl (Api_Error 502)))"

definition async_get_camera :: "'n transport \<Rightarrow> (bytes \<Rightarrow> json option) \<Rightarrow> ha_api \<Rightarrow> string \<Rightarrow> (dict, 'n) ha_op" where
  "async_get_camera transport decode api camera_id =
     ha_seq (ha_lift (path_part camera_id)) (\<lambda>part.
     ha_seq (ha_request_json transport decode api ''GET'' (''/api/v1/cameras/'' @ part) None) (\<lambda>payload.
       ha_lift (if dict_get payload ''id'' = JStr camera_id then Inr payload else Inl (Api_Error 502))))"

definition async_set_control :: "'n transport \<Rightarrow> (bytes \<Rightarrow> json option) \<Rightarrow> ha_api \<Rightarrow> string \<Rightarrow> string \<Rightarrow> dict
    \<Rightarrow> (dict, 'n) ha_op" where
  "async_set_control transport decode api camera_id control payload =
     ha_seq (ha_lift (path_part camera_id)) (\<lambda>part.
     ha_seq (ha_lift (path_part control)) (\<lambda>control_part.
       ha_request_json transport decode api ''PUT''
         (concat [''/api/v1/cameras/'', part, ''/controls/'', control_part]) (Some (JObj payload))))"

definition async_reboot :: "'n transport \<Rightarrow> (bytes \<Rightarrow> json option) \<Rightarrow> ha_api \<Rightarrow> string \<Rightarrow> (dict, 'n) ha_op" where
  "async_reboot transport decode api camera_id =
     ha_seq (ha_lift (path_part camera_id)) (\<lambda>part.
       ha_request_json transport decode api ''POST'' (concat [''/api/v1/cameras/'', part, ''/reboot'']) None)"

definition async_get_snapshot :: "'n transport \<Rightarrow> ha_api \<Rightarrow> string \<Rightarrow> (bytes, 'n) ha_op" where
  "async_get_snapshot transport api camera_id =
     ha_seq (ha_lift (path_part camera_id)) (\<lambda>part.
       ha_request transport api ''GET'' (concat [''/'', part, ''/snapshot.jpg'']) None)"

section \<open>The coordinator\<close>

text \<open>
  \<open>asyncio.gather\<close>: every request runs to its end; the first that failed, if any, decides. The
  requests are run one after the other.
\<close>

fun gather :: "('a \<Rightarrow> ('b, 'n) ha_op) \<Rightarrow> 'a list \<Rightarrow> ('b list, 'n) ha_op" where
  "gather f [] n = (Inr [], n)"
| "gather f (x # xs) n =
     (case f x n of (r, n) \<Rightarrow> (case gather f xs n of (rs, n) \<Rightarrow> (bind r (\<lambda>y. bind rs (\<lambda>ys. Inr (y # ys))), n)))"

definition camera_id_of :: "dict \<Rightarrow> ha_error + string" where
  "camera_id_of summary =
     (case dict_get summary ''id'' of
        JStr s \<Rightarrow> if s = [] then Inl (Bad_Value ''app returned an invalid camera id'') else Inr s
      | _ \<Rightarrow> Inl (Bad_Value ''app returned an invalid camera id''))"

text \<open>\<open>{detail["id"]: detail for detail in details}\<close>; the ids are strings here.\<close>

definition by_id :: "dict list \<Rightarrow> dict" where
  "by_id details =
     foldl (\<lambda>data detail. case dict_get detail ''id'' of JStr i \<Rightarrow> dict_set data i (JObj detail) | _ \<Rightarrow> data) [] details"

definition async_update_data :: "'n transport \<Rightarrow> (bytes \<Rightarrow> json option) \<Rightarrow> ha_api \<Rightarrow> (dict, 'n) ha_op" where
  "async_update_data transport decode api n =
     (case ha_seq (async_list_cameras transport decode api) (\<lambda>summaries.
           ha_seq (ha_lift (map_result camera_id_of summaries)) (\<lambda>camera_ids.
           ha_seq (gather (async_get_camera transport decode api) camera_ids) (\<lambda>details.
             ha_lift (Inr (by_id details))))) n of
        (Inl e, n) \<Rightarrow> (Inl (Update_Failed ''Unable to update INO-A9 cameras''), n)
      | (Inr data, n) \<Rightarrow> (Inr data, n))"

section \<open>Connection data\<close>

text \<open>\<open>_validated_data\<close>; \<open>type(v) is int\<close> excludes booleans.\<close>

definition strict_port :: "json \<Rightarrow> int option" where
  "strict_port v = (case v of JInt i \<Rightarrow> if 1 \<le> i \<and> i \<le> 65535 then Some i else None | _ \<Rightarrow> None)"

definition validated_data :: "dict \<Rightarrow> ha_api option" where
  "validated_data raw =
     (case (dict_get raw ''host'', strict_port (dict_get raw ''http_port''), strict_port (dict_get raw ''rtsp_port''),
            dict_get raw ''token'') of
        (JStr host, Some http_port, Some rtsp_port, JStr token) \<Rightarrow>
          if strip host = [] \<or> token = [] then None
          else Some \<lparr>ha_host = strip host, ha_http_port = http_port, ha_rtsp_port = rtsp_port, ha_token = token\<rparr>
      | _ \<Rightarrow> None)"

definition unique_id :: "ha_api \<Rightarrow> string" where
  "unique_id data = concat [ha_host data, '':'', show_int (ha_http_port data)]"

definition entry_title :: "string \<Rightarrow> string" where
  "entry_title host = concat [''INO-A9 ('', host, '')'']"

text \<open>
  \<open>STEP_USER_DATA_SCHEMA\<close>: what the form of the flow makes of its input before the step sees it; \<open>None\<close>
  is an input the form refuses. \<open>Coerce(int)\<close> is \<open>int(v)\<close>, on ASCII texts.
\<close>

definition coerce_int :: "json \<Rightarrow> int option" where
  "coerce_int v =
     (case v of
        JInt i \<Rightarrow> Some i
      | JBool b \<Rightarrow> Some (if b then 1 else 0)
      | JFloat q \<Rightarrow> Some (if 0 \<le> q then \<lfloor>q\<rfloor> else \<lceil>q\<rceil>)
      | JStr s \<Rightarrow> int_of_text s
      | _ \<Rightarrow> None)"

definition coerce_port :: "json \<Rightarrow> json option" where
  "coerce_port v =
     (case coerce_int v of Some i \<Rightarrow> if 1 \<le> i \<and> i \<le> 65535 then Some (JInt i) else None | None \<Rightarrow> None)"

definition user_schema :: "dict \<Rightarrow> dict option" where
  "user_schema raw =
     (if \<not> fst ` set raw \<subseteq> {''host'', ''http_port'', ''rtsp_port'', ''token''} then None
      else
        (case (map_of raw ''host'', coerce_port (dict_get_default raw ''http_port'' (JInt 8080)),
               coerce_port (dict_get_default raw ''rtsp_port'' (JInt 8554)), map_of raw ''token'') of
           (Some (JStr host), Some http_port, Some rtsp_port, Some (JStr token)) \<Rightarrow>
             Some [(''host'', JStr host), (''http_port'', http_port), (''rtsp_port'', rtsp_port), (''token'', JStr token)]
         | _ \<Rightarrow> None))"

text \<open>
  \<open>async_step_user\<close> and \<open>async_step_hassio\<close>: \<open>taken\<close> are the unique ids of the entries that exist.
\<close>

datatype flow_result = Show_Form "string option" | Abort string | Create_Entry string ha_api

definition create_entry :: "string list \<Rightarrow> ha_api \<Rightarrow> flow_result" where
  "create_entry taken data =
     (if unique_id data \<in> set taken then Abort ''already_configured''
      else Create_Entry (entry_title (ha_host data)) data)"

definition async_step_user :: "string list \<Rightarrow> dict option \<Rightarrow> flow_result" where
  "async_step_user taken user_input =
     (case user_input of
        None \<Rightarrow> Show_Form None
      | Some raw \<Rightarrow>
          (case validated_data raw of
             None \<Rightarrow> Show_Form (Some ''invalid_discovery'')
           | Some data \<Rightarrow> create_entry taken data))"

definition async_step_hassio :: "string list \<Rightarrow> json \<Rightarrow> flow_result" where
  "async_step_hassio taken config =
     (case config of
        JObj raw \<Rightarrow>
          (case validated_data raw of
             None \<Rightarrow> Abort ''invalid_discovery''
           | Some data \<Rightarrow> create_entry taken data)
      | _ \<Rightarrow> Abort ''invalid_discovery'')"

text \<open>What the form accepts is only refused by the step for a blank host or an empty token.\<close>

lemma coerce_port_Some: "coerce_port v = Some w \<Longrightarrow> \<exists>i. w = JInt i \<and> 1 \<le> i \<and> i \<le> 65535"
  by (auto simp: coerce_port_def split: option.splits if_splits)

lemma user_schema_Some:
  assumes "user_schema raw = Some data"
  obtains host token p r where "map_of raw ''host'' = Some (JStr host)" "map_of raw ''token'' = Some (JStr token)"
    "1 \<le> p" "p \<le> 65535" "1 \<le> r" "r \<le> 65535"
    "data = [(''host'', JStr host), (''http_port'', JInt p), (''rtsp_port'', JInt r), (''token'', JStr token)]"
proof -
  obtain x y host token where "map_of raw ''host'' = Some (JStr host)" "map_of raw ''token'' = Some (JStr token)"
      "coerce_port (dict_get_default raw ''http_port'' (JInt 8080)) = Some x"
      "coerce_port (dict_get_default raw ''rtsp_port'' (JInt 8554)) = Some y"
      "data = [(''host'', JStr host), (''http_port'', x), (''rtsp_port'', y), (''token'', JStr token)]"
    using assms unfolding user_schema_def prod.case by (simp split: if_splits option.splits json.splits)
  with that show thesis by (blast dest: coerce_port_Some)
qed

lemma form_accepted:
  assumes "user_schema raw = Some data"
  shows "\<exists>host token. map_of raw ''host'' = Some (JStr host) \<and> map_of raw ''token'' = Some (JStr token) \<and>
    (case async_step_user taken (Some data) of
       Show_Form e \<Rightarrow> e = Some ''invalid_discovery'' \<and> (strip host = [] \<or> token = [])
     | Abort reason \<Rightarrow> reason = ''already_configured''
     | Create_Entry title api \<Rightarrow> ha_host api = strip host \<and> ha_token api = token)"
proof -
  obtain host token p r where d: "map_of raw ''host'' = Some (JStr host)" "map_of raw ''token'' = Some (JStr token)"
      "1 \<le> p" "p \<le> 65535" "1 \<le> r" "r \<le> 65535"
      "data = [(''host'', JStr host), (''http_port'', JInt p), (''rtsp_port'', JInt r), (''token'', JStr token)]"
    by (rule user_schema_Some [OF assms])
  then have "validated_data data = (if strip host = [] \<or> token = [] then None
      else Some \<lparr>ha_host = strip host, ha_http_port = p, ha_rtsp_port = r, ha_token = token\<rparr>)"
    by (simp add: validated_data_def dict_get_def strict_port_def)
  with d(1,2) show ?thesis by (simp add: async_step_user_def create_entry_def)
qed

text \<open>\<open>async_get_config_entry_diagnostics\<close>, the part with the entry's data.\<close>

definition redacted :: "dict \<Rightarrow> dict" where
  "redacted entry_data =
     (if map_of entry_data ''token'' = None then entry_data
      else dict_set entry_data ''token'' (JStr ''**REDACTED**''))"

end
