(* ===== verification/HA_Entities.thy ===== *)
theory HA_Entities
  imports HA_Client
begin

text \<open>
  The entities of the integration: \<open>entity.py\<close>, \<open>select.py\<close>, \<open>switch.py\<close>, \<open>button.py\<close> and \<open>camera.py\<close> of
  \<open>custom_components/ino_a9\<close>, what they show of the coordinator's data and what they send.

  The operations of an entity run on the state \<open>'n\<close> of the transport; \<open>refresh\<close> is what
  \<open>async_request_refresh\<close> of Home Assistant does to it. \<open>from_iso\<close> is \<open>time.fromisoformat\<close> on texts without
  an offset, \<open>None\<close> when it raises.
\<close>

section \<open>The coordinator as entities see it\<close>

record coordinator =
  cd_data :: dict
  cd_success :: bool

definition camera_data :: "coordinator \<Rightarrow> string \<Rightarrow> dict" where
  "camera_data cd camera_id =
     (case dict_get_default (cd_data cd) camera_id (JObj []) of JObj d \<Rightarrow> d | _ \<Rightarrow> [])"

definition available :: "coordinator \<Rightarrow> string \<Rightarrow> bool" where
  "available cd camera_id \<longleftrightarrow> cd_success cd \<and> dict_get (camera_data cd camera_id) ''connected'' = JBool True"

text \<open>\<open>str.title()\<close> on ASCII text.\<close>

definition is_upper :: "char \<Rightarrow> bool" where
  "is_upper c \<longleftrightarrow> (let n = of_char c :: nat in 65 \<le> n \<and> n \<le> 90)"

definition is_lower :: "char \<Rightarrow> bool" where
  "is_lower c \<longleftrightarrow> (let n = of_char c :: nat in 97 \<le> n \<and> n \<le> 122)"

definition to_upper :: "char \<Rightarrow> char" where
  "to_upper c = (if is_lower c then char_of (of_char c - 32 :: nat) else c)"

definition to_lower :: "char \<Rightarrow> char" where
  "to_lower c = (if is_upper c then char_of (of_char c + 32 :: nat) else c)"

fun title_from :: "bool \<Rightarrow> string \<Rightarrow> string" where
  "title_from in_word [] = []"
| "title_from in_word (c # s) =
     (if is_upper c \<or> is_lower c then (if in_word then to_lower c else to_upper c) # title_from True s
      else c # title_from False s)"

definition camera_name :: "coordinator \<Rightarrow> string \<Rightarrow> string" where
  "camera_name cd camera_id =
     (let fallback = title_from False (map (\<lambda>c. if c = CHR ''_'' \<or> c = CHR ''-'' then CHR '' '' else c) camera_id) in
      case dict_get (camera_data cd camera_id) ''name'' of
        JStr s \<Rightarrow> if strip s = [] then fallback else strip s
      | _ \<Rightarrow> fallback)"

definition unknown_state :: dict where
  "unknown_state = [(''value'', JNull), (''known'', JBool False), (''source'', JStr ''unknown'')]"

definition control_state :: "coordinator \<Rightarrow> string \<Rightarrow> string \<Rightarrow> dict" where
  "control_state cd camera_id control =
     (case dict_get (camera_data cd camera_id) ''controls'' of
        JObj controls \<Rightarrow> (case dict_get controls control of JObj st \<Rightarrow> st | _ \<Rightarrow> unknown_state)
      | _ \<Rightarrow> unknown_state)"

definition is_known :: "dict \<Rightarrow> bool" where
  "is_known st \<longleftrightarrow> dict_get st ''known'' = JBool True"

text \<open>\<open>platform_entities\<close>, and the ids the platforms make entities for.\<close>

definition platform_entities :: "coordinator \<Rightarrow> dict list" where
  "platform_entities cd =
     concat (map (\<lambda>(k, v). case v of
         JObj d \<Rightarrow> (case dict_get d ''id'' of JStr _ \<Rightarrow> [d] | _ \<Rightarrow> [])
       | _ \<Rightarrow> []) (cd_data cd))"

definition document_id :: "dict \<Rightarrow> string" where
  "document_id d = (case dict_get d ''id'' of JStr i \<Rightarrow> i | _ \<Rightarrow> [])"

section \<open>Sending a control\<close>

text \<open>\<open>_async_set_control\<close>; the last argument of \<open>or_ha_error\<close> is the message of the new exception.\<close>

definition or_ha_error :: "('a, 'n) ha_op \<Rightarrow> string \<Rightarrow> ('a, 'n) ha_op" where
  "or_ha_error m message n =
     (case m n of
        (Inl (Api_Error _), n) \<Rightarrow> (Inl (Home_Assistant_Error message), n)
      | (r, n) \<Rightarrow> (r, n))"

definition entity_set_control :: "'n transport \<Rightarrow> (bytes \<Rightarrow> json option) \<Rightarrow> ('n \<Rightarrow> 'n) \<Rightarrow> ha_api \<Rightarrow> string \<Rightarrow> string
    \<Rightarrow> dict \<Rightarrow> (unit, 'n) ha_op" where
  "entity_set_control transport decode refresh api camera_id control payload =
     or_ha_error
       (ha_seq (async_set_control transport decode api camera_id control payload) (\<lambda>_ n. (Inr (), refresh n)))
       ''Unable to control the INO-A9 camera''"

section \<open>The intrusion payload\<close>

definition NO_SCHEDULE :: ha_error where
  "NO_SCHEDULE = Home_Assistant_Error ''The camera has no valid intrusion schedule''"

definition validated_schedule :: "(string \<Rightarrow> clock option) \<Rightarrow> json \<Rightarrow> ha_error + json" where
  "validated_schedule from_iso v =
     (case v of
        JObj d \<Rightarrow>
          (case (dict_get d ''days'', dict_get d ''start'', dict_get d ''end'') of
             (JList raw_days, JStr s, JStr e) \<Rightarrow>
               if raw_days = [] \<or> \<not> list_all is_day raw_days \<or>
                 map json_int raw_days \<noteq> sorted_list_of_set (set (map json_int raw_days)) then Inl NO_SCHEDULE
               else
                 (case (from_iso s, from_iso e) of
                    (Some start_time, Some end_time) \<Rightarrow>
                      if end_time < start_time then Inl NO_SCHEDULE
                      else Inr (JObj [(''days'', JList raw_days), (''start'', JStr s), (''end'', JStr e)])
                  | _ \<Rightarrow> Inl NO_SCHEDULE)
           | _ \<Rightarrow> Inl NO_SCHEDULE)
      | _ \<Rightarrow> Inl NO_SCHEDULE)"

definition all_week :: json where
  "all_week = JObj [(''days'', JList (map JInt [0, 1, 2, 3, 4, 5, 6])), (''start'', JStr ''00:00''), (''end'', JStr ''23:59'')]"

definition intrusion_payload :: "(string \<Rightarrow> clock option) \<Rightarrow> dict \<Rightarrow> bool \<Rightarrow> ha_error + dict" where
  "intrusion_payload from_iso st enabled =
     (let v = (if is_known st then dict_get st ''value'' else JNull);
          raw = (case v of JObj d \<Rightarrow> dict_get d ''schedule'' | _ \<Rightarrow> JNull) in
      if raw = JNull \<and> enabled
      then Inl (Home_Assistant_Error ''Set an intrusion schedule before enabling intrusion detection'')
      else
        bind (validated_schedule from_iso (if raw = JNull then all_week else raw)) (\<lambda>s.
          Inr [(''enabled'', JBool enabled), (''schedule'', s)]))"

section \<open>Selects\<close>

definition NIGHT_VISION_OPTIONS :: "string list" where
  [simp]: "NIGHT_VISION_OPTIONS = [''automatic'', ''enabled'', ''disabled'']"

definition FLIP_OPTIONS :: "string list" where
  [simp]: "FLIP_OPTIONS = [''upright'', ''horizontal'', ''vertical'', ''rotate_180'']"

definition VIDEO_QUALITY_OPTIONS :: "string list" where
  [simp]: "VIDEO_QUALITY_OPTIONS = [''sd'', ''hd'', ''uhd'']"

definition MOTION_OPTIONS :: "string list" where
  [simp]: "MOTION_OPTIONS = [''high'', ''medium'', ''low'', ''closed'']"

definition CONTROL_OPTIONS :: "(string \<times> string list) list" where
  "CONTROL_OPTIONS =
     [(''night_vision'', NIGHT_VISION_OPTIONS), (''flip'', FLIP_OPTIONS),
      (''video_quality'', VIDEO_QUALITY_OPTIONS), (''motion'', MOTION_OPTIONS)]"

text \<open>The options of a select; \<open>None\<close> is the \<open>ValueError\<close> of the constructor.\<close>

definition select_options :: "string \<Rightarrow> string list option" where
  "select_options control = map_of CONTROL_OPTIONS control"

definition current_option :: "coordinator \<Rightarrow> string \<Rightarrow> string \<Rightarrow> string list \<Rightarrow> string option" where
  "current_option cd camera_id control options =
     (let st = control_state cd camera_id control in
      case dict_get st ''value'' of
        JStr v \<Rightarrow> if is_known st \<and> v \<in> set options then Some v else None
      | _ \<Rightarrow> None)"

text \<open>\<open>_valid_option_or_raise\<close> of Home Assistant raises when the option is not one of the select's.\<close>

definition async_select_option :: "'n transport \<Rightarrow> (bytes \<Rightarrow> json option) \<Rightarrow> ('n \<Rightarrow> 'n) \<Rightarrow> ha_api \<Rightarrow> string \<Rightarrow> string
    \<Rightarrow> string list \<Rightarrow> string \<Rightarrow> (unit, 'n) ha_op" where
  "async_select_option transport decode refresh api camera_id control options option =
     (if option \<notin> set options then ha_lift (Inl (Service_Validation_Error ''not a valid option''))
      else entity_set_control transport decode refresh api camera_id control [(''value'', JStr option)])"

section \<open>Switches\<close>

definition is_on :: "coordinator \<Rightarrow> string \<Rightarrow> string \<Rightarrow> bool option" where
  "is_on cd camera_id control =
     (let st = control_state cd camera_id control in
      if \<not> is_known st then None
      else
        let v = dict_get st ''value'';
            v = (case v of JObj d \<Rightarrow> if control = ''intrusion'' then dict_get d ''enabled'' else v | _ \<Rightarrow> v) in
        case v of JBool b \<Rightarrow> Some b | _ \<Rightarrow> None)"

text \<open>\<open>async_turn_on\<close> and \<open>async_turn_off\<close>.\<close>

definition switch_payload :: "(string \<Rightarrow> clock option) \<Rightarrow> coordinator \<Rightarrow> string \<Rightarrow> string \<Rightarrow> bool \<Rightarrow> ha_error + dict" where
  "switch_payload from_iso cd camera_id control enabled =
     (if control = ''intrusion'' then intrusion_payload from_iso (control_state cd camera_id control) enabled
      else Inr [(''value'', JBool enabled)])"

definition async_turn :: "'n transport \<Rightarrow> (bytes \<Rightarrow> json option) \<Rightarrow> ('n \<Rightarrow> 'n) \<Rightarrow> (string \<Rightarrow> clock option) \<Rightarrow> ha_api
    \<Rightarrow> coordinator \<Rightarrow> string \<Rightarrow> string \<Rightarrow> bool \<Rightarrow> (unit, 'n) ha_op" where
  "async_turn transport decode refresh from_iso api cd camera_id control enabled =
     ha_seq (ha_lift (switch_payload from_iso cd camera_id control enabled)) (\<lambda>payload.
       entity_set_control transport decode refresh api camera_id control payload)"

section \<open>The button and the camera\<close>

definition async_press :: "'n transport \<Rightarrow> (bytes \<Rightarrow> json option) \<Rightarrow> ha_api \<Rightarrow> string \<Rightarrow> (unit, 'n) ha_op" where
  "async_press transport decode api camera_id =
     or_ha_error (ha_seq (async_reboot transport decode api camera_id) (\<lambda>_. ha_lift (Inr ())))
       ''Unable to reboot the INO-A9 camera''"

definition async_camera_image :: "'n transport \<Rightarrow> ha_api \<Rightarrow> string \<Rightarrow> (bytes, 'n) ha_op" where
  "async_camera_image transport api camera_id =
     or_ha_error (async_get_snapshot transport api camera_id) ''Unable to fetch the INO-A9 camera image''"

definition stream_source :: "ha_api \<Rightarrow> string \<Rightarrow> string" where
  "stream_source api camera_id = rtsp_url api camera_id"

end
