(* ===== verification/HA_Platforms.thy ===== *)
theory HA_Platforms
  imports HA_Entities
begin

text \<open>
  The entities of a config entry: \<open>InoA9Entity.__init__\<close> of \<open>entity.py\<close>, the constructors of the four
  platforms of \<open>custom_components/ino_a9\<close> and what their \<open>async_setup_entry\<close> adds; and the diagnostics of
  an entry.
\<close>

section \<open>Entries\<close>

record entry =
  en_id :: string
  en_unique_id :: "string option"
  en_runtime :: "(ha_api \<times> coordinator) option"

definition entry_key :: "entry \<Rightarrow> string" where
  "entry_key en = (case en_unique_id en of None \<Rightarrow> en_id en | Some u \<Rightarrow> if u = [] then en_id en else u)"

type_synonym identifiers = "string list list"

section \<open>Constructing an entity\<close>

record entity =
  et_camera_id :: string
  et_unique_id :: string
  et_name :: string
  et_identifier :: "string list"
  et_device_name :: string
  et_options :: "string list"

definition entity_unique_id :: "entry \<Rightarrow> string \<Rightarrow> string \<Rightarrow> string" where
  "entity_unique_id en camera_id entity_suffix =
     concat [''ino_a9_'', en_id en, ''_'', camera_id, ''_'', entity_suffix]"

definition device_identifier :: "entry \<Rightarrow> string \<Rightarrow> string list" where
  "device_identifier en camera_id = [''ino_a9'', entry_key en, camera_id]"

definition ino_a9_entity :: "coordinator \<Rightarrow> entry \<Rightarrow> string \<Rightarrow> string \<Rightarrow> string \<Rightarrow> entity" where
  "ino_a9_entity cd en camera_id entity_suffix name =
     \<lparr>et_camera_id = camera_id, et_unique_id = entity_unique_id en camera_id entity_suffix, et_name = name,
      et_identifier = device_identifier en camera_id, et_device_name = camera_name cd camera_id, et_options = []\<rparr>"

definition CONTROL_LABELS :: "(string \<times> string) list" where
  "CONTROL_LABELS =
     [(''night_vision'', ''Night vision''), (''flip'', ''Image orientation''),
      (''video_quality'', ''Video quality''), (''motion'', ''Motion sensitivity'')]"

text \<open>
  The two tables of the select have the same keys, so the inner \<open>None\<close> (a \<open>KeyError\<close> in the source) is
  never reached.
\<close>

definition ino_a9_select :: "coordinator \<Rightarrow> entry \<Rightarrow> string \<Rightarrow> string \<Rightarrow> ha_error + entity" where
  "ino_a9_select cd en camera_id control =
     (case select_options control of
        None \<Rightarrow> Inl (Bad_Value ''unsupported INO-A9 select control'')
      | Some options \<Rightarrow>
          (case map_of CONTROL_LABELS control of
             None \<Rightarrow> Inl (Bad_Value control)
           | Some label \<Rightarrow> Inr ((ino_a9_entity cd en camera_id control label)\<lparr>et_options := options\<rparr>)))"

definition ino_a9_switch :: "coordinator \<Rightarrow> entry \<Rightarrow> string \<Rightarrow> string \<Rightarrow> ha_error + entity" where
  "ino_a9_switch cd en camera_id control =
     (if control \<notin> {''led'', ''intrusion''} then Inl (Bad_Value ''unsupported INO-A9 switch control'')
      else Inr (ino_a9_entity cd en camera_id control
        (if control = ''led'' then ''Status LED'' else ''Intrusion detection'')))"

definition ino_a9_camera :: "coordinator \<Rightarrow> entry \<Rightarrow> string \<Rightarrow> entity" where
  "ino_a9_camera cd en camera_id = ino_a9_entity cd en camera_id ''camera'' ''Camera''"

definition ino_a9_reboot_button :: "coordinator \<Rightarrow> entry \<Rightarrow> string \<Rightarrow> entity" where
  "ino_a9_reboot_button cd en camera_id = ino_a9_entity cd en camera_id ''reboot'' ''Reboot''"

section \<open>The platforms\<close>

text \<open>What each platform adds for an entry, and all of them in the order of \<open>PLATFORMS\<close>.\<close>

definition camera_setup :: "coordinator \<Rightarrow> entry \<Rightarrow> entity list" where
  "camera_setup cd en = map (\<lambda>d. ino_a9_camera cd en (document_id d)) (platform_entities cd)"

definition switch_setup :: "coordinator \<Rightarrow> entry \<Rightarrow> ha_error + entity list" where
  "switch_setup cd en =
     map_result (\<lambda>(d, control). ino_a9_switch cd en (document_id d) control)
       (List.product (platform_entities cd) [''led'', ''intrusion''])"

definition select_setup :: "coordinator \<Rightarrow> entry \<Rightarrow> ha_error + entity list" where
  "select_setup cd en =
     map_result (\<lambda>(d, control). ino_a9_select cd en (document_id d) control)
       (List.product (platform_entities cd) (map fst CONTROL_OPTIONS))"

definition button_setup :: "coordinator \<Rightarrow> entry \<Rightarrow> entity list" where
  "button_setup cd en = map (\<lambda>d. ino_a9_reboot_button cd en (document_id d)) (platform_entities cd)"

definition setup_platforms :: "coordinator \<Rightarrow> entry \<Rightarrow> ha_error + entity list" where
  "setup_platforms cd en =
     bind (switch_setup cd en) (\<lambda>switches.
     bind (select_setup cd en) (\<lambda>selects.
       Inr (camera_setup cd en @ switches @ selects @ button_setup cd en)))"

text \<open>The constructors accept the controls of their platform, so setting up never raises.\<close>

lemma map_result_total: "(\<And>x. x \<in> set xs \<Longrightarrow> f x = Inr (g x)) \<Longrightarrow> map_result f xs = Inr (map g xs)"
  by (induction xs) simp_all

lemma switch_setup_Inr:
  "switch_setup cd en = Inr (map (\<lambda>(d, control). ino_a9_entity cd en (document_id d) control
       (if control = ''led'' then ''Status LED'' else ''Intrusion detection''))
     (List.product (platform_entities cd) [''led'', ''intrusion'']))"
  unfolding switch_setup_def by (rule map_result_total) (auto simp: ino_a9_switch_def)

lemma select_setup_Inr:
  "select_setup cd en = Inr (map (\<lambda>(d, control). (ino_a9_entity cd en (document_id d) control
       (the (map_of CONTROL_LABELS control)))\<lparr>et_options := the (select_options control)\<rparr>)
     (List.product (platform_entities cd) (map fst CONTROL_OPTIONS)))"
  unfolding select_setup_def
  by (rule map_result_total) (auto simp: ino_a9_select_def select_options_def CONTROL_OPTIONS_def CONTROL_LABELS_def)

section \<open>Diagnostics\<close>

text \<open>\<open>async_get_config_entry_diagnostics\<close>; the exception is given by the name of its class.\<close>

definition diagnostics :: "dict \<Rightarrow> coordinator \<Rightarrow> string option \<Rightarrow> json" where
  "diagnostics entry_data cd last_exception =
     JObj [(''config_entry'', JObj (redacted entry_data)),
       (''coordinator'', JObj [(''last_update_success'', JBool (cd_success cd)),
         (''last_exception'', case last_exception of None \<Rightarrow> JNull | Some name \<Rightarrow> JStr name)]),
       (''cameras'', JObj (cd_data cd))]"

end
