(* ===== verification/HA_Service.thy ===== *)
theory HA_Service
  imports HA_Platforms
begin

text \<open>
  Setting up an entry and the service \<open>set_intrusion_schedule\<close>: \<open>custom_components/ino_a9/__init__.py\<close>.

  Of the service schema, the library's own validators have run: the device id is one string, \<open>enabled\<close> a
  boolean, the weekdays are integers and the times \<open>datetime.time\<close> values; what the integration adds to
  them is modelled. A device of the registry is the list of its identifiers.
\<close>

section \<open>The service schema\<close>

definition validate_weekdays :: "int list \<Rightarrow> ha_error + int list" where
  "validate_weekdays v =
     (if v \<noteq> sorted_list_of_set (set v) then Inl (Bad_Value ''weekdays must be sorted and unique'') else Inr v)"

definition service_weekdays :: "int list \<Rightarrow> ha_error + int list" where
  "service_weekdays v =
     (if \<not> list_all (\<lambda>d. 0 \<le> d \<and> d \<le> 6) v then Inl (Bad_Value ''value must be between 0 and 6'')
      else if length v < 1 \<or> 7 < length v then Inl (Bad_Value ''length of value must be between 1 and 7'')
      else validate_weekdays v)"

definition validate_time :: "time_value \<Rightarrow> ha_error + clock" where
  "validate_time v =
     (case v of
        Naive c \<Rightarrow>
          if second c \<noteq> 0 \<or> microsecond c \<noteq> 0 then Inl (Bad_Value ''time must have minute precision'') else Inr c
      | _ \<Rightarrow> Inl (Bad_Value ''time must have minute precision''))"

record service_call =
  sc_enabled :: bool
  sc_weekdays :: "int list"
  sc_start :: clock
  sc_end :: clock

definition service_schema :: "bool \<Rightarrow> int list \<Rightarrow> time_value \<Rightarrow> time_value \<Rightarrow> ha_error + service_call" where
  "service_schema enabled weekdays start_time end_time =
     bind (service_weekdays weekdays) (\<lambda>w.
     bind (validate_time start_time) (\<lambda>s.
     bind (validate_time end_time) (\<lambda>e.
       Inr \<lparr>sc_enabled = enabled, sc_weekdays = w, sc_start = s, sc_end = e\<rparr>)))"

section \<open>The service\<close>

text \<open>The camera of a device in an entry: the first identifier that names one of its coordinator.\<close>

definition device_camera :: "identifiers \<Rightarrow> entry \<Rightarrow> coordinator \<Rightarrow> string option" where
  "device_camera device en cd =
     map_option (\<lambda>identifier. identifier ! 2)
       (find (\<lambda>identifier. length identifier = 3 \<and> identifier ! 0 = ''ino_a9'' \<and> identifier ! 1 = entry_key en \<and>
          identifier ! 2 \<in> fst ` set (cd_data cd)) device)"

text \<open>Comparing two strings with \<open>>\<close>, by code points.\<close>

fun string_less :: "string \<Rightarrow> string \<Rightarrow> bool" where
  "string_less s [] = False"
| "string_less [] (d # t) = True"
| "string_less (c # s) (d # t) =
     ((of_char c :: nat) < of_char d \<or> c = d \<and> string_less s t)"

definition service_payload :: "service_call \<Rightarrow> ha_error + dict" where
  "service_payload call =
     (let s = strftime_clock (sc_start call); e = strftime_clock (sc_end call) in
      if string_less e s then Inl (Service_Validation_Error ''The intrusion schedule must not cross midnight'')
      else Inr [(''enabled'', JBool (sc_enabled call)),
        (''schedule'', JObj [(''days'', JList (map JInt (sc_weekdays call))), (''start'', JStr s), (''end'', JStr e)])])"

text \<open>\<open>_service_set_intrusion_schedule\<close>; \<open>refresh\<close> asks the coordinator of the entry for new data.\<close>

fun service_loop :: "'n transport \<Rightarrow> (bytes \<Rightarrow> json option) \<Rightarrow> (entry \<Rightarrow> 'n \<Rightarrow> 'n) \<Rightarrow> identifiers \<Rightarrow> service_call
    \<Rightarrow> entry list \<Rightarrow> (unit, 'n) ha_op" where
  "service_loop transport decode refresh device call [] =
     ha_lift (Inl (Service_Validation_Error ''The selected device is not an INO-A9 camera''))"
| "service_loop transport decode refresh device call (en # ens) =
     (case en_runtime en of
        None \<Rightarrow> service_loop transport decode refresh device call ens
      | Some (api, cd) \<Rightarrow>
          (case device_camera device en cd of
             None \<Rightarrow> service_loop transport decode refresh device call ens
           | Some camera_id \<Rightarrow>
               ha_seq (ha_lift (service_payload call)) (\<lambda>payload.
                 or_ha_error
                   (ha_seq (async_set_control transport decode api camera_id ''intrusion'' payload)
                     (\<lambda>_ n. (Inr (), refresh en n)))
                   ''Unable to set the INO-A9 intrusion schedule'')))"

definition service_set_intrusion_schedule :: "'n transport \<Rightarrow> (bytes \<Rightarrow> json option) \<Rightarrow> (entry \<Rightarrow> 'n \<Rightarrow> 'n)
    \<Rightarrow> identifiers option \<Rightarrow> service_call \<Rightarrow> entry list \<Rightarrow> (unit, 'n) ha_op" where
  "service_set_intrusion_schedule transport decode refresh device call ens =
     (case device of
        None \<Rightarrow> ha_lift (Inl (Service_Validation_Error ''The selected INO-A9 device was not found''))
      | Some d \<Rightarrow> service_loop transport decode refresh d call ens)"

section \<open>Setting up and unloading\<close>

text \<open>
  What Home Assistant keeps of the integration: the loaded entries, by id, those whose coordinator was
  shut down, and whether the service is registered. \<open>async_setup_entry\<close> stops when the first refresh fails; \<open>platforms_ok\<close> is the result of
  unloading the platforms, after which Home Assistant counts the entry as not loaded.
\<close>

record hass =
  hs_entries :: "(string \<times> (ha_api \<times> coordinator)) list"
  hs_stopped :: "string list"
  hs_service :: bool

definition async_setup_entry :: "'n transport \<Rightarrow> (bytes \<Rightarrow> json option) \<Rightarrow> string \<Rightarrow> dict \<Rightarrow> hass \<Rightarrow> 'n
    \<Rightarrow> (ha_error + hass) \<times> 'n" where
  "async_setup_entry transport decode entry_id data h n =
     (case ino_a9_api (dict_get data ''host'') (dict_get data ''http_port'') (dict_get data ''rtsp_port'')
             (dict_get data ''token'') of
        Inl e \<Rightarrow> (Inl e, n)
      | Inr api \<Rightarrow>
          (case async_update_data transport decode api n of
             (Inl e, n) \<Rightarrow> (Inl e, n)
           | (Inr cameras_data, n) \<Rightarrow>
               (Inr \<lparr>hs_entries = (entry_id, api, \<lparr>cd_data = cameras_data, cd_success = True\<rparr>) # hs_entries h,
                     hs_stopped = filter (\<lambda>i. i \<noteq> entry_id) (hs_stopped h), hs_service = True\<rparr>, n)))"

definition async_unload_entry :: "bool \<Rightarrow> string \<Rightarrow> hass \<Rightarrow> bool \<times> hass" where
  "async_unload_entry platforms_ok entry_id h =
     (platforms_ok,
      \<lparr>hs_entries = (if platforms_ok then filter (\<lambda>(i, _). i \<noteq> entry_id) (hs_entries h) else hs_entries h),
       hs_stopped = (if entry_id \<in> fst ` set (hs_entries h) then entry_id # hs_stopped h else hs_stopped h),
       hs_service = False\<rparr>)"

end
