(* ===== verification/HA_Link.thy ===== *)
theory HA_Link
  imports HA_Client
begin

text \<open>
  The integration and the app together: what the app tells Home Assistant at discovery opens its API;
  a control that the client reports as set is stored by the bridge; the coordinator's update.
\<close>

section \<open>From discovery to an authorised client\<close>

definition discovered_config :: "json \<Rightarrow> json" where
  "discovered_config document = (case document of JObj d \<Rightarrow> dict_get d ''config'' | _ \<Rightarrow> JNull)"

lemma set_strip: "set (strip s) \<subseteq> set s"
  unfolding strip_def using set_dropWhileD [of _ is_space] by (auto dest!: set_dropWhileD)

lemma discovered_data:
  assumes "strip hostname \<noteq> []" and "token \<noteq> []"
  shows "validated_data [(''host'', JStr hostname), (''http_port'', JInt 8080), (''rtsp_port'', JInt 8554), (''token'', JStr token)] =
    Some \<lparr>ha_host = strip hostname, ha_http_port = 8080, ha_rtsp_port = 8554, ha_token = token\<rparr>"
  using assms by (simp add: validated_data_def dict_get_def strict_port_def)



section \<open>From an entity to the store of the bridge\<close>

text \<open>
  The bridge as the client's transport: the request line has the target after the base URL, the body is
  \<open>json=payload\<close> printed by \<open>body_dumps\<close>; a handler that raises closes the connection without a
  response, which the client sees as a \<open>ClientError\<close>.
\<close>

definition http_message :: "(json \<Rightarrow> string) \<Rightarrow> ha_api \<Rightarrow> http_request \<Rightarrow> request" where
  "http_message body_dumps api rq =
     (let body = (case hr_json rq of None \<Rightarrow> [] | Some v \<Rightarrow> str_encode (body_dumps v)) in
      \<lparr>rq_method = hr_method rq, rq_target = drop (length (base_url api)) (hr_url rq),
       rq_authorization = map_of (hr_headers rq) ''Authorization'',
       rq_content_length = (if hr_json rq = None then None else Some (show_nat (length body))), rq_body = body\<rparr>)"

definition bridge_transport :: "(json \<Rightarrow> string) \<Rightarrow> (json \<Rightarrow> string) \<Rightarrow> server \<Rightarrow> turn list \<Rightarrow> nat \<Rightarrow> ha_api
    \<Rightarrow> workers api_state transport" where
  "bridge_transport body_dumps dumps sv ts now api rq a =
     (case serve dumps sv ts now (http_message body_dumps api rq) a of
        (Inl e, a) \<Rightarrow> (None, a)
      | (Inr resp, a) \<Rightarrow>
          ((case resp of
              Reply code hs body \<Rightarrow> Some (code, body)
            | Error_Page code m \<Rightarrow> Some (code, [])
            | Endless hs body \<Rightarrow> Some (200, body)), a))"

lemma int_digits_list: "s \<noteq> [] \<Longrightarrow> list_all is_digit s \<Longrightarrow> int_digits s"
  by (induction s rule: int_digits.induct) (auto simp: is_digit_def)

lemma digit_plain: "is_digit c \<Longrightarrow> \<not> is_space c \<and> c \<noteq> CHR ''-'' \<and> c \<noteq> CHR ''+'' \<and> c \<noteq> CHR ''_''"
  by (auto simp: is_digit_def is_space_def Let_def)

lemma int_of_show_nat: "int_of_text (show_nat n) = Some (int n)"
proof -
  have digits: "\<forall>c \<in> set (show_nat n). is_digit c" by (rule show_nat_digits)
  then have plain: "\<forall>c \<in> set (show_nat n). \<not> is_space c \<and> c \<noteq> CHR ''-'' \<and> c \<noteq> CHR ''+'' \<and> c \<noteq> CHR ''_''"
    using digit_plain by blast
  have drop: "dropWhile is_space s = s" if "\<forall>c \<in> set s. \<not> is_space c" for s
    using that by (cases s) auto
  have "strip (show_nat n) = show_nat n"
    using drop [of "show_nat n"] drop [of "rev (show_nat n)"] plain by (simp add: strip_def)
  moreover have "\<not> prefix ''-'' (show_nat n)" "\<not> prefix ''+'' (show_nat n)"
    using plain by (cases "show_nat n"; force)+
  moreover have "filter (\<lambda>c. c \<noteq> CHR ''_'') (show_nat n) = show_nat n"
    using plain by (simp add: filter_id_conv)
  moreover have "int_digits (show_nat n)"
    using digits by (intro int_digits_list) (auto simp: list_all_iff)
  ultimately show ?thesis by (simp add: int_of_text_def Let_def)
qed

definition control_path :: "string \<Rightarrow> string \<Rightarrow> string" where
  "control_path camera_id control = concat [''/api/v1/cameras/'', camera_id, ''/controls/'', control]"

lemma control_path_target:
  assumes "SAFE_NAME i" and "SAFE_NAME c"
  shows "path_parts (urlsplit_path (control_path i c)) = [''api'', ''v1'', ''cameras'', i, ''controls'', c]"
proof -
  have plain: "CHR ''?'' \<notin> set s \<and> CHR ''#'' \<notin> set s \<and> CHR ''/'' \<notin> set s" if "SAFE_NAME s" for s
  proof -
    have "\<forall>c \<in> set s. safe_char c" using that by (auto simp: SAFE_NAME_def list_all_iff)
    moreover have "\<not> safe_char (CHR ''?'')" "\<not> safe_char (CHR ''#'')" "\<not> safe_char (CHR ''/'')"
      by (simp_all add: safe_char_def)
    ultimately show ?thesis by blast
  qed
  have "CHR ''?'' \<notin> set (control_path i c)" "CHR ''#'' \<notin> set (control_path i c)"
    using plain [OF assms(1)] plain [OF assms(2)] by (simp_all add: control_path_def)
  then have whole: "takeWhile (\<lambda>x. x \<noteq> CHR ''#'') (control_path i c) = control_path i c"
    "takeWhile (\<lambda>x. x \<noteq> CHR ''?'') (control_path i c) = control_path i c"
    by auto
  have "drop_scheme (control_path i c) = control_path i c" "\<not> prefix ''//'' (control_path i c)"
    by (simp_all add: drop_scheme_def control_path_def Let_def scheme_char_def)
  then have "urlsplit_path (control_path i c) = control_path i c"
    by (simp only: urlsplit_path_def Let_def if_False whole)
  moreover have "split_slash (control_path i c) = [[], ''api'', ''v1'', ''cameras'', i, ''controls'', c]"
    using plain [OF assms(1)] plain [OF assms(2)] by (simp add: control_path_def split_slash_append split_slash_safe)
  ultimately show ?thesis using assms by (simp add: path_parts_def SAFE_NAME_def)
qed

lemma set_control_answered:
  assumes "async_set_control transport decode api i c payload n = (Inr d, n')"
  obtains body where "path_part i = Inr i" "path_part c = Inr c"
    "ha_request transport api ''PUT'' (control_path i c) (Some (JObj payload)) n = (Inr body, n')" "decode body = Some (JObj d)"
proof -
  have part: "path_part s = Inr t \<Longrightarrow> t = s" for s t by (auto simp: path_part_def split: if_splits)
  obtain body where "path_part i = Inr i" "path_part c = Inr c"
    and req: "ha_request transport api ''PUT'' (control_path i c) (Some (JObj payload)) n = (Inr body, n')"
    and dec: "(case decode body of Some (JObj d) \<Rightarrow> Inr d | _ \<Rightarrow> Inl (Api_Error 502)) = Inr d"
    using assms by (auto simp: async_set_control_def ha_request_json_def ha_seq_Inr_iff control_path_def dest: part)
  moreover from dec have "decode body = Some (JObj d)" by (auto split: option.splits json.splits)
  ultimately show thesis using that by blast
qed

lemma control_message:
  fixes api body_dumps payload i c
  defines "msg \<equiv> http_message body_dumps api (client_request api ''PUT'' (control_path i c) (Some (JObj payload)))"
  shows "rq_method msg = ''PUT''" "rq_target msg = control_path i c" "rq_authorization msg = Some (bearer (ha_token api))"
    "read_body msg = str_encode (body_dumps (JObj payload))"
  by (simp_all add: msg_def http_message_def client_request_def read_body_def int_of_show_nat Let_def del: length_str_encode)

lemma put_through_bridge:
  assumes sapi: "sv_api sv = Some sapi" and read: "loads sapi (str_encode (body_dumps (JObj payload))) = Some (JObj payload)"
    and safe: "SAFE_NAME i" "SAFE_NAME c"
    and req: "ha_request (bridge_transport body_dumps dumps sv ts now api) api ''PUT'' (control_path i c) (Some (JObj payload)) a = (Inr body, a')"
  obtains camera b where "map_of (api_cameras sapi) i = Some camera" "opens (token_file sapi) (Some (bearer (ha_token api)))"
    "update_control i camera c payload a = (Inr b, a')" "body = str_encode (dumps b)"
proof -
  let ?msg = "http_message body_dumps api (client_request api ''PUT'' (control_path i c) (Some (JObj payload)))"
  obtain r a1 where run: "handle sapi ''PUT'' (urlsplit_path (control_path i c)) (Some (bearer (ha_token api)))
      (str_encode (body_dumps (JObj payload))) a = (r, a1)"
    by fastforce
  have "serve dumps sv ts now ?msg a =
      (case r of Inl e \<Rightarrow> Inl e | Inr resp \<Rightarrow> Inr (json_reply dumps (status resp) (response_body resp)), a1)"
    by (cases r) (simp_all add: serve_def api_response_of_def sapi control_message run)
  with req obtain resp where r: "r = Inr resp" and a1: "a1 = a'" and code: "\<not> 400 \<le> status resp"
    and body: "body = str_encode (dumps (response_body resp))"
    by (cases r) (auto simp: ha_request_def bridge_transport_def json_reply_def Let_def split: if_splits)
  from handle_status [OF run [unfolded r]] code have ok: "status resp = 200" by blast
  have auth: "opens (token_file sapi) (Some (bearer (ha_token api)))"
    using handle_unauthorized(2) [OF _ run, of resp] r ok by auto
  show thesis
  proof (rule handle_PUT_200 [OF run [unfolded r a1] ok])
    fix j c' camera b' b
    assume "path_parts (urlsplit_path (control_path i c)) = [''api'', ''v1'', ''cameras'', j, ''controls'', c']"
      and "map_of (api_cameras sapi) j = Some camera" and "loads sapi (str_encode (body_dumps (JObj payload))) = Some (JObj b')"
      and "update_control j camera c' b' a = (Inr b, a')" and "response_body resp = b"
    then show thesis
      using that [of camera b] auth body read by (simp add: control_path_target [OF safe])
  qed
qed

text \<open>
  C19. A control that the integration reports as set is set. When \<open>async_set_control\<close> returns through the bridge, the
  token of the client opened the API, the camera is one the bridge serves, the payload holds a valid
  value for the control, the camera took the command, and the store then has exactly this value for
  this control of this camera, in memory and in its file; no other control and no other camera
  changed. The hypotheses are that the bridge reads the payload back from its text, and names as the
  configuration accepts them.
\<close>

theorem reported_control_is_stored:
  assumes "sv_api sv = Some sapi" and "loads sapi (str_encode (body_dumps (JObj payload))) = Some (JObj payload)"
    and "SAFE_NAME i" "SAFE_NAME c"
    and "async_set_control (bridge_transport body_dumps dumps sv ts now api) decode api i c payload a = (Inr d, a')"
  shows "opens (token_file sapi) (Some (bearer (ha_token api))) \<and>
    (\<exists>camera v old. map_of (api_cameras sapi) i = Some camera \<and> request_value c payload = Inr v \<and>
      (\<exists>s. camera_set camera c v (as_camera a) = (Inr (), s) \<and> as_camera a' = s) \<and>
      control_values (as_store a) i = Inr old \<and>
      control_values (as_store a') i = Inr (dict_set old c (known v ''persisted'')) \<and>
      (\<forall>j. j \<noteq> i \<longrightarrow> control_values (as_store a') j = control_values (as_store a) j) \<and>
      cs_file (as_store a') = Some (store_document (cs_state (as_store a'))))"
proof -
  obtain body where req: "ha_request (bridge_transport body_dumps dumps sv ts now api) api ''PUT'' (control_path i c) (Some (JObj payload)) a = (Inr body, a')"
    by (rule set_control_answered [OF assms(5)])
  obtain camera b where cam: "map_of (api_cameras sapi) i = Some camera"
    and auth: "opens (token_file sapi) (Some (bearer (ha_token api)))"
    and run: "update_control i camera c payload a = (Inr b, a')"
    by (rule put_through_bridge [where body_dumps = body_dumps and payload = payload, OF assms(1-4) req])
  from update_control_stored [OF run] obtain v old where v: "request_value c payload = Inr v"
    and st: "control_values (as_store a) i = Inr old"
      "control_values (as_store a') i = Inr (dict_set old c (known v ''persisted''))"
      "\<forall>j. j \<noteq> i \<longrightarrow> control_values (as_store a') j = control_values (as_store a) j"
      "cs_file (as_store a') = Some (store_document (cs_state (as_store a')))"
    by blast
  from run v have "camera_set camera c v (as_camera a) = (Inr (), as_camera a')"
    by (auto simp: update_control_spec update_spec_def seq_state_Inr_iff on_camera_def on_store_def split: prod.splits)
  with cam auth v st show ?thesis by blast
qed

lemma reported_control_is_stored_witness:
  "\<exists>sv api a' d old. async_set_control (bridge_transport (\<lambda>v. ''{}'') (\<lambda>v. ''{}'') sv [] 0 api) (\<lambda>b. Some (JObj [])) api ''cam'' ''led''
       [(''value'', JBool True)] \<lparr>as_camera = demo_workers, as_store = demo_store\<rparr> = (Inr d, a') \<and>
     control_values (as_store a') ''cam'' = Inr (dict_set old ''led'' (known (JBool True) ''persisted''))"
proof -
  let ?payload = "[(''value'', JBool True)]"
  define sapi :: "workers api" where "sapi = \<lparr>api_cameras = [(''cam'', demo_camera)], token_file = Inr ''secret'',
    loads = (\<lambda>_. Some (JObj ?payload))\<rparr>"
  define sv where "sv = \<lparr>sv_names = [''cam''], sv_api = Some sapi\<rparr>"
  define api where "api = \<lparr>ha_host = ''127.0.0.1'', ha_http_port = 8080, ha_rtsp_port = 8554, ha_token = ''secret''\<rparr>"
  let ?a = "\<lparr>as_camera = demo_workers, as_store = demo_store\<rparr>"
  let ?t = "bridge_transport (\<lambda>v. ''{}'') (\<lambda>v. ''{}'') sv [] 0 api"
  have safe: "SAFE_NAME ''cam''" "SAFE_NAME ''led''" by (simp_all add: SAFE_NAME_def safe_char_def)
  have "strip ''secret'' = ''secret''" by (simp add: strip_def is_space_def)
  then have auth: "authorized (token_file sapi) (Some (bearer (ha_token api))) = Inr True"
    unfolding authorized_iff by (simp add: opens_def sapi_def api_def is_ascii_def)
  obtain b a' where upd: "update_control ''cam'' demo_camera ''led'' ?payload ?a = (Inr b, a')"
    by (simp add: update_control_spec update_spec_def request_value_def PERSISTED_CONTROLS_def dict_get_def
        validated_control_value_def camera_set_def seq_state_def on_camera_def on_store_def demo_camera_def
        store_set_def demo_store_def store_write_def)
  have "route_camera sapi ''PUT'' [''api'', ''v1'', ''cameras'', ''cam'', ''controls'', ''led''] ''cam'' demo_camera body ?a =
      (Inr (Some b), a')" for body
    by (simp add: route_camera_def json_object_def sapi_def seq_state_def upd)
  then have run: "handle sapi ''PUT'' (urlsplit_path (control_path ''cam'' ''led'')) (Some (bearer (ha_token api)))
      (str_encode ''{}'') ?a = (Inr \<lparr>status = 200, response_body = b\<rparr>, a')"
    by (simp add: handle_def auth control_path_target [OF safe] Let_def) (simp add: sapi_def answer_of_def)
  have "ha_request ?t api ''PUT'' (control_path ''cam'' ''led'') (Some (JObj ?payload)) ?a = (Inr (str_encode ''{}''), a')"
    by (simp add: ha_request_def bridge_transport_def serve_def api_response_of_def sv_def control_message run json_reply_def Let_def)
  then have set: "async_set_control ?t (\<lambda>b. Some (JObj [])) api ''cam'' ''led'' ?payload ?a = (Inr [], a')"
    by (simp add: async_set_control_def path_part_def ha_request_json_def ha_seq_def control_path_def)
  have "request_value ''led'' ?payload = Inr (JBool True)"
    by (simp add: request_value_def PERSISTED_CONTROLS_def dict_get_def validated_control_value_def)
  then show ?thesis
    using reported_control_is_stored [where body_dumps = "\<lambda>v. ''{}''", OF _ _ safe set] set
    by (simp add: sv_def sapi_def) blast
qed

section \<open>The update of the coordinator\<close>

text \<open>The state in which request number \<open>k\<close> of a \<open>gather\<close> runs.\<close>

definition at_turn :: "('a \<Rightarrow> ('b, 'n) ha_op) \<Rightarrow> 'a list \<Rightarrow> nat \<Rightarrow> 'n \<Rightarrow> 'n" where
  "at_turn f xs k n = fold (\<lambda>x n. snd (f x n)) (take k xs) n"

lemma at_turn_simps [simp]: "at_turn f xs 0 n = n" "at_turn f (x # xs) (Suc k) n = at_turn f xs k (snd (f x n))"
  by (simp_all add: at_turn_def)

lemma gather_Inr:
  "fst (gather f xs n) = Inr ys \<longleftrightarrow>
     length ys = length xs \<and> (\<forall>k < length xs. fst (f (xs ! k) (at_turn f xs k n)) = Inr (ys ! k))"
proof (induction xs arbitrary: n ys)
  case (Cons x xs)
  have step: "fst (gather f (x # xs) n) = bind (fst (f x n)) (\<lambda>y. bind (fst (gather f xs (snd (f x n)))) (\<lambda>ys. Inr (y # ys)))"
    by (simp add: case_prod_unfold)
  show ?case
    unfolding step result_iff Cons.IH by (cases ys) (auto simp: All_less_Suc2)
qed auto

lemma dict_set_fresh: "k \<notin> fst ` set d \<Longrightarrow> dict_set d k v = d @ [(k, v)]"
  by (induction d) auto

lemma by_id_distinct:
  assumes "list_all2 (\<lambda>i d. dict_get d ''id'' = JStr i) ids details" and "distinct ids"
  shows "by_id details = map2 (\<lambda>i d. (i, JObj d)) ids details"
proof -
  have "foldl (\<lambda>data detail. case dict_get detail ''id'' of JStr i \<Rightarrow> dict_set data i (JObj detail) | _ \<Rightarrow> data) acc details =
      acc @ map2 (\<lambda>i d. (i, JObj d)) ids details" if "set ids \<inter> fst ` set acc = {}" for acc
    using assms that
  proof (induction ids details arbitrary: acc rule: list_all2_induct)
    case (Cons i ids d ds)
    then have "i \<notin> fst ` set acc" by auto
    note fresh = dict_set_fresh [OF this]
    have "set ids \<inter> fst ` set (acc @ [(i, JObj d)]) = {}" using Cons.prems by auto
    from Cons.IH [OF _ this] Cons.prems show ?case by (simp add: Cons.hyps fresh)
  qed simp
  then show ?thesis by (simp add: by_id_def)
qed

lemma async_get_camera_id: "fst (async_get_camera transport decode api i n) = Inr d \<Longrightarrow> dict_get d ''id'' = JStr i"
  by (auto simp: async_get_camera_def ha_seq_def split: prod.splits sum.splits if_splits)

text \<open>
  C22. The coordinator's update is all or nothing. When the camera list is good, the update succeeds exactly if the
  detail of every camera could be read; the data then has one entry per camera, in the order of
  the list, each the document of that camera. A single detail that fails - a camera whose
  readback ends a request without an answer, say - makes the whole update fail, so every entity
  of every camera becomes unavailable.
\<close>

theorem coordinator_all_or_nothing:
  assumes "async_list_cameras transport decode api n = (Inr summaries, n1)"
    and "map_result camera_id_of summaries = Inr ids" and "distinct ids"
  shows "case fst (async_update_data transport decode api n) of
      Inr data \<Rightarrow> map fst data = ids \<and>
        (\<forall>k < length ids. \<exists>d.
          fst (async_get_camera transport decode api (ids ! k) (at_turn (async_get_camera transport decode api) ids k n1)) = Inr d \<and>
          data ! k = (ids ! k, JObj d) \<and> dict_get d ''id'' = JStr (ids ! k))
    | Inl e \<Rightarrow> e = Update_Failed ''Unable to update INO-A9 cameras'' \<and>
        (\<exists>k < length ids. \<exists>e.
          fst (async_get_camera transport decode api (ids ! k) (at_turn (async_get_camera transport decode api) ids k n1)) = Inl e)"
proof -
  let ?get = "async_get_camera transport decode api"
  have run: "fst (async_update_data transport decode api n) =
      (case fst (gather ?get ids n1) of
         Inl e \<Rightarrow> Inl (Update_Failed ''Unable to update INO-A9 cameras'') | Inr details \<Rightarrow> Inr (by_id details))"
    using assms(1,2) by (auto simp: async_update_data_def ha_seq_def split: prod.split sum.split)
  show ?thesis
  proof (cases "fst (gather ?get ids n1)")
    case (Inr details)
    then have len: "length details = length ids"
      and got: "\<And>k. k < length ids \<Longrightarrow> fst (?get (ids ! k) (at_turn ?get ids k n1)) = Inr (details ! k)"
      by (simp_all add: gather_Inr)
    have id: "dict_get (details ! k) ''id'' = JStr (ids ! k)" if "k < length ids" for k
      by (rule async_get_camera_id [OF got [OF that]])
    then have "list_all2 (\<lambda>i d. dict_get d ''id'' = JStr i) ids details"
      using len by (simp add: list_all2_conv_all_nth)
    from by_id_distinct [OF this assms(3)] have data: "by_id details = map2 (\<lambda>i d. (i, JObj d)) ids details" .
    have "map fst (by_id details) = ids" using len by (simp add: data list_eq_iff_nth_eq)
    then show ?thesis using got id len by (simp add: run Inr data)
  next
    case (Inl e)
    have "\<exists>k < length ids. \<exists>e. fst (?get (ids ! k) (at_turn ?get ids k n1)) = Inl e"
    proof (rule ccontr)
      assume none: "\<not> ?thesis"
      define details where "details = map (\<lambda>k. projr (fst (?get (ids ! k) (at_turn ?get ids k n1)))) [0..<length ids]"
      have "fst (?get (ids ! k) (at_turn ?get ids k n1)) = Inr (details ! k)" if "k < length ids" for k
      proof -
        from none that have "fst (?get (ids ! k) (at_turn ?get ids k n1)) \<noteq> Inl x" for x by blast
        then obtain d where "fst (?get (ids ! k) (at_turn ?get ids k n1)) = Inr d" by (metis sum.exhaust)
        with that show ?thesis by (simp add: details_def)
      qed
      then have "fst (gather ?get ids n1) = Inr details" by (simp add: gather_Inr details_def)
      with Inl show False by simp
    qed
    then show ?thesis by (simp add: run Inl)
  qed
qed

text \<open>Two cameras; the request for the second one's detail ends without a response.\<close>

definition demo_network :: "unit transport" where
  "demo_network rq n =
     (if hr_url rq = ''http://h:80/api/v1/cameras'' then (Some (200, [0]), n)
      else if hr_url rq = ''http://h:80/api/v1/cameras/front'' then (Some (200, [1]), n)
      else (None, n))"

definition demo_json :: "bytes \<Rightarrow> json option" where
  "demo_json body =
     Some (if body = [0] then JObj [(''cameras'', JList [JObj [(''id'', JStr ''front'')], JObj [(''id'', JStr ''back'')]])]
       else JObj [(''id'', JStr ''front'')])"

lemma coordinator_all_or_nothing_witness:
  "fst (async_update_data demo_network demo_json \<lparr>ha_host = ''h'', ha_http_port = 80, ha_rtsp_port = 8554, ha_token = ''t''\<rparr> ()) =
     Inl (Update_Failed ''Unable to update INO-A9 cameras'')"
proof -
  let ?api = "\<lparr>ha_host = ''h'', ha_http_port = 80, ha_rtsp_port = 8554, ha_token = ''t''\<rparr>"
  have url: "base_url ?api = ''http://h:80''"
    by code_simp
  note defs = async_get_camera_def path_part_def ha_seq_def ha_request_json_def ha_request_def client_request_def
    demo_network_def demo_json_def dict_get_def
  have list: "async_list_cameras demo_network demo_json ?api () = (Inr [[(''id'', JStr ''front'')], [(''id'', JStr ''back'')]], ())"
    by (simp add: async_list_cameras_def defs url)
  have ids: "map_result camera_id_of [[(''id'', JStr ''front'')], [(''id'', JStr ''back'')]] = Inr [''front'', ''back'']"
    by (simp add: camera_id_of_def dict_get_def)
  have failing: "fst (async_get_camera demo_network demo_json ?api ''back'' ()) = Inl (Api_Error 503)"
    by (simp add: defs url)
  show ?thesis
    using coordinator_all_or_nothing [OF list ids] failing
    by (auto split: sum.splits dest!: spec [of _ 1])
qed

end
