(* ===== verification/HA_Correct.thy ===== *)
theory HA_Correct
  imports HA_Service HA_Link "HOL-Library.Multiset"
begin

text \<open>
  Correctness of the entities and the service: what they send is what the app accepts, what they show is
  what the app reports, and their identities lead back to the camera they stand for.
\<close>

section \<open>Payloads\<close>

lemma clock_text_order:
  assumes "minute_clock a" and "minute_clock b"
  shows "string_less (strftime_clock b) (strftime_clock a) \<longleftrightarrow> b < a"
proof -
  have step: "string_less [x, y, CHR '':'', u, v] [x', y', CHR '':'', u', v'] \<longleftrightarrow>
      (of_char x :: nat) < of_char x' \<or> x = x' \<and> ((of_char y :: nat) < of_char y' \<or> y = y' \<and>
        ((of_char u :: nat) < of_char u' \<or> u = u' \<and> (of_char v :: nat) < of_char v'))"
    for x y u v x' y' u' v'
    by simp
  have inj: "digit m = digit n \<longleftrightarrow> m = n" if "m < 10" "n < 10" for m n
    using digit_value_digit that by metis
  have two: "m div 10 < n div 10 \<or> m div 10 = n div 10 \<and> (m mod 10 < n mod 10 \<or> m mod 10 = n mod 10 \<and> P) \<longleftrightarrow>
      m < n \<or> m = n \<and> P" for m n :: nat and P
  proof -
    have "q < q' \<or> q = q' \<and> (r < r' \<or> r = r' \<and> P) \<longleftrightarrow> 10 * q + r < 10 * q' + r' \<or> 10 * q + r = 10 * q' + r' \<and> P"
      if "r < 10" "r' < 10" for q q' r r' :: nat
    proof -
      have "10 * q + r < 10 * q' + r' \<longleftrightarrow> q < q' \<or> q = q' \<and> r < r'" using that by auto
      moreover have "10 * q + r = 10 * q' + r' \<longleftrightarrow> q = q' \<and> r = r'"
        using that by (cases q q' rule: linorder_cases) auto
      ultimately show ?thesis by blast
    qed
    from this [of "m mod 10" "n mod 10" "m div 10" "n div 10"] show ?thesis by simp
  qed
  have bounds: "hour b div 10 < 10" "hour a div 10 < 10" "minute b div 10 < 10" "minute a div 10 < 10"
    "hour b mod 10 < 10" "hour a mod 10 < 10" "minute b mod 10 < 10" "minute a mod 10 < 10"
    using assms by (auto simp: minute_clock_def)
  have "string_less (strftime_clock b) (strftime_clock a) \<longleftrightarrow>
      hour b div 10 < hour a div 10 \<or> hour b div 10 = hour a div 10 \<and>
        (hour b mod 10 < hour a mod 10 \<or> hour b mod 10 = hour a mod 10 \<and>
          (minute b div 10 < minute a div 10 \<or> minute b div 10 = minute a div 10 \<and>
            (minute b mod 10 < minute a mod 10 \<or> minute b mod 10 = minute a mod 10 \<and> False)))"
    unfolding strftime_clock_def step by (simp only: of_char_digit [OF bounds(1)] of_char_digit [OF bounds(2)]
        of_char_digit [OF bounds(3)] of_char_digit [OF bounds(4)] of_char_digit [OF bounds(5)] of_char_digit [OF bounds(6)]
        of_char_digit [OF bounds(7)] of_char_digit [OF bounds(8)] inj bounds nat_add_left_cancel_less simp_thms)
  also have "\<dots> \<longleftrightarrow> hour b < hour a \<or> hour b = hour a \<and> minute b < minute a"
    unfolding two by simp
  also have "\<dots> \<longleftrightarrow> b < a"
    using assms by (cases a; cases b) (auto simp: minute_clock_def minute_precision_def less_clock_def)
  finally show ?thesis .
qed

lemma select_options_enum:
  "rel_option (\<lambda>opts vs. set opts = fst ` set vs) (select_options control) (map_of ENUM_CONTROLS control)"
proof -
  have "control \<in> {''night_vision'', ''flip'', ''video_quality'', ''motion''} \<or>
      control \<noteq> ''night_vision'' \<and> control \<noteq> ''flip'' \<and> control \<noteq> ''video_quality'' \<and> control \<noteq> ''motion''"
    by blast
  then show ?thesis
    unfolding select_options_def CONTROL_OPTIONS_def ENUM_CONTROLS_def NIGHT_VALUES_def FLIP_VALUES_def
      VIDEO_QUALITY_VALUES_def MOTION_VALUES_def
    by (elim disjE insertE; simp add: insert_commute)
qed

lemma enum_control_name: "map_of ENUM_CONTROLS control = Some vs \<Longrightarrow> control \<in> set PERSISTED_CONTROLS \<and> control \<noteq> ''led'' \<and> control \<noteq> ''intrusion''"
  by (auto simp: ENUM_CONTROLS_def PERSISTED_CONTROLS_def split: if_splits)

lemma request_value_intrusion:
  "request_value ''intrusion'' d = validated_control_value ''intrusion'' (JObj d)"
  by (simp add: request_value_def PERSISTED_CONTROLS_def)

lemma request_value_schedule:
  assumes "schedule_sound s" and "schedule_from_value v = Inr s"
  shows "request_value ''intrusion'' [(''enabled'', JBool b), (''schedule'', v)] = Inr (intrusion_value b s)"
  using assms by (simp add: request_value_intrusion validated_control_value_def ENUM_CONTROLS_def dict_get_def)

text \<open>The schedule the app reports goes through the entity unchanged.\<close>

lemma validated_schedule_sound:
  assumes "schedule_sound s" and "\<forall>t c. strptime_clock t = Some c \<longrightarrow> from_iso t = Some c"
  shows "validated_schedule from_iso (schedule_to_value s) = Inr (schedule_to_value s)"
proof -
  have s: "days s \<noteq> []" "set (days s) \<subseteq> {0..6}" "sorted_wrt (<) (days s)" "\<not> stop s < start s"
    "minute_clock (start s)" "minute_clock (stop s)"
    using assms(1) by (auto simp: schedule_sound_def schedule_valid_def)
  have "list_all is_day (map JInt (days s))" using s(2) by (auto simp: list_all_iff)
  moreover have "from_iso (strftime_clock (start s)) = Some (start s)" "from_iso (strftime_clock (stop s)) = Some (stop s)"
    using assms(2) s(5,6) strptime_strftime by blast+
  moreover have "days s = sorted_list_of_set (set (days s))" using s(3) by (simp add: eq_sorted_list_of_set_iff)
  ultimately show ?thesis
    using s(1,4) by (simp add: validated_schedule_def schedule_to_value_def dict_get_def del: map_map)
qed

definition all_week_schedule :: schedule where
  "all_week_schedule = \<lparr>days = [0, 1, 2, 3, 4, 5, 6], start = Clock 0 0 0 0, stop = Clock 23 59 0 0\<rparr>"

lemma all_week: "all_week = schedule_to_value all_week_schedule" "schedule_sound all_week_schedule"
proof -
  have "strftime_clock (Clock 0 0 0 0) = ''00:00''" "strftime_clock (Clock 23 59 0 0) = ''23:59''" by code_simp+
  then show "all_week = schedule_to_value all_week_schedule"
    by (simp add: all_week_def schedule_to_value_def all_week_schedule_def)
  show "schedule_sound all_week_schedule"
    by (simp add: all_week_schedule_def schedule_sound_def schedule_valid_def minute_clock_def minute_precision_def
        less_clock_def)
qed

lemma option_accepted:
  assumes "select_options control = Some opts" and "option \<in> set opts"
  shows "request_value control [(''value'', JStr option)] = Inr (JStr option)"
proof -
  from select_options_enum [of control] assms obtain vs where vs: "map_of ENUM_CONTROLS control = Some vs"
    and "option \<in> fst ` set vs"
    by (auto simp: option_rel_Some1)
  then have "control_value_ok control (JStr option)"
    using enum_control_name [OF vs] by (auto simp: control_value_ok_def)
  with enum_control_name [OF vs] show ?thesis
    by (simp add: request_value_def dict_get_def validated_ok)
qed

lemma service_schema_Inr:
  "service_schema b ws ts te = Inr call \<Longrightarrow>
     sc_enabled call = b \<and> sc_weekdays call \<noteq> [] \<and> sorted_wrt (<) (sc_weekdays call) \<and> set (sc_weekdays call) \<subseteq> {0..6} \<and>
     minute_precision (sc_start call) \<and> minute_precision (sc_end call)"
  by (auto simp: service_schema_def result_iff service_weekdays_def validate_weekdays_def validate_time_def
      minute_precision_def list_all_iff eq_sorted_list_of_set_iff split: if_splits time_value.splits)

lemma service_payload_accepted:
  assumes "service_schema b ws ts te = Inr call" and "clock_ok (sc_start call)" and "clock_ok (sc_end call)"
  shows "service_payload call =
      (if sc_end call < sc_start call
       then Inl (Service_Validation_Error ''The intrusion schedule must not cross midnight'')
       else Inr [(''enabled'', JBool b),
         (''schedule'', schedule_to_value \<lparr>days = sc_weekdays call, start = sc_start call, stop = sc_end call\<rparr>)])"
    and "\<not> sc_end call < sc_start call \<Longrightarrow>
      schedule_sound \<lparr>days = sc_weekdays call, start = sc_start call, stop = sc_end call\<rparr>"
proof -
  note call = service_schema_Inr [OF assms(1)]
  have clocks: "minute_clock (sc_start call)" "minute_clock (sc_end call)"
    using call assms(2,3) by (auto simp: minute_clock_def clock_ok_def)
  from clock_text_order [OF clocks] call show "service_payload call =
      (if sc_end call < sc_start call
       then Inl (Service_Validation_Error ''The intrusion schedule must not cross midnight'')
       else Inr [(''enabled'', JBool b),
         (''schedule'', schedule_to_value \<lparr>days = sc_weekdays call, start = sc_start call, stop = sc_end call\<rparr>)])"
    by (simp add: service_payload_def Let_def schedule_to_value_def)
  from call clocks show "\<not> sc_end call < sc_start call \<Longrightarrow>
      schedule_sound \<lparr>days = sc_weekdays call, start = sc_start call, stop = sc_end call\<rparr>"
    by (simp add: schedule_sound_def schedule_valid_def)
qed

text \<open>
  C20. The integration never sends the app a value it refuses. Every option of every select, both
  states of the LED, and the intrusion payload built from the state the app reports are accepted, and mean what was asked
  for: switching intrusion detection keeps the reported schedule; without one it can be switched off (with
  the whole week as schedule) but not on. Of the calls that pass its schema, the service refuses exactly
  those whose times cross midnight - it compares the texts of the times, which is the order of the times - and
  sends what was asked otherwise. The hypothesis is that \<open>fromisoformat\<close> reads \<open>HH:MM\<close>.
\<close>

theorem integration_payloads_accepted:
  assumes "\<forall>t c. strptime_clock t = Some c \<longrightarrow> from_iso t = Some c"
    and "service_schema b ws ts te = Inr call" "clock_ok (sc_start call)" "clock_ok (sc_end call)"
    and "schedule_sound s"
  shows "(\<forall>control opts option. select_options control = Some opts \<longrightarrow> option \<in> set opts \<longrightarrow>
       request_value control [(''value'', JStr option)] = Inr (JStr option)) \<and>
    request_value ''led'' [(''value'', JBool b)] = Inr (JBool b) \<and>
    (\<exists>d. known (intrusion_value old s) source = JObj d \<and>
      (\<exists>payload. intrusion_payload from_iso d b = Inr payload \<and>
        request_value ''intrusion'' payload = Inr (intrusion_value b s))) \<and>
    (\<exists>payload. intrusion_payload from_iso unknown_state False = Inr payload \<and>
      request_value ''intrusion'' payload = Inr (intrusion_value False all_week_schedule)) \<and>
    \<not> ok (intrusion_payload from_iso unknown_state True) \<and>
    (case service_payload call of
       Inl e \<Rightarrow> sc_end call < sc_start call
     | Inr payload \<Rightarrow> sc_start call \<le> sc_end call \<and>
         request_value ''intrusion'' payload =
           Inr (intrusion_value b \<lparr>days = sc_weekdays call, start = sc_start call, stop = sc_end call\<rparr>))"
proof (intro conjI allI impI)
  show "request_value ''led'' [(''value'', JBool b)] = Inr (JBool b)"
    by (simp add: request_value_def PERSISTED_CONTROLS_def dict_get_def validated_control_value_def)
  have accepted: "request_value ''intrusion'' [(''enabled'', JBool e), (''schedule'', schedule_to_value s)] = Inr (intrusion_value e s)"
    if "schedule_sound s" for e s
    by (rule request_value_schedule [OF that schedule_from_to_value [OF that]])
  have "schedule_to_value s \<noteq> JNull" by (simp add: schedule_to_value_def)
  then have "intrusion_payload from_iso [(''value'', intrusion_value old s), (''known'', JBool True), (''source'', JStr source)] b =
      Inr [(''enabled'', JBool b), (''schedule'', schedule_to_value s)]"
    using validated_schedule_sound [OF assms(5,1)]
    by (simp add: intrusion_payload_def is_known_def dict_get_def intrusion_value_def Let_def)
  then show "\<exists>d. known (intrusion_value old s) source = JObj d \<and>
      (\<exists>payload. intrusion_payload from_iso d b = Inr payload \<and>
        request_value ''intrusion'' payload = Inr (intrusion_value b s))"
    using accepted [OF assms(5)] by (simp add: known_def)
  have "intrusion_payload from_iso unknown_state False =
      Inr [(''enabled'', JBool False), (''schedule'', schedule_to_value all_week_schedule)]"
    using validated_schedule_sound [OF all_week(2) assms(1)]
    by (simp add: intrusion_payload_def is_known_def dict_get_def unknown_state_def all_week(1))
  then show "\<exists>payload. intrusion_payload from_iso unknown_state False = Inr payload \<and>
      request_value ''intrusion'' payload = Inr (intrusion_value False all_week_schedule)"
    using accepted [OF all_week(2)] by simp
  show "\<not> ok (intrusion_payload from_iso unknown_state True)"
    by (simp add: intrusion_payload_def is_known_def dict_get_def unknown_state_def)
  note service = service_payload_accepted [OF assms(2-4)]
  show "case service_payload call of
       Inl e \<Rightarrow> sc_end call < sc_start call
     | Inr payload \<Rightarrow> sc_start call \<le> sc_end call \<and>
         request_value ''intrusion'' payload =
           Inr (intrusion_value b \<lparr>days = sc_weekdays call, start = sc_start call, stop = sc_end call\<rparr>)"
    using accepted [OF service(2)] by (simp add: service(1) not_less)
qed (rule option_accepted)

lemma integration_payloads_accepted_witness:
  "request_value ''flip'' [(''value'', JStr ''rotate_180'')] = Inr (JStr ''rotate_180'') \<and>
   \<not> ok (service_payload \<lparr>sc_enabled = True, sc_weekdays = [0, 6], sc_start = Clock 22 30 0 0, sc_end = Clock 6 0 0 0\<rparr>)"
proof -
  let ?call = "\<lparr>sc_enabled = True, sc_weekdays = [0, 6], sc_start = Clock 22 30 0 0, sc_end = Clock 6 0 0 0\<rparr>"
  have "service_schema True [0, 6] (Naive (Clock 22 30 0 0)) (Naive (Clock 6 0 0 0)) = Inr ?call"
    by (simp add: service_schema_def service_weekdays_def validate_weekdays_def validate_time_def)
  moreover have "clock_ok (sc_start ?call)" "clock_ok (sc_end ?call)" by (simp_all add: clock_ok_def)
  ultimately have "(\<forall>control opts option. select_options control = Some opts \<longrightarrow> option \<in> set opts \<longrightarrow>
       request_value control [(''value'', JStr option)] = Inr (JStr option)) \<and>
     (case service_payload ?call of Inl e \<Rightarrow> sc_end ?call < sc_start ?call | Inr payload \<Rightarrow> sc_start ?call \<le> sc_end ?call)"
    using integration_payloads_accepted [where from_iso = strptime_clock and call = ?call and s = all_week_schedule, OF _ _ _ _ all_week(2)]
    by (auto split: sum.splits)
  moreover have "select_options ''flip'' = Some [''upright'', ''horizontal'', ''vertical'', ''rotate_180'']"
    by (simp add: select_options_def CONTROL_OPTIONS_def)
  ultimately show ?thesis
    by (cases "service_payload ?call") (auto simp: less_clock_def)
qed

section \<open>What the entities show\<close>

lemma camera_detail_document:
  assumes "camera_detail i camera a = (Inr (JObj doc), a')" and "store_values (as_store a) i = Inr saved"
  obtains controls where "dict_get doc ''controls'' = JObj controls"
    and "dict_get doc ''connected'' = JBool (truthy (dict_get (co_status camera (as_camera a)) ''connected''))"
    and "dict_get doc ''id'' = JStr i"
    and "\<And>c. c \<in> set PERSISTED_CONTROLS \<Longrightarrow> c \<noteq> ''night_vision'' \<Longrightarrow> c \<noteq> ''flip'' \<Longrightarrow>
      dict_get controls c = (case map_of saved c of None \<Rightarrow> unknown_value | Some v \<Rightarrow> known v ''persisted'')"
proof -
  define stored where "stored = map (\<lambda>control. (control,
      (case map_of saved control of None \<Rightarrow> unknown_value | Some v \<Rightarrow> known v ''persisted''))) PERSISTED_CONTROLS"
  have saved: "control_values (as_store a) i = Inr stored"
    using assms(2) by (simp add: control_values_def stored_def)
  have get: "dict_get stored c = (case map_of saved c of None \<Rightarrow> unknown_value | Some v \<Rightarrow> known v ''persisted'')"
    if "c \<in> set PERSISTED_CONTROLS" for c
    using that by (auto simp: stored_def dict_get_def PERSISTED_CONTROLS_def)
  let ?stat = "co_status camera (as_camera a)"
  obtain controls where doc: "doc = [(''id'', JStr i), (''connected'', JBool (truthy (dict_get ?stat ''connected''))),
          (''media'', JObj (filter (\<lambda>(key, v). key \<noteq> ''connected'') ?stat)), (''controls'', JObj controls)]"
    and cases: "controls = stored \<or> (\<exists>night flip. controls = dict_set (dict_set stored ''night_vision'' night) ''flip'' flip)"
    using assms(1) unfolding camera_detail_def camera_detail_from_def Let_def saved
    by (auto simp: seq_state_Inr_iff split: if_splits)
  show thesis
  proof (rule that)
    show "dict_get doc ''controls'' = JObj controls" by (simp add: doc dict_get_def)
    show "dict_get doc ''connected'' = JBool (truthy (dict_get ?stat ''connected''))" by (simp add: doc dict_get_def)
    show "dict_get doc ''id'' = JStr i" by (simp add: doc dict_get_def)
    show "dict_get controls c = (case map_of saved c of None \<Rightarrow> unknown_value | Some v \<Rightarrow> known v ''persisted'')"
      if "c \<in> set PERSISTED_CONTROLS" "c \<noteq> ''night_vision''" "c \<noteq> ''flip''" for c
      using cases get [OF that(1)] that(2,3) by (auto simp: dict_get_def)
  qed
qed

text \<open>What selects and switches show, by what is stored for their control.\<close>

definition stored_state :: "json option \<Rightarrow> dict" where
  "stored_state saved =
     (case saved of
        None \<Rightarrow> unknown_state
      | Some v \<Rightarrow> [(''value'', v), (''known'', JBool True), (''source'', JStr ''persisted'')])"

lemma select_shows:
  assumes "control_state cd i c = stored_state saved" and "c \<in> {''video_quality'', ''motion''}"
    and "\<And>v. saved = Some v \<Longrightarrow> control_value_ok c v"
  shows "case saved of
      None \<Rightarrow> current_option cd i c (the (select_options c)) = None
    | Some v \<Rightarrow> \<exists>name. v = JStr name \<and> current_option cd i c (the (select_options c)) = Some name"
proof (cases saved)
  case None
  with assms(1) show ?thesis by (simp add: stored_state_def current_option_def unknown_state_def dict_get_def)
next
  case (Some v)
  obtain vs where vs: "map_of ENUM_CONTROLS c = Some vs" using assms(2) by (auto simp: ENUM_CONTROLS_def)
  with assms(3) [OF Some] enum_control_name [OF vs] obtain name where "v = JStr name" "name \<in> fst ` set vs"
    by (auto simp: control_value_ok_def)
  moreover from select_options_enum [of c] vs obtain opts where "select_options c = Some opts" "set opts = fst ` set vs"
    by (auto simp: option_rel_Some2)
  ultimately show ?thesis using assms(1) by (simp add: Some stored_state_def current_option_def is_known_def dict_get_def)
qed

lemma switches_show:
  shows "control_state cd i ''led'' = stored_state saved \<Longrightarrow> (\<And>v. saved = Some v \<Longrightarrow> control_value_ok ''led'' v) \<Longrightarrow>
      (case saved of None \<Rightarrow> is_on cd i ''led'' = None | Some v \<Rightarrow> \<exists>b. v = JBool b \<and> is_on cd i ''led'' = Some b)"
    and "control_state cd i ''intrusion'' = stored_state saved \<Longrightarrow> (\<And>v. saved = Some v \<Longrightarrow> control_value_ok ''intrusion'' v) \<Longrightarrow>
      (case saved of
         None \<Rightarrow> is_on cd i ''intrusion'' = None
       | Some v \<Rightarrow> \<exists>b s. v = intrusion_value b s \<and> schedule_sound s \<and> is_on cd i ''intrusion'' = Some b)"
  by (cases saved; fastforce simp: stored_state_def is_on_def is_known_def unknown_state_def dict_get_def control_value_ok_def
      ENUM_CONTROLS_def intrusion_value_def)+



section \<open>Unloading\<close>

text \<open>Unloading one of two entries takes the service away from the other one.\<close>

lemma unload_removes_service:
  assumes "map fst (hs_entries h) = [i, j]" and "i \<noteq> j"
  shows "map fst (hs_entries (snd (async_unload_entry True i h))) = [j] \<and> \<not> hs_service (snd (async_unload_entry True i h))"
  using assms by (auto simp: async_unload_entry_def)

text \<open>
  When the platforms refuse to unload, the entry stays loaded, but without the service, and its
  coordinator is shut down: its entities are never updated again.
\<close>

lemma failed_unload_stops_updates:
  assumes "(i, api, cd) \<in> set (hs_entries h)" and "async_unload_entry False i h = (unloaded, h')"
  shows "\<not> unloaded \<and> hs_entries h' = hs_entries h \<and> i \<in> set (hs_stopped h') \<and> \<not> hs_service h'"
  using assms by (force simp: async_unload_entry_def)

section \<open>Identities\<close>

text \<open>Data as the coordinator's update leaves it: the keys are the ids of the documents.\<close>

definition data_ok :: "dict \<Rightarrow> bool" where
  "data_ok data \<longleftrightarrow> distinct (map fst data) \<and> list_all (\<lambda>(k, v). \<exists>d. v = JObj d \<and> dict_get d ''id'' = JStr k) data"

definition SUFFIXES :: "string list" where
  "SUFFIXES = [''camera'', ''led'', ''intrusion'', ''night_vision'', ''flip'', ''video_quality'', ''motion'', ''reboot'']"

lemma data_ok_set: "data_ok data \<Longrightarrow> dict_get d ''id'' = JStr k \<Longrightarrow> data_ok (dict_set data k (JObj d))"
  using set_dict_set [of data k "JObj d"] by (auto simp: data_ok_def distinct_dict_set list_all_iff)

lemma by_id_ok: "data_ok (by_id details)"
proof -
  have "data_ok data \<Longrightarrow> data_ok (foldl (\<lambda>data detail. case dict_get detail ''id'' of
      JStr i \<Rightarrow> dict_set data i (JObj detail) | _ \<Rightarrow> data) data details)" for data
    by (induction details arbitrary: data) (auto simp: data_ok_set split: json.split)
  then show ?thesis by (simp add: by_id_def data_ok_def)
qed

lemma async_update_data_ok: "async_update_data transport decode api n = (Inr data, n') \<Longrightarrow> data_ok data"
  using by_id_ok by (auto simp: async_update_data_def ha_seq_Inr_iff split: prod.splits sum.splits)

lemma document_ids: "data_ok data \<Longrightarrow> map document_id (platform_entities \<lparr>cd_data = data, cd_success = b\<rparr>) = map fst data"
  by (induction data) (auto simp: data_ok_def platform_entities_def document_id_def)

lemma cameras_of: "data_ok (cd_data cd) \<Longrightarrow> map document_id (platform_entities cd) = map fst (cd_data cd)"
  using document_ids [of "cd_data cd" "cd_success cd"] by (cases cd) simp

text \<open>The unique ids of all entities, as those of camera id and suffix.\<close>

lemma setup_platforms_ids:
  assumes "setup_platforms cd en = Inr es"
  shows "mset (map et_unique_id es) = mset (map (\<lambda>(i, s). entity_unique_id en i s)
      (List.product (map document_id (platform_entities cd)) SUFFIXES))"
    and "e \<in> set es \<Longrightarrow> et_camera_id e \<in> set (map document_id (platform_entities cd)) \<and>
      et_identifier e = device_identifier en (et_camera_id e)"
proof -
  have es: "es = camera_setup cd en @ projr (switch_setup cd en) @ projr (select_setup cd en) @ button_setup cd en"
    using assms by (auto simp: setup_platforms_def result_iff)
  have "mset (map (\<lambda>d. U (f d) a) ds @ map (\<lambda>(d, c). U (f d) c) (List.product ds bs) @
      map (\<lambda>(d, c). U (f d) c) (List.product ds cs) @ map (\<lambda>d. U (f d) e) ds) =
    mset (map (\<lambda>(i, s). U i s) (List.product (map f ds) (a # bs @ cs @ [e])))"
    for f :: "dict \<Rightarrow> string" and a e :: string and bs cs ds and U :: "string \<Rightarrow> string \<Rightarrow> string"
    by (induction ds) (auto simp: case_prod_unfold comp_def)
  from this [of "entity_unique_id en" document_id "''camera''" "platform_entities cd" "[''led'', ''intrusion'']"
      "map fst CONTROL_OPTIONS" "''reboot''"]
  show "mset (map et_unique_id es) = mset (map (\<lambda>(i, s). entity_unique_id en i s)
      (List.product (map document_id (platform_entities cd)) SUFFIXES))"
    by (simp add: es camera_setup_def switch_setup_Inr select_setup_Inr button_setup_def ino_a9_camera_def
        ino_a9_reboot_button_def ino_a9_entity_def SUFFIXES_def CONTROL_OPTIONS_def comp_def case_prod_unfold)
  show "e \<in> set es \<Longrightarrow> et_camera_id e \<in> set (map document_id (platform_entities cd)) \<and>
      et_identifier e = device_identifier en (et_camera_id e)"
    by (auto simp: es camera_setup_def switch_setup_Inr select_setup_Inr button_setup_def ino_a9_camera_def
        ino_a9_reboot_button_def ino_a9_entity_def)
qed

text \<open>No suffix ends with an underscore and another suffix, so a camera id and a suffix can be told apart.\<close>

lemma suffix_unique:
  assumes "i @ CHR ''_'' # s = j @ CHR ''_'' # t" and "s \<in> set SUFFIXES" and "t \<in> set SUFFIXES"
  shows "i = j \<and> s = t"
proof -
  have no: "\<not> suffix (CHR ''_'' # s) t" if "s \<in> set SUFFIXES" "t \<in> set SUFFIXES" for s t
  proof -
    have "list_all (\<lambda>s. list_all (\<lambda>t. \<not> suffix (CHR ''_'' # s) t) SUFFIXES) SUFFIXES" by code_simp
    with that show ?thesis by (simp add: list_all_iff)
  qed
  from assms(1) consider (eq) "i = j" "s = t"
    | (left) u where "i @ [CHR ''_''] @ u = j" "s = u @ CHR ''_'' # t"
    | (right) u where "j @ [CHR ''_''] @ u = i" "t = u @ CHR ''_'' # s"
    by (auto simp: append_eq_append_conv2 Cons_eq_append_conv append_eq_Cons_conv)
  then show ?thesis
    using no [OF assms(3,2)] no [OF assms(2,3)] by cases (auto simp: suffix_def)
qed

lemma find_only: "(\<And>y. y \<noteq> x \<Longrightarrow> \<not> P y) \<Longrightarrow> P x \<Longrightarrow> x \<in> set xs \<Longrightarrow> find P xs = Some x"
  by (induction xs) auto

lemma service_loop_reaches:
  assumes "en \<in> set ens" and "distinct (map entry_key ens)" and "en_runtime en = Some (api, cd)"
    and "i \<in> fst ` set (cd_data cd)"
  shows "service_loop transport decode refresh [device_identifier en i] call ens =
    ha_seq (ha_lift (service_payload call)) (\<lambda>payload.
      or_ha_error
        (ha_seq (async_set_control transport decode api i ''intrusion'' payload) (\<lambda>_ n. (Inr (), refresh en n)))
        ''Unable to set the INO-A9 intrusion schedule'')"
  using assms(1,2)
proof (induction ens)
  case (Cons x xs)
  show ?case
  proof (cases "x = en")
    case True
    then show ?thesis
      using assms(3,4) by (simp add: device_camera_def device_identifier_def del: ha_lift_simps)
  next
    case False
    with Cons.prems have "entry_key x \<noteq> entry_key en" by auto
    then have "device_camera [device_identifier en i] x c = None" for c
      by (simp add: device_camera_def device_identifier_def)
    with Cons False show ?thesis by (cases "en_runtime x") auto
  qed
qed simp

text \<open>
  C21. Entities and devices have identities that work. After the coordinator's update, whatever the app answered to it,
  setting up the platforms of an entry never raises and makes
  eight entities for each camera, with pairwise different unique ids - although the parts are joined with
  underscores that the names may contain, because no suffix ends with another one. The device of an
  entity leads back to its camera: the service called for it reaches the entry and the camera of this entity,
  whatever other entries there are, as long as no two entries share their key.
\<close>

theorem entities_have_identity:
  assumes "async_update_data transport decode api n = (Inr (cd_data cd), n')" and "en \<in> set ens" and "distinct (map entry_key ens)"
    and "en_runtime en = Some (api, cd)"
  shows "\<exists>es. setup_platforms cd en = Inr es \<and> length es = 8 * length (cd_data cd) \<and>
    distinct (map et_unique_id es) \<and>
    (\<forall>e \<in> set es. service_set_intrusion_schedule transport decode refresh (Some [et_identifier e]) call ens =
      ha_seq (ha_lift (service_payload call)) (\<lambda>payload.
        or_ha_error
          (ha_seq (async_set_control transport decode api (et_camera_id e) ''intrusion'' payload)
            (\<lambda>_ n. (Inr (), refresh en n)))
          ''Unable to set the INO-A9 intrusion schedule''))"
proof -
  have data_ok: "data_ok (cd_data cd)" by (rule async_update_data_ok [OF assms(1)])
  obtain es where es: "setup_platforms cd en = Inr es"
    by (simp add: setup_platforms_def switch_setup_Inr select_setup_Inr)
  note ids = setup_platforms_ids [OF es, unfolded cameras_of [OF data_ok]]
  let ?pairs = "List.product (map fst (cd_data cd)) SUFFIXES"
  have "distinct SUFFIXES" by (simp add: SUFFIXES_def)
  then have "distinct ?pairs"
    using data_ok by (simp add: data_ok_def distinct_product)
  moreover have "inj_on (\<lambda>(i, s). entity_unique_id en i s) (set ?pairs)"
    by (rule inj_onI) (auto simp: entity_unique_id_def dest: suffix_unique)
  ultimately have "distinct (map (\<lambda>(i, s). entity_unique_id en i s) ?pairs)"
    by (simp add: distinct_map)
  then have "distinct (map et_unique_id es)"
    using mset_eq_imp_distinct_iff [OF ids(1)] by simp
  moreover have "length es = 8 * length (cd_data cd)"
    using arg_cong [OF ids(1), of size] by (simp add: SUFFIXES_def)
  moreover have "service_set_intrusion_schedule transport decode refresh (Some [et_identifier e]) call ens =
      ha_seq (ha_lift (service_payload call)) (\<lambda>payload.
        or_ha_error
          (ha_seq (async_set_control transport decode api (et_camera_id e) ''intrusion'' payload)
            (\<lambda>_ n. (Inr (), refresh en n)))
          ''Unable to set the INO-A9 intrusion schedule'')" if "e \<in> set es" for e
  proof -
    from ids(2) [OF that] have "et_camera_id e \<in> fst ` set (cd_data cd)" and i: "et_identifier e = device_identifier en (et_camera_id e)"
      by auto
    from service_loop_reaches [OF assms(2-4) this(1)] show ?thesis
      by (simp add: service_set_intrusion_schedule_def i)
  qed
  ultimately show ?thesis using es by blast
qed

lemma entities_have_identity_witness:
  "\<exists>es. setup_platforms \<lparr>cd_data = [(''door_1'', JObj [(''id'', JStr ''door_1'')])], cd_success = True\<rparr>
      \<lparr>en_id = ''e1'', en_unique_id = Some ''h:8080'', en_runtime = Some (\<lparr>ha_host = ''h'', ha_http_port = 8080,
        ha_rtsp_port = 8554, ha_token = ''t''\<rparr>, \<lparr>cd_data = [(''door_1'', JObj [(''id'', JStr ''door_1'')])], cd_success = True\<rparr>)\<rparr> =
      Inr es \<and> length es = 8 \<and> distinct (map et_unique_id es)"
proof -
  define cd where "cd = \<lparr>cd_data = [(''door_1'', JObj [(''id'', JStr ''door_1'')])], cd_success = True\<rparr>"
  define api where "api = \<lparr>ha_host = ''h'', ha_http_port = 8080, ha_rtsp_port = 8554, ha_token = ''t''\<rparr>"
  define en where "en = \<lparr>en_id = ''e1'', en_unique_id = Some ''h:8080'', en_runtime = Some (api, cd)\<rparr>"
  define transport :: "bool transport" where "transport = (\<lambda>rq first. (Some (200, if first then [] else [1]), False))"
  define decode where "decode = (\<lambda>b :: bytes. if b = []
    then Some (JObj [(''cameras'', JList [JObj [(''id'', JStr ''door_1'')]])]) else Some (JObj [(''id'', JStr ''door_1'')]))"
  have "async_update_data transport decode api True = (Inr (cd_data cd), False)"
    by (simp add: async_update_data_def async_list_cameras_def async_get_camera_def ha_request_json_def ha_request_def
        transport_def decode_def ha_seq_def dict_get_def camera_id_of_def path_part_def by_id_def cd_def)
  moreover have "en \<in> set [en]" "distinct (map entry_key [en])" by simp_all
  moreover have "en_runtime en = Some (api, cd)" by (simp add: en_def)
  moreover have "length (cd_data cd) = 1" by (simp add: cd_def)
  ultimately show ?thesis
    unfolding cd_def [symmetric] api_def [symmetric] en_def [symmetric]
    using entities_have_identity [of transport decode api True cd False en "[en]"] by fastforce
qed

section \<open>Diagnostics hold no token\<close>

text \<open>Whatever the token is, the diagnostics are the same: nothing of it gets into them.\<close>

lemma diagnostics_hide_token:
  assumes "map_of entry_data ''token'' \<noteq> None"
  shows "diagnostics (dict_set entry_data ''token'' v) cd x = diagnostics entry_data cd x"
proof -
  have "dict_set (dict_set d k v) k w = dict_set d k w" for d :: dict and k v w
    by (induction d) auto
  with assms show ?thesis by (auto simp: diagnostics_def redacted_def)
qed

end
