(* ===== verification/Probe.thy ===== *)
theory Probe
  imports Client_Correct Bridge_Config Command_Lines "HOL-Library.Product_Lexorder"
begin

text \<open>
  \<open>scripts/probe_media.py\<close>: a diagnostic that connects to a camera, optionally asks for audio, counts the
  headers of the packets for a while and prints what it counted. The result of the program is the JSON value
  that is printed.
\<close>

definition FORMAT_NAMES :: "(nat \<times> string) list" where
  "FORMAT_NAMES = [(1, ''H.264''), (2, ''H.265''), (3, ''MPEG''), (4, ''MJPEG''), (21, ''G.711 A-law''),
     (31, ''G.711 u-law''), (41, ''G.711 u-law (variant)''), (51, ''Opus''), (101, ''AAC'')]"

text \<open>\<open>None\<close> is \<open>SystemExit\<close> with the message that the camera is not in the configuration.\<close>

definition select_camera :: "bridge_settings \<Rightarrow> string option \<Rightarrow> camera_settings option" where
  "select_camera s name =
     (case name of
        None \<Rightarrow> Some (hd (cameras s))
      | Some n \<Rightarrow> find (\<lambda>cam. cam_name cam = n) (cameras s))"

section \<open>A response of varint fields\<close>

function varints_loop :: "bytes \<Rightarrow> nat \<Rightarrow> (nat \<times> nat) list \<Rightarrow> (nat \<times> nat) list result" where
  "varints_loop payload offset found =
     (if offset < length payload
      then
        bind (decode_varint payload offset MAX_VARINT_BYTES) (\<lambda>(tag, offset).
        let number = drop_bit 3 tag; wire = tag AND 7 in
        if number = 0 \<or> wire \<noteq> 0
        then Inl (ValueError (concat [''unexpected protobuf field '', show_nat number, '' with wire type '', show_nat wire]))
        else
          bind (decode_varint payload offset MAX_VARINT_BYTES) (\<lambda>(v, offset).
            varints_loop payload offset (dict_set found number v)))
      else Inr found)"
  by pat_completeness auto
termination
proof (relation "measure (\<lambda>(payload, offset, found). length payload - offset)", goal_cases)
  case 1
  show ?case by simp
next
  case (2 payload offset found x tag offset1 number wire y v offset2)
  then have "offset < offset1" "offset1 < offset2"
    by (auto dest: decode_varint_range)
  then show ?case using 2 by (simp add: diff_less_mono2)
qed

declare varints_loop.simps [simp del]

definition protobuf_varints :: "bytes \<Rightarrow> (nat \<times> nat) list result" where
  "protobuf_varints payload = varints_loop payload 0 []"

section \<open>Counting\<close>

type_synonym media_key = "nat \<times> nat \<times> nat"

record probe_counts =
  pc_packets :: "(media_key \<times> nat) list"
  pc_bytes :: "(media_key \<times> nat) list"
  pc_sequences :: "(media_key \<times> nat set) list"
  pc_commands :: "((nat \<times> nat) \<times> nat) list"

definition no_counts :: probe_counts where
  "no_counts = \<lparr>pc_packets = [], pc_bytes = [], pc_sequences = [], pc_commands = []\<rparr>"

definition counted :: "('k \<times> nat) list \<Rightarrow> 'k \<Rightarrow> nat" where
  "counted d k = (case map_of d k of None \<Rightarrow> 0 | Some n \<Rightarrow> n)"

definition add_count :: "('k \<times> nat) list \<Rightarrow> 'k \<Rightarrow> nat \<Rightarrow> ('k \<times> nat) list" where
  "add_count d k n = dict_set d k (counted d k + n)"

definition seen :: "('k \<times> 'a set) list \<Rightarrow> 'k \<Rightarrow> 'a set" where
  "seen d k = (case map_of d k of None \<Rightarrow> {} | Some s \<Rightarrow> s)"

definition av_key :: "av_packet \<Rightarrow> media_key" where
  "av_key p = (av_media_format p, av_channel p, av_encryption_type p)"

definition count_av :: "av_packet \<Rightarrow> probe_counts \<Rightarrow> probe_counts" where
  "count_av p pc =
     \<lparr>pc_packets = add_count (pc_packets pc) (av_key p) 1,
      pc_bytes = add_count (pc_bytes pc) (av_key p) (length (av_payload p)),
      pc_sequences = dict_set (pc_sequences pc) (av_key p) (insert (av_sequence p) (seen (pc_sequences pc) (av_key p))),
      pc_commands = pc_commands pc\<rparr>"

definition count_rpc :: "rpc_packet \<Rightarrow> probe_counts \<Rightarrow> probe_counts" where
  "count_rpc p pc = pc\<lparr>pc_commands := add_count (pc_commands pc) (rpc_rpc_type p, rpc_command_id p) 1\<rparr>"

text \<open>The \<open>for\<close> loop over the packets of one read, with the answers to time requests.\<close>

fun probe_packets :: "cipher_suite \<Rightarrow> packet list \<Rightarrow> probe_counts \<Rightarrow> (probe_counts, client) op" where
  "probe_packets cs [] pc c = (Inr pc, c)"
| "probe_packets cs (RPC p # ps) pc c =
     (case handle_rpc_request cs p c of
        (Inl e, c) \<Rightarrow> (Inl e, c)
      | (Inr _, c) \<Rightarrow> probe_packets cs ps (count_rpc p pc) c)"
| "probe_packets cs (AV p # ps) pc c = probe_packets cs ps (count_av p pc) c"
| "probe_packets cs (Raw p # ps) pc c = probe_packets cs ps pc c"

definition probe_receive :: "nat \<Rightarrow> (packet list, client) op" where
  "probe_receive deadline c =
     (if cl_pending c \<noteq> [] then (Inr (cl_pending c), c\<lparr>cl_pending := []\<rparr>)
      else receive (min deadline (cl_now c + 2000)) c)"

lemma keeps_probe_packets: "keeps only_sends (probe_packets cs ps pc)"
proof -
  have "only_sends c (snd (probe_packets cs ps pc c))" for c
  proof (induction cs ps pc c rule: probe_packets.induct)
    case (2 cs p ps pc c)
    obtain r c1 where h: "handle_rpc_request cs p c = (r, c1)" by fastforce
    with keepsD [OF keeps_handle_rpc_request h] 2 [OF h [symmetric]] show ?case
      by (cases r) (auto intro: only_sends_trans)
  qed simp_all
  then show ?thesis by (simp add: keeps_def)
qed

function probe_loop :: "cipher_suite \<Rightarrow> nat \<Rightarrow> probe_counts \<Rightarrow> (probe_counts, client) op" where
  "probe_loop cs deadline pc c =
     (if cl_now c < deadline
      then
        (case probe_receive deadline c of
           (Inl e, c) \<Rightarrow> (Inl e, c)
         | (Inr packets, c) \<Rightarrow>
             (case probe_packets cs packets pc c of
                (Inl e, c) \<Rightarrow> (Inl e, c)
              | (Inr pc, c) \<Rightarrow> probe_loop cs deadline pc c))
      else (Inr pc, c))"
  by pat_completeness auto
termination
proof (relation "measures [\<lambda>(cs, deadline, pc, c). inbox_size (cl_inbox c) + length (cl_pending c),
    \<lambda>(cs, deadline, pc, c). deadline - cl_now c]", goal_cases)
  case 1
  show ?case by simp
next
  case (2 cs deadline pc c r c1 packets r' c2 pc')
  then have read: "probe_receive deadline c = (Inr packets, c1)" and sent: "only_sends c1 c2"
    using keepsD [OF keeps_probe_packets [of cs packets pc], of c1 r' c2] by simp_all
  show ?case
  proof (cases "cl_pending c = []")
    case True
    with read have "receive (min deadline (cl_now c + 2000)) c = (Inr packets, c1)" by (simp add: probe_receive_def)
    from receive_progress [OF this] receive_fields(1,5) [OF this] 2(1) show ?thesis
      by (auto simp: only_sendsD [OF sent] True)
  next
    case False
    with read have "c1 = c\<lparr>cl_pending := []\<rparr>" by (auto simp: probe_receive_def)
    with False show ?thesis by (simp add: only_sendsD [OF sent])
  qed
qed

declare probe_loop.simps [simp del]

section \<open>The report\<close>

definition optional_number :: "nat option \<Rightarrow> json" where
  "optional_number v = (case v of None \<Rightarrow> JNull | Some n \<Rightarrow> JInt (int n))"

definition audio_start_report :: "rpc_packet \<Rightarrow> (nat \<times> nat) list \<Rightarrow> json" where
  "audio_start_report response found =
     JObj [(''command'', JInt (int AUDIO_START_COMMAND)), (''response_code'', optional_number (rpc_response_code response)),
       (''codec'', optional_number (map_of found 5)), (''sample_rate_hz'', optional_number (map_of found 6)),
       (''sample_bits'', optional_number (map_of found 7)), (''tracks'', optional_number (map_of found 8)),
       (''fields'', JObj (map (\<lambda>(field, v). (show_nat field, JInt (int v))) found))]"

definition probe_audio :: "cipher_suite \<Rightarrow> bytes \<Rightarrow> (json, client) op" where
  "probe_audio cs pfx c =
     seq_state (send_request cs 4 AUDIO_START_COMMAND []) (\<lambda>_.
     seq_state (wait_response cs 4 AUDIO_START_COMMAND) (\<lambda>response.
     seq_state (lift_result (decrypt_rpc_payload cs response pfx)) (\<lambda>payload.
     seq_state (lift_result (protobuf_varints payload)) (\<lambda>found.
       lift_result (Inr (audio_start_report response found)))))) (c\<lparr>cl_now := cl_now c + 300\<rparr>)"

definition format_report :: "probe_counts \<Rightarrow> media_key \<Rightarrow> json" where
  "format_report pc key =
     (case key of (media_format, channel, encryption) \<Rightarrow>
       JObj [(''format'', JInt (int media_format)),
         (''name'', JStr (case map_of FORMAT_NAMES media_format of None \<Rightarrow> ''unknown'' | Some n \<Rightarrow> n)),
         (''channel'', JInt (int channel)), (''encryption'', JInt (int encryption)),
         (''packets'', JInt (int (counted (pc_packets pc) key))),
         (''sequences'', JInt (int (card (seen (pc_sequences pc) key)))),
         (''payload_bytes'', JInt (int (counted (pc_bytes pc) key)))])"

definition probe_report :: "string \<Rightarrow> nat \<Rightarrow> json \<Rightarrow> probe_counts \<Rightarrow> json" where
  "probe_report name elapsed audio_start pc =
     JObj [(''camera'', JStr name), (''duration_seconds'', JFloat (of_nat elapsed / 1000)), (''audio_start'', audio_start),
       (''formats'', JList (map (format_report pc) (sort (map fst (pc_packets pc))))),
       (''rpc_commands'', JList (map (\<lambda>((rpc_type, command), n).
          JObj [(''rpc_type'', JInt (int rpc_type)), (''command'', JInt (int command)), (''packets'', JInt (int n))])
          (sort (pc_commands pc))))]"

text \<open>\<open>main\<close> from the connection to the report.\<close>

definition probe_block :: "cipher_suite \<Rightarrow> bytes \<Rightarrow> bool \<Rightarrow> nat \<Rightarrow> (json \<times> probe_counts, client) op" where
  "probe_block cs pfx ask_audio duration =
     seq_state (if ask_audio then probe_audio cs pfx else lift_result (Inr JNull)) (\<lambda>audio_start c.
       case probe_loop cs (cl_now c + duration) no_counts c of
         (Inl e, c) \<Rightarrow> (Inl e, c)
       | (Inr pc, c) \<Rightarrow> (Inr (audio_start, pc), c))"

definition probe_main :: "cipher_suite \<Rightarrow> camera_settings \<Rightarrow> bool \<Rightarrow> nat \<Rightarrow> (json, client) op" where
  "probe_main cs cam ask_audio duration c =
     (let started = cl_now c in
      case with_client cs (probe_block cs (bootstrap_prefix (cam_credentials cam)) ask_audio duration) c of
        (Inl e, c) \<Rightarrow> (Inl e, c)
      | (Inr (audio_start, pc), c) \<Rightarrow> (Inr (probe_report (cam_name cam) (cl_now c - started) audio_start pc), c))"

text \<open>
  The program from its arguments on. \<open>to_float\<close> is \<open>float\<close>, in milliseconds; \<open>dials\<close> and \<open>sends\<close> are the
  scripts of the socket.
\<close>

definition probe_program :: "cipher_suite \<Rightarrow> (string \<Rightarrow> int option) \<Rightarrow> (json \<Rightarrow> string) \<Rightarrow> (string \<Rightarrow> json result)
    \<Rightarrow> (string \<Rightarrow> string result) \<Rightarrow> (exn + net_event list) list \<Rightarrow> exn option list \<Rightarrow> string list
    \<Rightarrow> json program_end \<times> client option" where
  "probe_program cs to_float py_repr json_loads read_file dials sends argv =
     (case parse_probe_args to_float argv of
        Inl code \<Rightarrow> (System_Exit code, None)
      | Inr args \<Rightarrow>
          if pa_duration args \<le> 0 then (Exit_Text ''--duration must be positive'', None)
          else
            (case load_config py_repr json_loads (read_file (pa_config args)) of
               Inl e \<Rightarrow> (Raises e, None)
             | Inr settings \<Rightarrow>
                 (case select_camera settings (pa_camera args) of
                    None \<Rightarrow>
                      (Exit_Text (concat [''camera '', py_repr (JStr (the (pa_camera args))),
                         '' is not present in the configuration'']), None)
                  | Some cam \<Rightarrow>
                      (case camera_client (cam_credentials cam) 5000 DEFAULT_FRAME_TIMEOUT None of
                         Inl e \<Rightarrow> (Raises e, None)
                       | Inr c \<Rightarrow>
                           (case probe_main cs cam (pa_start_audio args) (nat (pa_duration args))
                                   (c\<lparr>cl_dials := dials, cl_sends := sends\<rparr>) of
                              (r, c) \<Rightarrow> (ending r, Some c))))))"

section \<open>What the probe counts\<close>

lemma counted_add_count [simp]: "counted (add_count d k n) k' = counted d k' + (if k' = k then n else 0)"
  by (simp add: add_count_def counted_def)

lemma seen_dict_set [simp]: "seen (dict_set d k s) k' = (if k' = k then s else seen d k')"
  by (simp add: seen_def)

fun av_packets :: "packet list \<Rightarrow> av_packet list" where
  "av_packets [] = []"
| "av_packets (AV p # ps) = p # av_packets ps"
| "av_packets (_ # ps) = av_packets ps"

fun rpc_packets :: "packet list \<Rightarrow> rpc_packet list" where
  "rpc_packets [] = []"
| "rpc_packets (RPC p # ps) = p # rpc_packets ps"
| "rpc_packets (_ # ps) = rpc_packets ps"

text \<open>The counters are exact: for every key, they hold what the packets of that key add up to.\<close>

theorem probe_packets_tally:
  assumes "probe_packets cs ps pc c = (Inr pc', c')"
  shows "counted (pc_packets pc') k = counted (pc_packets pc) k + length (filter (\<lambda>p. av_key p = k) (av_packets ps))"
    and "counted (pc_bytes pc') k = counted (pc_bytes pc) k +
      sum_list (map (\<lambda>p. length (av_payload p)) (filter (\<lambda>p. av_key p = k) (av_packets ps)))"
    and "seen (pc_sequences pc') k = seen (pc_sequences pc) k \<union>
      av_sequence ` {p \<in> set (av_packets ps). av_key p = k}"
    and "counted (pc_commands pc') q = counted (pc_commands pc) q +
      length (filter (\<lambda>p. (rpc_rpc_type p, rpc_command_id p) = q) (rpc_packets ps))"
  using assms
  by (induction cs ps pc c rule: probe_packets.induct)
    (auto simp: count_av_def count_rpc_def split: prod.splits sum.splits)

text \<open>The probe ends in time: at most 49 ms after its deadline, whatever the camera sends.\<close>

theorem probe_loop_time:
  assumes "probe_loop cs deadline pc c = (r, c')"
  shows "cl_now c' \<le> max (cl_now c) (deadline + 49)"
  using assms
proof (induction cs deadline pc c rule: probe_loop.induct)
  case (1 cs deadline pc c)
  show ?case
  proof (cases "cl_now c < deadline")
    case True
    obtain x c1 where read: "probe_receive deadline c = (x, c1)" by fastforce
    have t1: "cl_now c1 \<le> deadline + 49"
      using True read receive_time [of "min deadline (cl_now c + 2000)" c x c1]
      by (auto simp: probe_receive_def split: if_splits)
    show ?thesis
    proof (cases x)
      case (Inl e)
      with True read t1 1(2) show ?thesis by (auto simp: probe_loop.simps [of cs deadline pc c])
    next
      case (Inr packets)
      obtain y c2 where run: "probe_packets cs packets pc c1 = (y, c2)" by fastforce
      have t2: "cl_now c2 = cl_now c1" using only_sendsD(1) [OF keepsD [OF keeps_probe_packets run]] .
      show ?thesis
      proof (cases y)
        case (Inl e)
        with True read Inr run t1 t2 1(2) show ?thesis by (auto simp: probe_loop.simps [of cs deadline pc c])
      next
        case (Inr pc1)
        with True read \<open>x = Inr packets\<close> run 1(2) have "probe_loop cs deadline pc1 c2 = (r, c')"
          by (simp add: probe_loop.simps [of cs deadline pc c])
        from 1(1) [OF True read [symmetric] \<open>x = Inr packets\<close> run [symmetric] Inr this] t1 t2 show ?thesis by simp
      qed
    qed
  qed (use 1(2) in \<open>simp add: probe_loop.simps\<close>)
qed

text \<open>A message of varint fields is read completely; a field that comes twice has its last value.\<close>

theorem protobuf_varints_message:
  assumes "\<forall>(n, v) \<in> set nvs. 0 < n \<and> 8 * n < 2 ^ 70 \<and> v < 2 ^ 70"
  shows "protobuf_varints (encode_message (map (\<lambda>(n, v). VarintF n v) nvs)) =
    Inr (foldl (\<lambda>d (n, v). dict_set d n v) [] nvs)"
proof -
  have "varints_loop payload off d = Inr (foldl (\<lambda>d (n, v). dict_set d n v) d nvs)"
    if "drop off payload = encode_message (map (\<lambda>(n, v). VarintF n v) nvs)" for off d payload
    using that assms
  proof (induction nvs arbitrary: off d)
    case Nil
    then show ?case by (simp add: varints_loop.simps)
  next
    case (Cons nv nvs)
    obtain n v where nv: "nv = (n, v)" by fastforce
    with Cons.prems(2) have wf: "0 < n" "field_wf (VarintF n v)" "v < 2 ^ 70" by auto
    let ?rest = "encode_message (map (\<lambda>(n, v). VarintF n v) nvs)"
    let ?off = "off + length (varint (field_tag (VarintF n v)))"
    have d: "drop off payload = varint (field_tag (VarintF n v)) @ varint v @ ?rest"
      using Cons.prems(1) by (simp add: nv encode_field_def)
    note d' = v10.drop_after [OF d]
    have "off < length payload"
      using d varint_nonempty [of "field_tag (VarintF n v)"] by (metis append_is_Nil_conv drop_eq_Nil not_le)
    moreover have "decode_varint payload off MAX_VARINT_BYTES = Inr (field_tag (VarintF n v), ?off)"
      by (rule v10.dec_at [OF field_wf_tag [OF wf(2)] d])
    moreover have "decode_varint payload ?off MAX_VARINT_BYTES = Inr (v, ?off + length (varint v))"
      by (rule v10.dec_at [OF wf(3) d'])
    moreover have "varints_loop payload (?off + length (varint v)) (dict_set d n v) =
        Inr (foldl (\<lambda>d (n, v). dict_set d n v) (dict_set d n v) nvs)"
      by (rule Cons.IH [OF v10.drop_after [OF d']]) (use Cons.prems(2) in auto)
    ultimately show ?case using wf(1) by (simp add: varints_loop.simps [of payload off] nv)
  qed
  then show ?thesis by (simp add: protobuf_varints_def)
qed

section \<open>The whole probe\<close>

text \<open>The tables of the probe have the same keys, each with at least one packet and one sequence number.\<close>

definition counts_ok :: "probe_counts \<Rightarrow> bool" where
  "counts_ok pc \<longleftrightarrow>
     map fst (pc_bytes pc) = map fst (pc_packets pc) \<and> map fst (pc_sequences pc) = map fst (pc_packets pc) \<and>
     distinct (map fst (pc_packets pc)) \<and>
     (\<forall>k \<in> fst ` set (pc_packets pc). finite (seen (pc_sequences pc) k) \<and>
        1 \<le> card (seen (pc_sequences pc) k) \<and> card (seen (pc_sequences pc) k) \<le> counted (pc_packets pc) k)"

lemma no_counts_ok: "counts_ok no_counts"
  by (simp add: counts_ok_def no_counts_def)

lemma unseen: "map fst d = map fst e \<Longrightarrow> k \<notin> fst ` set e \<Longrightarrow> seen d k = {} \<and> counted e k = 0"
  by (metis (no_types, lifting) counted_def image_set map_of_eq_None_iff option.case(1) seen_def)

lemma count_av_ok:
  assumes "counts_ok pc"
  shows "counts_ok (count_av p pc)"
proof -
  let ?k = "av_key p" and ?s = "seen (pc_sequences pc) (av_key p)"
  have "finite ?s \<and> card ?s \<le> counted (pc_packets pc) ?k"
  proof (cases "?k \<in> fst ` set (pc_packets pc)")
    case False
    with assms unseen [of "pc_sequences pc" "pc_packets pc" ?k] show ?thesis by (simp add: counts_ok_def)
  qed (use assms in \<open>unfold counts_ok_def, blast\<close>)
  then have new: "finite (insert (av_sequence p) ?s) \<and> 1 \<le> card (insert (av_sequence p) ?s) \<and>
      card (insert (av_sequence p) ?s) \<le> counted (pc_packets pc) ?k + 1"
    using card_0_eq [of "insert (av_sequence p) ?s"] by (auto simp: card_insert_if Suc_le_eq card_gt_0_iff)
  have keys: "fst ` set (pc_packets (count_av p pc)) = insert ?k (fst ` set (pc_packets pc))"
    by (metis count_av_def add_count_def dom_fun_upd dom_map_of_conv_image_fst map_of_dict_set option.distinct(1)
        probe_counts.select_convs(1))
  have "finite (seen (pc_sequences (count_av p pc)) k) \<and> 1 \<le> card (seen (pc_sequences (count_av p pc)) k) \<and>
      card (seen (pc_sequences (count_av p pc)) k) \<le> counted (pc_packets (count_av p pc)) k"
    if "k \<in> fst ` set (pc_packets (count_av p pc))" for k
  proof (cases "k = ?k")
    case True
    with new show ?thesis by (simp add: count_av_def)
  next
    case False
    with that keys have "k \<in> fst ` set (pc_packets pc)" by simp
    with assms have "finite (seen (pc_sequences pc) k) \<and> 1 \<le> card (seen (pc_sequences pc) k) \<and>
        card (seen (pc_sequences pc) k) \<le> counted (pc_packets pc) k"
      unfolding counts_ok_def by blast
    with False show ?thesis by (simp add: count_av_def)
  qed
  moreover have "map fst (pc_bytes (count_av p pc)) = map fst (pc_packets (count_av p pc)) \<and>
      map fst (pc_sequences (count_av p pc)) = map fst (pc_packets (count_av p pc)) \<and>
      distinct (map fst (pc_packets (count_av p pc)))"
  proof -
    have "fst ` set (pc_bytes pc) = fst ` set (pc_packets pc)" "fst ` set (pc_sequences pc) = fst ` set (pc_packets pc)"
      using assms unfolding counts_ok_def by (metis list.set_map)+
    with assms show ?thesis by (simp add: counts_ok_def count_av_def add_count_def keys_dict_set)
  qed
  ultimately show ?thesis unfolding counts_ok_def by blast
qed

lemma probe_packets_ok: "probe_packets cs ps pc c = (Inr pc', c') \<Longrightarrow> counts_ok pc \<Longrightarrow> counts_ok pc'"
proof (induction cs ps pc c rule: probe_packets.induct)
  case (2 cs p ps pc c)
  moreover have "counts_ok (count_rpc p pc) \<longleftrightarrow> counts_ok pc" by (simp add: counts_ok_def count_rpc_def)
  ultimately show ?case by (auto split: prod.splits sum.splits)
qed (simp_all add: count_av_ok)

lemma probe_loop_ok:
  "probe_loop cs deadline pc c = (Inr pc', c') \<Longrightarrow> counts_ok pc \<Longrightarrow> counts_ok pc' \<and> deadline \<le> cl_now c'"
proof (induction cs deadline pc c rule: probe_loop.induct)
  case (1 cs deadline pc c)
  show ?case
  proof (cases "cl_now c < deadline")
    case True
    with 1(2) obtain packets c1 pc1 c2 where read: "probe_receive deadline c = (Inr packets, c1)"
      and run: "probe_packets cs packets pc c1 = (Inr pc1, c2)" and rest: "probe_loop cs deadline pc1 c2 = (Inr pc', c')"
      by (auto simp: probe_loop.simps [of cs deadline pc c] split: prod.splits sum.splits)
    from 1(1) [OF True read [symmetric] refl run [symmetric] refl rest] probe_packets_ok [OF run 1(3)] show ?thesis .
  qed (use 1(2,3) in \<open>simp add: probe_loop.simps\<close>)
qed

lemma takes_probe_audio: "takes T (300 + T + 49) (probe_audio cs pfx)"
  unfolding takes_def
proof (intro allI impI)
  fix c :: client assume c: "cl_connect_timeout c = T"
  have "takes T (0 + ((T + 49) + (0 + (0 + 0))))
    (seq_state (send_request cs 4 AUDIO_START_COMMAND []) (\<lambda>_.
     seq_state (wait_response cs 4 AUDIO_START_COMMAND) (\<lambda>response.
     seq_state (lift_result (decrypt_rpc_payload cs response pfx)) (\<lambda>payload.
     seq_state (lift_result (protobuf_varints payload)) (\<lambda>found.
       lift_result (Inr (audio_start_report response found)))))))"
    by (intro takes_seq takes_basic)
  from this [unfolded takes_def, rule_format, of "c\<lparr>cl_now := cl_now c + 300\<rparr>"] c
  show "cl_connect_timeout (snd (probe_audio cs pfx c)) = T \<and> cl_now c \<le> cl_now (snd (probe_audio cs pfx c)) \<and>
      cl_now (snd (probe_audio cs pfx c)) \<le> cl_now c + (300 + T + 49)"
    by (simp add: probe_audio_def)
qed

lemma probe_block_time:
  assumes "probe_block cs pfx ask_audio duration c = (r, c')"
  shows "cl_now c' \<le> cl_now c + (if ask_audio then 300 + cl_connect_timeout c + 49 else 0) + (duration + 49) \<and>
    (\<forall>audio_start pc. r = Inr (audio_start, pc) \<longrightarrow> counts_ok pc \<and> cl_now c + duration \<le> cl_now c')"
proof -
  obtain x c1 where a: "(if ask_audio then probe_audio cs pfx else lift_result (Inr JNull)) c = (x, c1)" by fastforce
  have t1: "cl_now c1 \<le> cl_now c + (if ask_audio then 300 + cl_connect_timeout c + 49 else 0)" "cl_now c \<le> cl_now c1"
    using takesD [OF takes_probe_audio _ refl, of cs pfx c x c1] a by (auto simp: lift_result_def split: if_splits)
  show ?thesis
  proof (cases x)
    case (Inl e)
    with assms a t1 show ?thesis by (auto simp: probe_block_def seq_state_def)
  next
    case (Inr audio_start)
    obtain y c2 where l: "probe_loop cs (cl_now c1 + duration) no_counts c1 = (y, c2)" by fastforce
    have "c' = c2" and r: "r = (case y of Inl e \<Rightarrow> Inl e | Inr pc \<Rightarrow> Inr (audio_start, pc))"
      using assms a Inr l by (auto simp: probe_block_def seq_state_def split: sum.splits)
    with probe_loop_time [OF l] probe_loop_ok [of cs "cl_now c1 + duration" no_counts c1 _ c2] l no_counts_ok t1
    show ?thesis by (cases y) auto
  qed
qed

text \<open>
  C39. The probe always comes to its end and leaves nothing open. Whatever the camera sends, or when the connection
  fails: the client is disconnected at the end, and not more time has passed than \<open>connect\<close> may take, the audio
  request, and the duration, with 49 ms for the last read. When it reports, it has counted for the whole
  duration, and every format in the report has at least one packet and one sequence number, and not more
  sequence numbers than packets.
\<close>

theorem probe_ends:
  "(case probe_main cs cam ask_audio duration c of
      (r, c') \<Rightarrow>
        disconnected c' \<and>
        cl_now c' \<le> cl_now c + (3 * cl_connect_timeout c + 2196) +
          (if ask_audio then 300 + cl_connect_timeout c + 49 else 0) + (duration + 49) \<and>
        (case r of
           Inl e \<Rightarrow> True
         | Inr report \<Rightarrow> \<exists>audio_start pc.
             report = probe_report (cam_name cam) (cl_now c' - cl_now c) audio_start pc \<and> counts_ok pc \<and>
             cl_now c + duration \<le> cl_now c'))"
proof -
  let ?block = "probe_block cs (bootstrap_prefix (cam_credentials cam)) ask_audio duration"
  obtain x c' where run: "with_client cs ?block c = (x, c')" by fastforce
  then have closed: "disconnected c'" using with_client_disconnects by (metis snd_conv)
  obtain y c1 where con: "connect cs c = (y, c1)" by fastforce
  note t1 = connect_time [of c cs, unfolded con snd_conv]
  show ?thesis
  proof (cases y)
    case (Inl e)
    with run con closed t1 show ?thesis by (auto simp: probe_main_def with_client_def)
  next
    case (Inr u)
    obtain z c2 where block: "?block c1 = (z, c2)" by fastforce
    with run con Inr have "x = z" "c' = close_client c2" by (auto simp: with_client_def)
    moreover from this(2) have "cl_now c' = cl_now c2" by (simp add: close_client_def)
    moreover note block_time = probe_block_time [OF block]
    ultimately have time: "cl_now c' \<le> cl_now c + (3 * cl_connect_timeout c + 2196) +
          (if ask_audio then 300 + cl_connect_timeout c + 49 else 0) + (duration + 49)"
      using t1 by (auto split: if_splits)
    show ?thesis
    proof (cases z)
      case (Inl e)
      with closed time run \<open>x = z\<close> show ?thesis by (simp add: probe_main_def)
    next
      case (Inr ap)
      obtain audio_start pc where ap: "ap = (audio_start, pc)" by fastforce
      with block_time Inr t1 \<open>cl_now c' = cl_now c2\<close> have "counts_ok pc" "cl_now c + duration \<le> cl_now c'" by auto
      with closed time run \<open>x = z\<close> Inr ap show ?thesis by (auto simp: probe_main_def)
    qed
  qed
qed

end
