(* ===== verification/Cli.thy ===== *)
theory Cli
  imports Pprpc_Stream Command_Lines
begin

text \<open>
  \<open>ino_a9_bridge/src/wificam_bridge/cli.py\<close>: decoding one packet given in hexadecimal. The result is the
  JSON value that is printed, or the text after \<open>error:\<close>; the message for bad hexadecimal text comes without
  the position.
\<close>

section \<open>Hexadecimal text\<close>

definition hex_digit :: "nat \<Rightarrow> char" where
  "hex_digit d = (if d < 10 then digit d else char_of (87 + d))"

definition hex_value :: "char \<Rightarrow> nat option" where
  "hex_value c =
     (let n = of_char c :: nat in
      if 48 \<le> n \<and> n \<le> 57 then Some (n - 48)
      else if 97 \<le> n \<and> n \<le> 102 then Some (n - 87)
      else if 65 \<le> n \<and> n \<le> 70 then Some (n - 55)
      else None)"

definition hex :: "bytes \<Rightarrow> string" where
  "hex b = concat (map (\<lambda>x. [hex_digit (unat x div 16), hex_digit (unat x mod 16)]) b)"

text \<open>\<open>bytes.fromhex\<close>: white space may stand between bytes, but not inside one.\<close>

definition hex_space :: "char \<Rightarrow> bool" where
  "hex_space c \<longleftrightarrow> (let n = of_char c :: nat in 9 \<le> n \<and> n \<le> 13 \<or> n = 32)"

fun fromhex :: "string \<Rightarrow> bytes option" where
  "fromhex [] = Some []"
| "fromhex [c] = (if hex_space c then Some [] else None)"
| "fromhex (c # d # s) =
     (if hex_space c then fromhex (d # s)
      else
        (case (hex_value c, hex_value d) of
           (Some x, Some y) \<Rightarrow> map_option ((#) (of_nat (16 * x + y))) (fromhex s)
         | _ \<Rightarrow> None))"

section \<open>The printed value\<close>

definition jsonable_bytes :: "bytes \<Rightarrow> json" where
  "jsonable_bytes b = JObj [(''length'', JInt (int (length b))), (''hex'', JStr (hex b))]"

definition jsonable_header :: "fixed_header \<Rightarrow> json" where
  "jsonable_header h =
     JObj [(''message_type'', JInt (int (fh_message_type h))), (''flag'', JInt (int (fh_flag h))),
       (''length'', JInt (int (fh_length h))), (''is_udp'', JBool (fh_is_udp h)), (''size'', JInt (int (fh_size h)))]"

fun jsonable :: "packet \<Rightarrow> json" where
  "jsonable (RPC p) =
     JObj [(''header'', jsonable_header (rpc_header p)), (''sequence'', JInt (int (rpc_sequence p))),
       (''command_id'', JInt (int (rpc_command_id p))), (''encryption_type'', JInt (int (rpc_encryption_type p))),
       (''rpc_type'', JInt (int (rpc_rpc_type p))),
       (''response_code'', (case rpc_response_code p of None \<Rightarrow> JNull | Some n \<Rightarrow> JInt (int n))),
       (''payload'', jsonable_bytes (rpc_payload p))]"
| "jsonable (AV p) =
     JObj [(''header'', jsonable_header (av_header p)), (''is_key_frame'', JBool (av_is_key_frame p)),
       (''media_format'', JInt (int (av_media_format p))), (''encryption_type'', JInt (int (av_encryption_type p))),
       (''channel'', JInt (int (av_channel p))), (''sequence'', JInt (int (av_sequence p))),
       (''timestamp'', JInt (int (av_timestamp p))), (''encrypted_length'', JInt (int (av_encrypted_length p))),
       (''payload'', jsonable_bytes (av_payload p))]"
| "jsonable (Raw p) =
     JObj [(''header'', jsonable_header (raw_header p)), (''payload'', jsonable_bytes (raw_payload p))]"

definition cli_main :: "bool \<Rightarrow> bool \<Rightarrow> string \<Rightarrow> string + json" where
  "cli_main udp_flag tcp_flag hex_packet =
     (case fromhex hex_packet of
        None \<Rightarrow> Inl ''error: non-hexadecimal number found in fromhex() arg''
      | Some data \<Rightarrow>
          (case parse_packet data (if udp_flag then Some True else if tcp_flag then Some False else None) True of
             Inl e \<Rightarrow> Inl (''error: '' @ exn_message e)
           | Inr packet \<Rightarrow> Inr (jsonable packet)))"

text \<open>The program from its arguments on.\<close>

definition cli_program :: "string list \<Rightarrow> json program_end" where
  "cli_program argv =
     (case parse_cli_args argv of
        Inl code \<Rightarrow> System_Exit code
      | Inr args \<Rightarrow>
          (case cli_main (ca_udp args) (ca_tcp args) (ca_hex_packet args) of
             Inl t \<Rightarrow> Exit_Text t
           | Inr v \<Rightarrow> Returns v))"

section \<open>Hexadecimal text and back\<close>

lemma hex_value_digit: "d < 16 \<Longrightarrow> hex_value (hex_digit d) = Some d \<and> \<not> hex_space (hex_digit d)"
  by (auto simp: hex_value_def hex_digit_def hex_space_def of_char_digit of_char_of Let_def)

lemma fromhex_hex: "fromhex (hex b) = Some b"
proof (induction b)
  case (Cons x b)
  have "unat x < 256" by (rule order.strict_trans2 [OF unsigned_less]) simp
  then have bounds: "unat x div 16 < 16" "unat x mod 16 < 16" by (simp_all add: less_mult_imp_div_less)
  have "of_nat (16 * (unat x div 16) + unat x mod 16) = x" by (simp only: mult_div_mod_eq) simp
  with Cons hex_value_digit [OF bounds(1)] hex_value_digit [OF bounds(2)] show ?case
    by (simp add: hex_def)
qed (simp add: hex_def)

text \<open>What is printed determines the packet: no two packets are shown alike.\<close>

lemma jsonable_bytes_inj: "jsonable_bytes a = jsonable_bytes b \<longleftrightarrow> a = b"
  using fromhex_hex by (auto simp: jsonable_bytes_def) (metis option.inject)

lemma jsonable_header_inj: "jsonable_header g = jsonable_header h \<longleftrightarrow> g = h"
  by (cases g; cases h) (auto simp: jsonable_header_def)

lemma jsonable_inj: "jsonable p = jsonable q \<longleftrightarrow> p = q"
proof (cases p; cases q)
  fix a b assume "p = RPC a" "q = RPC b"
  then show ?thesis
    by (cases a; cases b) (auto simp: jsonable_bytes_inj jsonable_header_inj split: option.splits)
next
  fix a b assume "p = AV a" "q = AV b"
  then show ?thesis by (cases a; cases b) (auto simp: jsonable_bytes_inj jsonable_header_inj)
next
  fix a b assume "p = Raw a" "q = Raw b"
  then show ?thesis by (cases a; cases b) (auto simp: jsonable_bytes_inj jsonable_header_inj)
qed simp_all

lemma cli_main_decodes:
  "cli_main udp_flag tcp_flag (hex data) =
     (case parse_packet data (if udp_flag then Some True else if tcp_flag then Some False else None) True of
        Inl e \<Rightarrow> Inl (''error: '' @ exn_message e)
      | Inr packet \<Rightarrow> Inr (jsonable packet))"
  by (simp add: cli_main_def fromhex_hex)

text \<open>Hexadecimal text never looks like an option.\<close>

lemma hex_digit_not_dash: "d < 16 \<Longrightarrow> hex_digit d \<noteq> CHR ''-''"
  by (auto simp: hex_digit_def of_char_digit dest!: arg_cong [of _ _ "of_char :: char \<Rightarrow> nat"] split: if_splits)

lemma hex_not_option: "\<not> prefix ''-'' (hex data)"
proof (cases data)
  case (Cons x xs)
  have "unat x < 256" by (rule order.strict_trans2 [OF unsigned_less]) simp
  then have "hex_digit (unat x div 16) \<noteq> CHR ''-''" by (intro hex_digit_not_dash) (simp add: less_mult_imp_div_less)
  then show ?thesis by (simp add: Cons hex_def)
qed (simp add: hex_def)

definition mode_words :: "bool option \<Rightarrow> string list" where
  "mode_words udp = (case udp of None \<Rightarrow> [] | Some True \<Rightarrow> [''--udp''] | Some False \<Rightarrow> [''--tcp''])"

lemma parse_decode:
  "parse_cli_args (''decode'' # mode_words udp @ [hex data]) =
     Inr \<lparr>ca_hex_packet = hex data, ca_udp = (udp = Some True), ca_tcp = (udp = Some False)\<rparr>"
  "parse_cli_args (''decode'' # hex data # mode_words udp) =
     Inr \<lparr>ca_hex_packet = hex data, ca_udp = (udp = Some True), ca_tcp = (udp = Some False)\<rparr>"
proof -
  have word: "parse_optional (option_strings decode_parser) (hex data) = Argument" "hex data \<noteq> ''--''"
    using hex_not_option [of data] by (auto simp: parse_optional_def)
  have flags: "parse_optional (option_strings decode_parser) ''--udp'' = Option ''--udp'' None"
    "parse_optional (option_strings decode_parser) ''--tcp'' = Option ''--tcp'' None"
    "parse_optional [''-h'', ''--help''] ''decode'' = Argument"
    by code_simp+
  note run = mode_words_def parse_args_def parse_known_args_def word flags find_option_def store_flag_def
    missing_arguments_def no_arguments_def cli_args_of_def flag_given_def
  show "parse_cli_args (''decode'' # mode_words udp @ [hex data]) =
     Inr \<lparr>ca_hex_packet = hex data, ca_udp = (udp = Some True), ca_tcp = (udp = Some False)\<rparr>"
    "parse_cli_args (''decode'' # hex data # mode_words udp) =
     Inr \<lparr>ca_hex_packet = hex data, ca_udp = (udp = Some True), ca_tcp = (udp = Some False)\<rparr>"
    by (cases udp; cases "the udp"; simp add: run; simp add: decode_parser_def)+
qed

text \<open>
  C40. The tool shows a packet completely. On the hexadecimal text of any bytes, with or without one of the two
  flags, before or after it, it prints the value of the packet that \<open>parse_packet\<close> finds in these bytes, or the text of
  its error; and what is printed determines the packet, so nothing of it is lost: no two packets are
  shown alike.
\<close>

theorem cli_shows_packet:
  "(let shown = (case parse_packet data udp True of
                   Inl e \<Rightarrow> Exit_Text (''error: '' @ exn_message e)
                 | Inr packet \<Rightarrow> Returns (jsonable packet)) in
      cli_program (''decode'' # mode_words udp @ [hex data]) = shown \<and>
      cli_program (''decode'' # hex data # mode_words udp) = shown) \<and>
   (jsonable p = jsonable q \<longleftrightarrow> p = q)"
proof -
  have "(if udp = Some True then Some True else if udp = Some False then Some False else None) = udp"
    by (cases udp) auto
  then show ?thesis
    by (simp add: cli_program_def parse_decode cli_main_decodes jsonable_inj del: parse_cli_args.simps split: sum.split)
qed

end
