(* ===== verification/Spec2Isabelle.thy ===== *)
theory Spec2Isabelle
  imports Commands_Correct Camera_Proto_Correct Mjpeg_Frames Control_Threads HA_Correct Probe Cli
begin

text \<open>
  Verification of the INO-A9 local bridge: a Home Assistant app and integration for small WiFi
  cameras with a proprietary LAN protocol (PPRPC). The Python package \<open>wificam_bridge\<close>
  (under \<open>src/ino_a9_bridge/src\<close>) talks to the cameras and serves their pictures, sound and controls
  over HTTP; the integration (under \<open>src/custom_components/ino_a9\<close>) makes them entities of Home Assistant.

  \<^bold>\<open>The program and its theories.\<close>

  From the wire upwards; every theory names the functions it models, with the names of the source.

  \<^item> \<open>Prelude\<close>: bytes, strings, exceptions as a sum type, state-passing operations \<open>op\<close> with their
    composition \<open>seq_state\<close>, JSON values and dictionaries, decimal text; the predicates \<open>keeps\<close> (an operation
    respects a relation between states) and \<open>behaves\<close> (an operation preserves an invariant and raises only
    certain exceptions), which carry most proofs about handlers.
  \<^item> \<open>Varint\<close>, \<open>Md5\<close>, \<open>Pprpc\<close>, \<open>Pprpc_Stream\<close> (\<open>pprpc.py\<close>): varints, headers, the packet parser, the splitter of the TCP
    stream, key derivation. \<open>Framing\<close> is the interface of a splitter, a locale; the splitter is an
    interpretation of it, from which independence of the chunking follows.
  \<^item> \<open>Crypto\<close> (\<open>crypto.py\<close>): the AES-CBC helpers over a parameter for the cipher.
  \<^item> \<open>Controls\<close>, \<open>Protobuf\<close>, \<open>Commands\<close>, \<open>Commands_Correct\<close> (\<open>controls.py\<close>, \<open>commands.py\<close>): the intrusion schedule, the command
    payloads and the reader of responses, against abstract protobuf messages.
  \<^item> \<open>Camera_Proto\<close>, \<open>Camera_Proto_Correct\<close>, \<open>Reassembler\<close>, \<open>Reassembler_Correct\<close>, \<open>Mjpeg_Frames\<close>, \<open>Interleaving\<close> (first part
    of \<open>camera.py\<close>): messages of the camera, packing and decrypting RPCs, the MJPEG
    reassembler with its four dictionaries, which refine one collection per sequence; \<open>Interleaving\<close> is the
    locale of a component that serves independent flows through one state.
  \<^item> \<open>Pending\<close>, \<open>Client\<close>, \<open>Client_Run\<close>, \<open>Client_Correct\<close>, \<open>Client_Stream\<close>, \<open>Client_Control\<close> (class \<open>CameraClient\<close> of
    \<open>camera.py\<close>): connecting, the handshake, receiving, the frame loop with heartbeat and watchdogs, and
    the control commands, which wait while the reader thread runs. The reader's steps are the inductive
    relation \<open>reader_step\<close>; the table of waiting commands is an explicit store of slots.
  \<^item> \<open>Session\<close> (\<open>session.py\<close>): the reader thread in cycles, each a connection and then its stream, and the
    control operations.
  \<^item> \<open>Control_Values\<close>, \<open>Control_Store\<close>, \<open>Control_API\<close>, \<open>Control_API_Correct\<close> (\<open>control_api.py\<close>): validated control values, the
    persistent store, and the HTTP API without HTTP. What the API needs of a camera is the locale
    \<open>camera_port\<close>, of all its cameras \<open>camera_fleet\<close>. \<open>Control_Threads\<close> cuts an update into the three
    steps between which the threads of other requests may run (\<open>put_steps\<close>); run without a break, the
    steps are \<open>handle\<close>.
  \<^item> \<open>Arguments\<close>, \<open>Command_Lines\<close>: the part of \<open>argparse\<close> that the programs use, as in the standard library of
    Python 3.11, and the parsers of the four programs (\<open>build_parser\<close> of \<open>bridge.py\<close>, \<open>cli.py\<close> and
    \<open>probe_media.py\<close>, \<open>main\<close> of \<open>app_runtime.py\<close>); a program is a function of its arguments whose value is
    a \<open>program_end\<close>: \<open>bridge_program\<close>, \<open>app_program\<close>, \<open>probe_program\<close>, \<open>cli_program\<close>.
  \<^item> \<open>Camera_State\<close>, \<open>Bridge_Stream\<close>, \<open>Worker\<close>, \<open>Worker_Correct\<close>, \<open>Bridge_Config\<close>, \<open>Bridge_HTTP\<close>, \<open>Bridge_Main\<close>
    (\<open>bridge.py\<close>): the published frame and audio queue
    with their waiting readers, the endless responses, the worker thread with its poll loop - an
    interpretation of \<open>camera_port\<close> -, the configuration, the HTTP server with its routes, and \<open>main\<close> from
    the arguments over \<open>serve_forever\<close> to the end of the workers.
  \<^item> \<open>App_Runtime\<close> (\<open>app_runtime.py\<close>): options to files, the go2rtc configuration, discovery, and the two
    services of the app (under \<open>rootfs\<close>), of which the second runs the bridge on the files of the first.
  \<^item> \<open>HA_Client\<close>, \<open>HA_Entities\<close>, \<open>HA_Platforms\<close>, \<open>HA_Service\<close> (the integration): the API client, the coordinator, the
    config flow with the schema of its form, what entities show and send, what each platform
    constructs for an entry, the diagnostics, setup, unloading and the schedule service. \<open>HA_Link\<close> and \<open>HA_Correct\<close> put the integration and the bridge together.
  \<^item> \<open>Probe\<close> (\<open>scripts/probe_media.py\<close>) and \<open>Cli\<close> (\<open>cli.py\<close>): the two diagnostic tools. The probe runs in the
    \<open>with\<close> block of a client, which is \<open>with_client\<close> of \<open>Client_Run\<close>.

  \<^bold>\<open>How code became definitions.\<close>

  A class is a record of its attributes; a method that changes it takes and returns the record. A raise is
  an \<open>Inl\<close> with the exception of the source, and an \<open>except\<close> clause a case on it; what no clause catches stays
  an \<open>Inl\<close>, so exceptions that leave a handler are visible in the theorems. The locks of the program make its
  methods atomic; where a thread waits, the state other threads leave is an argument: a
  function (\<open>others\<close>, instantiated by \<open>meanwhile\<close>, any list of reader steps), a script of events with delays
  (\<open>wakes\<close>, \<open>turn\<close>, the turns of \<open>worker_run\<close>), or a reachable state of a step relation (\<open>reader_step\<close>,
  \<open>worker_step\<close>). Where the source holds no lock across a whole handler, as in an update of a control,
  the steps under the locks are interleaved explicitly (\<open>put_steps\<close>).

  What is outside the repository is a parameter. The socket and the clock are scripts in the client's state; time
  is in milliseconds and passes only while the program waits. A file is the result of reading it: its text, or the
  exception for a file that is missing, not readable or not UTF-8, and JSON text decodes or raises \<open>JSONDecodeError\<close>,
  so the clauses that catch some of these and not others are branches of the model. The cipher is a record with the laws
  \<open>cipher_laws\<close>; JSON text, \<open>repr\<close>, \<open>time.fromisoformat\<close>, the file system's failures, the Supervisor, the HTTP library
  and Home Assistant's refresh are function arguments or scripts. Where a theorem relies on them, the
  documented law is a hypothesis of it (a document is read back as it was written, \<open>HH:MM\<close> is a time), and a
  witness instantiates it.

  \<^bold>\<open>What the lemmas show.\<close>

  \<^item> Wire formats: chunking of the TCP stream does not matter; parsers and builders are faithful to abstract
    messages; round trips of RPCs, settings, schedules and stored values.
  \<^item> Pictures: a frame is reassembled under every interleaving of fragments, nothing but complete JPEGs is
    ever emitted or served, a stream shows published frames in order, and audio has no gap within
    the 128 chunks of the queue.
  \<^item> Connections: \<open>connect\<close> is all or nothing and bounded in time; a stalled stream is given up; a control
    command gets its own answer or is woken; every poll of a worker makes its status say what its
    session says, and when the worker ends the session is closed and no control reaches a camera.
  \<^item> Controls: checked, sent, stored, in this order; a change shows up in later requests and survives
    restarts; only the holder of the token changes anything. Under every interleaving of requests the
    store holds accepted values only; requests that take turns keep camera and store in agreement, and
    ones that overtake each other need not: then the camera has one value and the store the other.
  \<^item> The programs: command lines are read as they were meant, the bridge starts on what the app prepared
    - from the arguments of the two services on - and ends with its workers stopped or with an exception
    that is named, the probe always ends and disconnects, the tool shows packets without losing anything.
  \<^item> The system: discovery gives the integration a working connection, what the integration sends is accepted, what it reports as set is stored, and what
    it shows is what is stored; the entities of an entry have distinct identities, and its diagnostics
    do not contain the token.

  \<^bold>\<open>Termination and bounds.\<close>

  Loops over bytes end because a cursor advances; loops over the network end because each turn uses up
  the script of the socket or time, and a silent socket only lets time pass until a deadline. So all
  functions are total and there is no fuel; \<open>stalled_stream_given_up\<close> says in addition that the frame loop ends
  with an exception, and when, and \<open>waiting_is_bounded\<close> that no reader of the camera state waits past its
  timeout, and \<open>connect_duration\<close> and \<open>probe_ends\<close> bound whole runs of a client. The budget of \<open>frames\<close> is
  the number of frames its consumer takes. The endless HTTP
  responses run over the list of turns they get.

  \<^bold>\<open>Not modelled.\<close>

  Parsing and printing of JSON text, the text of usage and help messages, logging; a duration of the probe that is
  infinite or no number; digits and white space outside ASCII
  in \<open>strptime\<close>, \<open>int\<close>, \<open>strip\<close> and \<open>title\<close>; errors while closing a socket and the time a dial takes; scheduling
  inside a method that holds its lock; addresses in brackets in a request target; offsets in
  \<open>fromisoformat\<close>; the debouncing of refreshes, registries, and in the service schema the validators of
  \<open>voluptuous\<close> itself, in Home Assistant.
\<close>

end
